(* ===== verification/DsmPrelude.thy ===== *)
theory DsmPrelude
  imports Main "HOL-Library.Word"
begin

text \<open>
  Shared material: the machine integer types, the error values of the model, the C array loops
  that several source files repeat (linear search over a counted array, shifting a counted array
  down by one), C strings in fixed-width fields, little-endian byte encodings, and the reachable states
  of a step relation, with the two arguments made about them: an inductive invariant
  (\<open>inductive_invariant\<close>) and a simulation by a simpler system (\<open>forward_simulation\<close>).
\<close>

type_synonym u8 = "8 word"
type_synonym u16 = "16 word"
type_synonym u32 = "32 word"
type_synonym u64 = "64 word"

named_theorems frame_simps "fields that an operation leaves unchanged"

text \<open>
  What C leaves undefined, or what the processor refuses, is a value of the model. \<open>SegFault\<close> is the
  access that raises \<^verbatim>\<open>SIGSEGV\<close>: in a region of the library its own handler gets it (\<open>sigsegv_handler\<close>),
  and the thread spins until the handler thread is done; anywhere else the process dies.
\<close>

datatype crash = NullDeref | OutOfBounds | SegFault

section \<open>Loops over counted arrays\<close>

text \<open>
  \<^verbatim>\<open>for (i = 0; i < count; i++) if (P(a[i])) { found = i; break; }\<close>, from index \<open>i\<close> on.
\<close>

function first_index :: "('a \<Rightarrow> bool) \<Rightarrow> 'a list \<Rightarrow> nat \<Rightarrow> nat \<Rightarrow> nat option" where
  "first_index P xs i n =
     (if i < n then (if P (xs ! i) then Some i else first_index P xs (Suc i) n) else None)"
  by pat_completeness auto
termination
  by (relation "measure (\<lambda>(P, xs, i, n). n - i)") auto

declare first_index.simps [simp del]

text \<open>
  \<^verbatim>\<open>for (i = found; i < count - 1; i++) a[i] = a[i + 1];\<close>
\<close>

function shift_down :: "'a list \<Rightarrow> nat \<Rightarrow> nat \<Rightarrow> 'a list" where
  "shift_down xs i n = (if Suc i < n then shift_down (xs[i := xs ! Suc i]) (Suc i) n else xs)"
  by pat_completeness auto
termination
  by (relation "measure (\<lambda>(xs, i, n). n - i)") auto

declare shift_down.simps [simp del]

lemma all_from_split:
  "(\<forall>k. i \<le> k \<and> k < j \<longrightarrow> Q k) \<longleftrightarrow>
     (i < j \<longrightarrow> Q i) \<and> (\<forall>k. Suc i \<le> k \<and> k < (j::nat) \<longrightarrow> Q k)"
proof -
  have *: "i \<le> k \<longleftrightarrow> k = i \<or> Suc i \<le> k" for k
    by auto
  show ?thesis by (simp only: *) metis
qed

lemma first_index_step:
  "first_index P xs i n = (if i < n \<and> \<not> P (xs ! i) then first_index P xs (Suc i) n
     else if i < n then Some i else None)"
  by (subst first_index.simps) simp

lemma first_index_Some_iff:
  "first_index P xs i n = Some j \<longleftrightarrow>
     i \<le> j \<and> j < n \<and> P (xs ! j) \<and> (\<forall>k. i \<le> k \<and> k < j \<longrightarrow> \<not> P (xs ! k))"
proof (induction P xs i n rule: first_index.induct)
  case (1 P xs i n)
  show ?case
  proof (cases "i < n \<and> \<not> P (xs ! i)")
    case True
    then have "first_index P xs i n = Some j \<longleftrightarrow> Suc i \<le> j \<and> j < n \<and> P (xs ! j) \<and>
        (\<forall>k. Suc i \<le> k \<and> k < j \<longrightarrow> \<not> P (xs ! k))"
      using "1.IH" by (simp only: first_index_step [of P xs i n]) simp
    also have "\<dots> \<longleftrightarrow> i \<le> j \<and> j < n \<and> P (xs ! j) \<and> (\<forall>k. i \<le> k \<and> k < j \<longrightarrow> \<not> P (xs ! k))"
    proof (cases "i = j")
      case True
      with \<open>i < n \<and> \<not> P (xs ! i)\<close> show ?thesis by simp
    next
      case False
      have "(\<forall>k. Suc i \<le> k \<and> k < j \<longrightarrow> \<not> P (xs ! k)) \<longleftrightarrow> (\<forall>k. i \<le> k \<and> k < j \<longrightarrow> \<not> P (xs ! k))"
        using \<open>i < n \<and> \<not> P (xs ! i)\<close> by (subst all_from_split [of i]) simp
      moreover have "Suc i \<le> j \<longleftrightarrow> i \<le> j"
        using False by auto
      ultimately show ?thesis by blast
    qed
    finally show ?thesis .
  next
    case False
    then show ?thesis
      by (simp only: first_index_step [of P xs i n]) (force simp: le_less)
  qed
qed

lemma first_index_None_iff:
  "first_index P xs i n = None \<longleftrightarrow> (\<forall>k. i \<le> k \<and> k < n \<longrightarrow> \<not> P (xs ! k))"
proof (induction P xs i n rule: first_index.induct)
  case (1 P xs i n)
  show ?case
  proof (cases "i < n \<and> \<not> P (xs ! i)")
    case True
    then have "first_index P xs i n = None \<longleftrightarrow> (\<forall>k. Suc i \<le> k \<and> k < n \<longrightarrow> \<not> P (xs ! k))"
      using "1.IH" by (simp only: first_index_step [of P xs i n]) simp
    with True show ?thesis
      by (subst all_from_split [of i]) simp
  next
    case False
    then show ?thesis
      by (simp only: first_index_step [of P xs i n]) force
  qed
qed

lemma first_index_SomeD:
  "first_index P xs 0 n = Some j \<Longrightarrow> j < n \<and> P (xs ! j)"
  by (simp add: first_index_Some_iff)

lemma first_index_bound: "first_index P xs i n = Some j \<Longrightarrow> j < n"
  by (simp add: first_index_Some_iff)

lemma first_index_unique:
  assumes "j < n" "P (xs ! j)" "\<And>k. k < n \<Longrightarrow> P (xs ! k) \<Longrightarrow> k = j"
  shows "first_index P xs 0 n = Some j"
  unfolding first_index_Some_iff
proof (intro conjI allI impI)
  fix k assume "0 \<le> k \<and> k < j"
  then show "\<not> P (xs ! k)"
    using assms(1) assms(3) [of k] by (metis less_irrefl less_trans)
qed (use assms(1,2) in simp_all)

lemma first_index_cong:
  assumes "n = n'" "\<And>j. j < n' \<Longrightarrow> P (xs ! j) = P' (xs' ! j)"
  shows "first_index P xs i n = first_index P' xs' i n'"
proof (cases "first_index P' xs' i n'")
  case None
  then have "first_index P xs i n = None"
    using assms by (simp add: first_index_None_iff)
  with None show ?thesis by simp
next
  case (Some j)
  then have "first_index P xs i n = Some j"
    using assms by (auto simp: first_index_Some_iff)
  with Some show ?thesis by simp
qed

lemma first_index_take: "n \<le> length xs \<Longrightarrow> first_index P xs i n = first_index P (take n xs) i n"
  by (rule first_index_cong) simp_all

lemma length_shift_down [simp]: "length (shift_down xs i n) = length xs"
proof (induction xs i n rule: shift_down.induct)
  case (1 xs i n)
  show ?case
  proof (cases "Suc i < n")
    case True
    then have "shift_down xs i n = shift_down (xs[i := xs ! Suc i]) (Suc i) n"
      by (subst shift_down.simps) simp
    with "1.IH" [OF True] show ?thesis by simp
  next
    case False
    then show ?thesis by (subst shift_down.simps) simp
  qed
qed

lemma shift_down_nth:
  "n \<le> length xs \<Longrightarrow> k < length xs \<Longrightarrow>
   shift_down xs i n ! k = (if i \<le> k \<and> Suc k < n then xs ! Suc k else xs ! k)"
proof (induction xs i n rule: shift_down.induct)
  case (1 xs i n)
  show ?case
  proof (cases "Suc i < n")
    case True
    then have "shift_down xs i n ! k = shift_down (xs[i := xs ! Suc i]) (Suc i) n ! k"
      by (simp only: shift_down.simps [of xs i n]) simp
    also have "\<dots> = (if Suc i \<le> k \<and> Suc k < n then xs[i := xs ! Suc i] ! Suc k
        else xs[i := xs ! Suc i] ! k)"
      using "1.IH" [OF True] "1.prems" by simp
    also have "\<dots> = (if i \<le> k \<and> Suc k < n then xs ! Suc k else xs ! k)"
      using True "1.prems" by (auto simp: nth_list_update)
    finally show ?thesis .
  next
    case False
    then have "shift_down xs i n = xs"
      by (simp only: shift_down.simps [of xs i n]) simp
    with False show ?thesis by auto
  qed
qed

text \<open>The loop removes the element at \<open>i\<close> from the live prefix and keeps the others in order.\<close>

lemma take_shift_down:
  assumes "i < n" "n \<le> length xs"
  shows "take (n - 1) (shift_down xs i n) = take i xs @ drop (Suc i) (take n xs)"
  using assms by (intro nth_equalityI) (auto simp: shift_down_nth nth_append)

lemma nth_take_iff_first: "i < n \<Longrightarrow> n \<le> length xs \<Longrightarrow> xs ! i \<in> set (take n xs)"
  by (metis length_take min.absorb2 nth_mem nth_take)

text \<open>The list functions the array loops compute.\<close>

fun update_first :: "('a \<Rightarrow> bool) \<Rightarrow> ('a \<Rightarrow> 'a) \<Rightarrow> 'a list \<Rightarrow> 'a list" where
  "update_first P f [] = []"
| "update_first P f (x # xs) = (if P x then f x # xs else x # update_first P f xs)"

fun remove_first :: "('a \<Rightarrow> bool) \<Rightarrow> 'a list \<Rightarrow> 'a list" where
  "remove_first P [] = []"
| "remove_first P (x # xs) = (if P x then xs else x # remove_first P xs)"

lemma first_index_empty: "first_index P xs 0 0 = None"
  by (subst first_index.simps) simp

lemma first_index_Cons:
  "first_index P (x # xs) 0 (Suc (length xs)) =
     (if P x then Some 0 else map_option Suc (first_index P xs 0 (length xs)))"
proof (cases "P x")
  case True
  then show ?thesis by (subst first_index.simps) simp
next
  case False
  have "first_index P (x # xs) 0 (Suc (length xs)) = map_option Suc (first_index P xs 0 (length xs))"
  proof (cases "first_index P xs 0 (length xs)")
    case None
    then have "first_index P (x # xs) 0 (Suc (length xs)) = None"
      using False by (auto simp: first_index_None_iff nth_Cons split: nat.splits)
    with None show ?thesis by simp
  next
    case (Some i)
    then have "first_index P (x # xs) 0 (Suc (length xs)) = Some (Suc i)"
      using False by (auto simp: first_index_Some_iff nth_Cons split: nat.splits)
    with Some show ?thesis by simp
  qed
  with False show ?thesis by simp
qed

lemma update_first_index:
  "first_index P xs 0 (length xs) = Some i \<Longrightarrow> xs[i := f (xs ! i)] = update_first P f xs"
  by (induction xs arbitrary: i) (auto simp: first_index_Cons first_index_empty split: if_splits)

lemma remove_first_index:
  "first_index P xs 0 (length xs) = Some i \<Longrightarrow> take i xs @ drop (Suc i) xs = remove_first P xs"
  by (induction xs arbitrary: i) (auto simp: first_index_Cons first_index_empty split: if_splits)

lemma first_index_ex:
  "first_index P xs 0 (length xs) \<noteq> None \<longleftrightarrow> (\<exists>x \<in> set xs. P x)"
  by (induction xs) (auto simp: first_index_Cons first_index_empty)

lemma remove_first_absent: "\<forall>x \<in> set xs. \<not> P x \<Longrightarrow> remove_first P xs = xs"
  by (induction xs) auto

lemma set_remove_first: "set (remove_first P xs) \<subseteq> set xs"
  by (induction xs) auto

lemma distinct_remove_first: "distinct (map f xs) \<Longrightarrow> distinct (map f (remove_first P xs))"
  using set_remove_first [of P] by (induction xs) fastforce+

section \<open>First-match lookup tables\<close>

text \<open>
  Several components keep a list of entries and find one by a linear search. The contract: the
  result is the first entry that matches the key. The lemmas say how lookups react to the ways the
  code changes such tables.
\<close>

locale first_match_table =
  fixes invar :: "'s \<Rightarrow> bool"
    and entries :: "'s \<Rightarrow> 'e list"
    and lookup :: "'k \<Rightarrow> 's \<Rightarrow> nat option"
    and matches :: "'k \<Rightarrow> 'e \<Rightarrow> bool"
  assumes lookup_first_index:
    "invar s \<Longrightarrow> lookup k s = first_index (matches k) (entries s) 0 (length (entries s))"
begin

lemma lookup_SomeD:
  "invar s \<Longrightarrow> lookup k s = Some i \<Longrightarrow> i < length (entries s) \<and> matches k (entries s ! i)"
  by (simp add: lookup_first_index first_index_Some_iff)

lemma lookup_None_iff: "invar s \<Longrightarrow> lookup k s = None \<longleftrightarrow> (\<forall>e \<in> set (entries s). \<not> matches k e)"
  by (simp add: lookup_first_index first_index_None_iff all_set_conv_all_nth)

lemma lookup_Some_iff:
  "invar s \<Longrightarrow> lookup k s = Some i \<longleftrightarrow>
     i < length (entries s) \<and> matches k (entries s ! i) \<and> (\<forall>j < i. \<not> matches k (entries s ! j))"
  by (auto simp: lookup_first_index first_index_Some_iff)

text \<open>Appending an entry changes no answer that was found before.\<close>

lemma lookup_append:
  assumes "invar s" "invar s'" "entries s' = entries s @ [e]"
  shows "lookup k s' = (case lookup k s of Some i \<Rightarrow> Some i
           | None \<Rightarrow> if matches k e then Some (length (entries s)) else None)"
proof (cases "lookup k s")
  case None
  then have none: "\<forall>e \<in> set (entries s). \<not> matches k e"
    using assms(1) by (simp add: lookup_None_iff)
  show ?thesis
  proof (cases "matches k e")
    case True
    then have "lookup k s' = Some (length (entries s))"
      using assms none by (simp add: lookup_Some_iff nth_append)
    with None True show ?thesis by simp
  next
    case False
    then have "lookup k s' = None"
      using assms none by (simp add: lookup_None_iff)
    with None False show ?thesis by simp
  qed
next
  case (Some i)
  then have "lookup k s' = Some i"
    using assms by (auto simp: lookup_Some_iff nth_append)
  with Some show ?thesis by simp
qed

text \<open>Overwriting an entry by one that matches the same keys changes no answer.\<close>

lemma lookup_update:
  assumes "invar s" "invar s'" "entries s' = (entries s)[i := e]"
    and "i < length (entries s)" "\<And>k. matches k e = matches k (entries s ! i)"
  shows "lookup k s' = lookup k s"
proof -
  have "matches k (entries s' ! j) = matches k (entries s ! j)" if "j < length (entries s)" for j
    using assms that by (cases "j = i") auto
  moreover have "length (entries s') = length (entries s)"
    using assms(3) by simp
  ultimately show ?thesis
    using assms(1,2) by (simp add: lookup_first_index cong: first_index_cong)
qed

text \<open>When no two entries match a key, the lookup finds the entry that does.\<close>

lemma lookup_unique:
  assumes "invar s" "i < length (entries s)" "matches k (entries s ! i)"
    and "\<And>j. j < length (entries s) \<Longrightarrow> matches k (entries s ! j) \<Longrightarrow> j = i"
  shows "lookup k s = Some i"
  unfolding lookup_first_index [OF assms(1)]
  by (rule first_index_unique) (rule assms(2), rule assms(3), rule assms(4))

end

section \<open>C strings in fixed-width fields\<close>

text \<open>The C string a buffer holds: its bytes up to the first NUL.\<close>

definition cstr :: "u8 list \<Rightarrow> u8 list" where
  "cstr bs = takeWhile (\<lambda>b. b \<noteq> 0) bs"

text \<open>\<^verbatim>\<open>strncpy(dst, src, n)\<close>: at most \<open>n\<close> bytes, NUL-padded up to \<open>n\<close>, no terminator of its own.\<close>

definition strncpy :: "nat \<Rightarrow> u8 list \<Rightarrow> u8 list \<Rightarrow> u8 list" where
  "strncpy n dst src =
     (let s = cstr (take n src) in s @ replicate (n - length s) 0 @ drop n dst)"

text \<open>A field that holds a terminated string: the right width, and a NUL in its last byte.\<close>

definition cfield :: "nat \<Rightarrow> u8 list \<Rightarrow> bool" where
  "cfield n bs \<longleftrightarrow> length bs = n \<and> 0 < n \<and> bs ! (n - 1) = 0"

lemma length_cstr_le: "length (cstr bs) \<le> length bs"
  by (simp add: cstr_def length_takeWhile_le)

lemma cstr_no_nul: "b \<in> set (cstr bs) \<Longrightarrow> b \<noteq> 0"
  by (auto simp: cstr_def dest: set_takeWhileD)

lemma cstr_idem [simp]: "cstr (cstr bs) = cstr bs"
  unfolding cstr_def by (rule takeWhile_idem)

lemma cstr_append_nul: "cstr (s @ 0 # t) = cstr s"
  by (induction s) (auto simp: cstr_def)

lemma cstr_padded: "cstr s = s \<Longrightarrow> cstr (s @ replicate k 0) = s"
  by (cases k) (auto simp: cstr_append_nul)

lemma length_strncpy: "n \<le> length dst \<Longrightarrow> length (strncpy n dst src) = length dst"
proof -
  assume n: "n \<le> length dst"
  have "length (cstr (take n src)) \<le> n"
    using length_cstr_le [of "take n src"] by simp
  with n show ?thesis
    by (simp add: strncpy_def Let_def)
qed

lemma drop_strncpy: "n \<le> length dst \<Longrightarrow> drop n (strncpy n dst src) = drop n dst"
proof -
  have "length (cstr (take n src)) \<le> n"
    using length_cstr_le [of "take n src"] by simp
  then show ?thesis
    by (simp add: strncpy_def Let_def)
qed

lemma strncpy_cfield:
  assumes "cfield (Suc n) dst"
  shows "cfield (Suc n) (strncpy n dst src)"
proof -
  have len: "length dst = Suc n" and z: "dst ! n = 0"
    using assms by (auto simp: cfield_def)
  have l: "length (strncpy n dst src) = Suc n"
    using len by (simp add: length_strncpy)
  then have "strncpy n dst src ! n = drop n (strncpy n dst src) ! 0"
    by simp
  also have "\<dots> = 0"
    using len z by (simp add: drop_strncpy)
  finally show ?thesis
    using l by (simp add: cfield_def)
qed

lemma cstr_strncpy:
  assumes "cfield (Suc n) dst"
  shows "cstr (strncpy n dst src) = cstr (take n src)"
proof -
  have "drop n dst = [0]"
    using assms by (auto simp: cfield_def Cons_nth_drop_Suc [symmetric])
  then have "strncpy n dst src = cstr (take n src) @ replicate (Suc (n - length (cstr (take n src)))) 0"
    by (simp add: strncpy_def Let_def replicate_append_same)
  then show ?thesis
    by (simp only: cstr_padded cstr_idem)
qed

text \<open>Copying a terminated field into another gives the same string.\<close>

lemma cstr_take_cfield: "cfield (Suc n) src \<Longrightarrow> cstr (take n src) = cstr src"
proof -
  assume f: "cfield (Suc n) src"
  then have "src = take n src @ [0]"
    by (metis Suc_eq_plus1 add_diff_cancel_right' cfield_def lessI take_Suc_conv_app_nth take_all_iff
        order_refl)
  then show ?thesis
    by (metis cstr_append_nul)
qed

section \<open>Counting\<close>

lemma distinct_if_count_le_1: "(\<And>x. x \<in> set xs \<Longrightarrow> count_list xs x \<le> 1) \<Longrightarrow> distinct xs"
proof (induction xs)
  case Nil
  then show ?case by simp
next
  case (Cons y ys)
  have "count_list (y # ys) y \<le> 1"
    by (rule Cons.prems) simp
  then have "y \<notin> set ys"
    by (simp add: count_list_0_iff)
  moreover have "count_list ys x \<le> 1" if "x \<in> set ys" for x
    using Cons.prems [of x] that by (auto split: if_splits)
  ultimately show ?case
    using Cons.IH by simp
qed

text \<open>A list with as many elements as a set, all of them in it and none twice, has each exactly once.\<close>

lemma count_list_full:
  assumes "distinct xs" "distinct ys" "set xs \<subseteq> set ys" "length ys \<le> length xs" "y \<in> set ys"
  shows "count_list xs y = 1"
proof -
  have "card (set ys) \<le> card (set xs)"
    using assms(1,2,4) by (simp add: distinct_card)
  then have "set xs = set ys"
    by (rule card_seteq [OF finite_set assms(3)])
  then have "y \<in> set xs"
    using assms(5) by simp
  then show ?thesis
    using assms(1) by (induction xs) auto
qed

lemma concat_map_count:
  assumes "\<And>x. x \<in> set xs \<Longrightarrow> P x \<longleftrightarrow> x = y"
  shows "concat (map (\<lambda>x. if P x then f x else []) xs) = concat (replicate (count_list xs y) (f y))"
  using assms by (induction xs) auto

section \<open>Counters\<close>

lemma unat_plus1_u32: "unat (x :: u32) < 4294967295 \<Longrightarrow> unat (x + 1) = Suc (unat x)"
  by (simp add: unat_word_ariths)

lemma unat_minus1: "0 < unat (x :: 'a::len word) \<Longrightarrow> unat (x - 1) = unat x - 1"
  by (metis One_nat_def unat_eq_zero less_irrefl unat_1 unat_minus_one unat_0)

section \<open>Step relations\<close>

inductive reachable :: "('s \<Rightarrow> bool) \<Rightarrow> ('s \<Rightarrow> 's \<Rightarrow> bool) \<Rightarrow> 's \<Rightarrow> bool" for init step where
  reach_start: "init s \<Longrightarrow> reachable init step s"
| reach_step: "reachable init step s \<Longrightarrow> step s s' \<Longrightarrow> reachable init step s'"

lemma reach_steps:
  assumes "step\<^sup>*\<^sup>* s s'" "reachable init step s"
  shows "reachable init step s'"
  using assms(1)
proof (induction rule: rtranclp_induct)
  case base
  show ?case by (rule assms(2))
next
  case (step y z)
  show ?case by (rule reach_step [OF step.IH step.hyps(2)])
qed

lemma steps_one: "step s s' \<Longrightarrow> step\<^sup>*\<^sup>* s s'"
  by (rule r_into_rtranclp)

lemma steps_two: "step s s1 \<Longrightarrow> step s1 s2 \<Longrightarrow> step\<^sup>*\<^sup>* s s2"
  by (rule converse_rtranclp_into_rtranclp [OF _ r_into_rtranclp])

locale inductive_invariant =
  fixes init :: "'s \<Rightarrow> bool"
    and step :: "'s \<Rightarrow> 's \<Rightarrow> bool"
    and inv :: "'s \<Rightarrow> bool"
  assumes inv_init: "init s \<Longrightarrow> inv s"
    and inv_step: "step s s' \<Longrightarrow> inv s \<Longrightarrow> inv s'"
begin

lemma inv_reach:
  assumes "reachable init step s"
  shows "inv s"
  using assms
proof (induction rule: reachable.induct)
  case (reach_start s)
  then show ?case by (rule inv_init)
next
  case (reach_step s s')
  show ?case by (rule inv_step [OF reach_step.hyps(2) reach_step.IH])
qed

lemma inv_steps:
  assumes "step\<^sup>*\<^sup>* s s'" "inv s"
  shows "inv s'"
  using assms(1)
proof (induction rule: rtranclp_induct)
  case base
  show ?case by (rule assms(2))
next
  case (step y z)
  show ?case by (rule inv_step [OF step.hyps(2) step.IH])
qed

end

text \<open>
  A detailed system, each step of which is some steps, or none, of the system of the invariant: what it
  reaches is related to what that system reaches, and so is what it reaches from there.
\<close>

locale forward_simulation = inductive_invariant init step inv
  for init :: "'a \<Rightarrow> bool" and step :: "'a \<Rightarrow> 'a \<Rightarrow> bool" and inv :: "'a \<Rightarrow> bool" +
  fixes detailed_init :: "'c \<Rightarrow> bool"
    and detailed_step :: "'c \<Rightarrow> 'c \<Rightarrow> bool"
    and rel :: "'c \<Rightarrow> 'a \<Rightarrow> bool"
  assumes rel_init: "detailed_init s \<Longrightarrow> \<exists>a. init a \<and> rel s a"
    and rel_step: "detailed_step s s' \<Longrightarrow> rel s a \<Longrightarrow> inv a \<Longrightarrow> \<exists>a'. step\<^sup>*\<^sup>* a a' \<and> rel s' a'"
begin

lemma rel_steps:
  assumes "detailed_step\<^sup>*\<^sup>* s s'" "rel s a" "inv a"
  shows "\<exists>a'. step\<^sup>*\<^sup>* a a' \<and> rel s' a'"
  using assms(1)
proof (induction rule: rtranclp_induct)
  case base
  show ?case
    by (intro exI conjI) (rule rtranclp.rtrancl_refl, rule assms(2))
next
  case (step y z)
  then obtain b where b: "step\<^sup>*\<^sup>* a b" "rel y b"
    by (elim exE conjE)
  obtain c where c: "step\<^sup>*\<^sup>* b c" "rel z c"
    using rel_step [OF step.hyps(2) b(2) inv_steps [OF b(1) assms(3)]] by (elim exE conjE)
  show ?case
    by (intro exI conjI) (rule rtranclp_trans [OF b(1) c(1)], rule c(2))
qed

lemma rel_reach:
  assumes "reachable detailed_init detailed_step s"
  shows "\<exists>a. reachable init step a \<and> rel s a"
  using assms
proof (induction rule: reachable.induct)
  case (reach_start s)
  obtain a where a: "init a" "rel s a"
    using rel_init [OF reach_start] by (elim exE conjE)
  show ?case
    by (intro exI conjI) (rule reachable.reach_start, rule a(1), rule a(2))
next
  case (reach_step s s')
  then obtain a where a: "reachable init step a" "rel s a"
    by (elim exE conjE)
  obtain b where b: "step\<^sup>*\<^sup>* a b" "rel s' b"
    using rel_step [OF reach_step.hyps(2) a(2) inv_reach [OF a(1)]] by (elim exE conjE)
  show ?case
    by (intro exI conjI) (rule reach_steps [OF b(1) a(1)], rule b(2))
qed

end

section \<open>Little-endian bytes\<close>

fun enc_le :: "nat \<Rightarrow> nat \<Rightarrow> u8 list" where
  "enc_le 0 x = []"
| "enc_le (Suc k) x = word_of_nat (x mod 256) # enc_le k (x div 256)"

fun dec_le :: "u8 list \<Rightarrow> nat" where
  "dec_le [] = 0"
| "dec_le (b # bs) = unat b + 256 * dec_le bs"

lemma length_enc_le [simp]: "length (enc_le k x) = k"
  by (induction k arbitrary: x) auto

lemma unat_byte: "unat (word_of_nat (x mod 256) :: u8) = x mod 256"
  by (simp add: unat_of_nat)

lemma dec_enc_le: "dec_le (enc_le k x) = x mod 256 ^ k"
proof (induction k arbitrary: x)
  case 0
  then show ?case by simp
next
  case (Suc k)
  have "dec_le (enc_le (Suc k) x) = x mod 256 + 256 * (x div 256 mod 256 ^ k)"
    using Suc by (simp add: unat_byte)
  also have "\<dots> = x mod (256 * 256 ^ k)"
    by (simp add: mod_mult2_eq)
  finally show ?case by simp
qed

lemma dec_enc_le_id: "x < 256 ^ k \<Longrightarrow> dec_le (enc_le k x) = x"
  by (simp add: dec_enc_le)

end
