(* ===== verification/DsmTypes.thy ===== *)
theory DsmTypes
  imports DsmPrelude
begin

text \<open>
  The constants, enumerations and structures of \<^verbatim>\<open>include/dsm_types.h\<close>. A \<^verbatim>\<open>uint32_t\<close> is a
  \<open>u32\<close>, a \<^verbatim>\<open>uint64_t\<close>, \<^verbatim>\<open>size_t\<close> or pointer a \<open>u64\<close>, a file descriptor or \<^verbatim>\<open>int\<close> result an
  \<open>int\<close>, a \<^verbatim>\<open>char[16]\<close> a list of bytes. Arrays with a separate count keep both. The pthread
  mutexes and condition variables inside the structures are not fields: each operation of the
  model is one critical section of the code.
\<close>

section \<open>Constants\<close>

abbreviation (input) DSM_MAX_NODES :: nat where "DSM_MAX_NODES \<equiv> 64"
abbreviation (input) DSM_MAX_LOCKS :: nat where "DSM_MAX_LOCKS \<equiv> 256"
abbreviation (input) DSM_PAGE_SIZE :: nat where "DSM_PAGE_SIZE \<equiv> 4096"
abbreviation (input) DSM_MAX_CHUNKS :: nat where "DSM_MAX_CHUNKS \<equiv> 1024"
abbreviation (input) DSM_DISCOVERY_PORT :: u16 where "DSM_DISCOVERY_PORT \<equiv> 9999"
abbreviation (input) DSM_MAX_MESSAGE_SIZE :: nat where "DSM_MAX_MESSAGE_SIZE \<equiv> 65536"
abbreviation (input) DSM_MAX_IP_LEN :: nat where "DSM_MAX_IP_LEN \<equiv> 16"
abbreviation (input) DSM_MAGIC :: u32 where "DSM_MAGIC \<equiv> 0x44534D00"

section \<open>Enumerations\<close>

text \<open>
  The code casts integers from the network to these enumerations, so a variable of the type can
  hold any 32-bit value: the last constructor stands for the values with no name.
\<close>

datatype dsm_log_level = LOG_LEVEL_DEBUG | LOG_LEVEL_INFO | LOG_LEVEL_WARN | LOG_LEVEL_ERROR

text \<open>The levels are ordered by their numbers, which is how the macros compare them.\<close>

definition log_level_code :: "dsm_log_level \<Rightarrow> int" where
  "log_level_code l = (case l of LOG_LEVEL_DEBUG \<Rightarrow> 0 | LOG_LEVEL_INFO \<Rightarrow> 1 | LOG_LEVEL_WARN \<Rightarrow> 2
     | LOG_LEVEL_ERROR \<Rightarrow> 3)"

lemma log_level_code_inject [simp]: "log_level_code a = log_level_code b \<longleftrightarrow> a = b"
  by (cases a; cases b) (simp_all add: log_level_code_def)

lemma log_level_code_range [simp]: "0 \<le> log_level_code a" "log_level_code a \<le> 3"
  by (cases a; simp add: log_level_code_def)+

instantiation dsm_log_level :: linorder
begin

definition less_eq_dsm_log_level :: "dsm_log_level \<Rightarrow> dsm_log_level \<Rightarrow> bool" where
  "less_eq_dsm_log_level a b \<longleftrightarrow> log_level_code a \<le> log_level_code b"

definition less_dsm_log_level :: "dsm_log_level \<Rightarrow> dsm_log_level \<Rightarrow> bool" where
  "less_dsm_log_level a b \<longleftrightarrow> log_level_code a < log_level_code b"

instance
  by standard (auto simp: less_eq_dsm_log_level_def less_dsm_log_level_def)

end

datatype dsm_role =
  DSM_ROLE_UNKNOWN | DSM_ROLE_MASTER | DSM_ROLE_WORKER | DSM_ROLE_OTHER u32

datatype dsm_node_state =
  DSM_NODE_STATE_DISCOVERING | DSM_NODE_STATE_CONNECTING | DSM_NODE_STATE_CONNECTED
| DSM_NODE_STATE_READY | DSM_NODE_STATE_DISCONNECTED | DSM_NODE_STATE_OTHER u32

datatype dsm_page_state = DSM_PAGE_INVALID | DSM_PAGE_SHARED | DSM_PAGE_MODIFIED | DSM_PAGE_PENDING

definition role_of_u32 :: "u32 \<Rightarrow> dsm_role" where
  "role_of_u32 x = (if x = 0 then DSM_ROLE_UNKNOWN else if x = 1 then DSM_ROLE_MASTER
     else if x = 2 then DSM_ROLE_WORKER else DSM_ROLE_OTHER x)"

fun u32_of_role :: "dsm_role \<Rightarrow> u32" where
  "u32_of_role DSM_ROLE_UNKNOWN = 0"
| "u32_of_role DSM_ROLE_MASTER = 1"
| "u32_of_role DSM_ROLE_WORKER = 2"
| "u32_of_role (DSM_ROLE_OTHER x) = x"

definition node_state_of_u32 :: "u32 \<Rightarrow> dsm_node_state" where
  "node_state_of_u32 x =
     (if x = 0 then DSM_NODE_STATE_DISCOVERING else if x = 1 then DSM_NODE_STATE_CONNECTING
      else if x = 2 then DSM_NODE_STATE_CONNECTED else if x = 3 then DSM_NODE_STATE_READY
      else if x = 4 then DSM_NODE_STATE_DISCONNECTED else DSM_NODE_STATE_OTHER x)"

fun u32_of_node_state :: "dsm_node_state \<Rightarrow> u32" where
  "u32_of_node_state DSM_NODE_STATE_DISCOVERING = 0"
| "u32_of_node_state DSM_NODE_STATE_CONNECTING = 1"
| "u32_of_node_state DSM_NODE_STATE_CONNECTED = 2"
| "u32_of_node_state DSM_NODE_STATE_READY = 3"
| "u32_of_node_state DSM_NODE_STATE_DISCONNECTED = 4"
| "u32_of_node_state (DSM_NODE_STATE_OTHER x) = x"

datatype dsm_msg_type =
  DSM_MSG_DISCOVER | DSM_MSG_DISCOVER_REPLY | DSM_MSG_JOIN_REQUEST | DSM_MSG_JOIN_RESPONSE
| DSM_MSG_NODE_TABLE | DSM_MSG_NEW_NODE | DSM_MSG_NODE_LEFT
| DSM_MSG_PAGE_REQUEST | DSM_MSG_PAGE_DATA | DSM_MSG_PAGE_INVALIDATE | DSM_MSG_PAGE_ACK
| DSM_MSG_ALLOC_REQUEST | DSM_MSG_ALLOC_RESPONSE | DSM_MSG_FREE_REQUEST | DSM_MSG_FREE_RESPONSE
| DSM_MSG_LOCK_REQUEST | DSM_MSG_LOCK_GRANT | DSM_MSG_LOCK_RELEASE | DSM_MSG_LOCK_ACK
| DSM_MSG_BARRIER_ENTER | DSM_MSG_BARRIER_RELEASE
| DSM_MSG_HEARTBEAT | DSM_MSG_HEARTBEAT_ACK | DSM_MSG_SHUTDOWN | DSM_MSG_METADATA

fun msg_code :: "dsm_msg_type \<Rightarrow> u32" where
  "msg_code DSM_MSG_DISCOVER = 0x01"
| "msg_code DSM_MSG_DISCOVER_REPLY = 0x02"
| "msg_code DSM_MSG_JOIN_REQUEST = 0x03"
| "msg_code DSM_MSG_JOIN_RESPONSE = 0x04"
| "msg_code DSM_MSG_NODE_TABLE = 0x05"
| "msg_code DSM_MSG_NEW_NODE = 0x06"
| "msg_code DSM_MSG_NODE_LEFT = 0x07"
| "msg_code DSM_MSG_PAGE_REQUEST = 0x10"
| "msg_code DSM_MSG_PAGE_DATA = 0x11"
| "msg_code DSM_MSG_PAGE_INVALIDATE = 0x12"
| "msg_code DSM_MSG_PAGE_ACK = 0x13"
| "msg_code DSM_MSG_ALLOC_REQUEST = 0x20"
| "msg_code DSM_MSG_ALLOC_RESPONSE = 0x21"
| "msg_code DSM_MSG_FREE_REQUEST = 0x22"
| "msg_code DSM_MSG_FREE_RESPONSE = 0x23"
| "msg_code DSM_MSG_LOCK_REQUEST = 0x30"
| "msg_code DSM_MSG_LOCK_GRANT = 0x31"
| "msg_code DSM_MSG_LOCK_RELEASE = 0x32"
| "msg_code DSM_MSG_LOCK_ACK = 0x33"
| "msg_code DSM_MSG_BARRIER_ENTER = 0x34"
| "msg_code DSM_MSG_BARRIER_RELEASE = 0x35"
| "msg_code DSM_MSG_HEARTBEAT = 0x40"
| "msg_code DSM_MSG_HEARTBEAT_ACK = 0x41"
| "msg_code DSM_MSG_SHUTDOWN = 0x42"
| "msg_code DSM_MSG_METADATA = 0x43"

definition all_msg_types :: "dsm_msg_type list" where
  "all_msg_types =
     [DSM_MSG_DISCOVER, DSM_MSG_DISCOVER_REPLY, DSM_MSG_JOIN_REQUEST, DSM_MSG_JOIN_RESPONSE,
      DSM_MSG_NODE_TABLE, DSM_MSG_NEW_NODE, DSM_MSG_NODE_LEFT, DSM_MSG_PAGE_REQUEST,
      DSM_MSG_PAGE_DATA, DSM_MSG_PAGE_INVALIDATE, DSM_MSG_PAGE_ACK, DSM_MSG_ALLOC_REQUEST,
      DSM_MSG_ALLOC_RESPONSE, DSM_MSG_FREE_REQUEST, DSM_MSG_FREE_RESPONSE, DSM_MSG_LOCK_REQUEST,
      DSM_MSG_LOCK_GRANT, DSM_MSG_LOCK_RELEASE, DSM_MSG_LOCK_ACK, DSM_MSG_BARRIER_ENTER,
      DSM_MSG_BARRIER_RELEASE, DSM_MSG_HEARTBEAT, DSM_MSG_HEARTBEAT_ACK, DSM_MSG_SHUTDOWN,
      DSM_MSG_METADATA]"

text \<open>The \<^verbatim>\<open>switch (header->type)\<close>: which enumerator a received code is, if any.\<close>

definition msg_type_of :: "u32 \<Rightarrow> dsm_msg_type option" where
  "msg_type_of c = List.find (\<lambda>t. msg_code t = c) all_msg_types"

section \<open>Structures\<close>

record dsm_node =
  node_id :: u32
  role :: dsm_role
  nstate :: dsm_node_state
  ip :: "u8 list"
  port :: u16
  chunks :: u32
  tcp_fd :: int
  last_heartbeat :: int

record dsm_node_table =
  nodes :: "dsm_node list"
  node_count :: u32

record dsm_page =
  local_addr :: u64
  global_addr :: u64
  psize :: nat
  pstate :: dsm_page_state
  owner_id :: u32
  version :: u64
  dirty :: bool

record dsm_page_table =
  pages :: "dsm_page list"
  capacity :: nat

record dsm_region =
  region_ptr :: nat
  base_addr :: u64
  total_size :: u64
  page_count :: u64
  region_owner_id :: u32
  global_base :: u64

record dsm_lock =
  lock_id :: u32
  holder_id :: u32
  locked :: bool
  waiters :: "u32 list"
  waiter_count :: u32

record dsm_barrier =
  barrier_id :: u32
  total_nodes :: u32
  arrived_count :: u32
  arrived :: "u32 list"

text \<open>What \<^verbatim>\<open>calloc\<close> and \<^verbatim>\<open>memset\<close> leave in an array slot nobody has written yet.\<close>

definition zero_node :: dsm_node where
  "zero_node = \<lparr>node_id = 0, role = DSM_ROLE_UNKNOWN, nstate = DSM_NODE_STATE_DISCOVERING,
     ip = replicate DSM_MAX_IP_LEN 0, port = 0, chunks = 0, tcp_fd = 0, last_heartbeat = 0\<rparr>"

definition zero_lock :: dsm_lock where
  "zero_lock = \<lparr>lock_id = 0, holder_id = 0, locked = False,
     waiters = replicate DSM_MAX_NODES 0, waiter_count = 0\<rparr>"

definition zero_barrier :: dsm_barrier where
  "zero_barrier = \<lparr>barrier_id = 0, total_nodes = 0, arrived_count = 0,
     arrived = replicate DSM_MAX_NODES 0\<rparr>"

section \<open>Enumerators and their codes\<close>

lemma u32_role_roundtrip [simp]: "u32_of_role (role_of_u32 x) = x"
  by (simp add: role_of_u32_def)

lemma u32_node_state_roundtrip [simp]: "u32_of_node_state (node_state_of_u32 x) = x"
  by (simp add: node_state_of_u32_def)

text \<open>The named roles and states come back from their codes.\<close>

definition named_role :: "dsm_role \<Rightarrow> bool" where
  "named_role r \<longleftrightarrow> role_of_u32 (u32_of_role r) = r"

definition named_node_state :: "dsm_node_state \<Rightarrow> bool" where
  "named_node_state s \<longleftrightarrow> node_state_of_u32 (u32_of_node_state s) = s"

lemma named_role_simps [simp]:
  "named_role DSM_ROLE_UNKNOWN" "named_role DSM_ROLE_MASTER" "named_role DSM_ROLE_WORKER"
  "named_role (role_of_u32 x)"
  by (simp_all add: named_role_def) (simp_all add: role_of_u32_def)

lemma named_node_state_simps [simp]:
  "named_node_state DSM_NODE_STATE_DISCOVERING" "named_node_state DSM_NODE_STATE_CONNECTING"
  "named_node_state DSM_NODE_STATE_CONNECTED" "named_node_state DSM_NODE_STATE_READY"
  "named_node_state DSM_NODE_STATE_DISCONNECTED" "named_node_state (node_state_of_u32 x)"
  by (simp_all add: named_node_state_def) (simp_all add: node_state_of_u32_def)

lemma msg_type_of_code [simp]: "msg_type_of (msg_code t) = Some t"
  by (cases t) (simp_all add: msg_type_of_def all_msg_types_def)

lemma msg_type_of_SomeD: "msg_type_of c = Some t \<Longrightarrow> msg_code t = c"
  by (auto simp: msg_type_of_def find_Some_iff)

end
