(* ===== verification/DsmWire.thy ===== *)
theory DsmWire
  imports DsmTypes
begin

text \<open>
  The packed message structures of \<^verbatim>\<open>include/dsm_types.h\<close> as bytes: every integer little-endian,
  fields in order with no padding. A cast \<^verbatim>\<open>(T*)payload\<close> is the decoder \<open>get_\<dots>\<close> of \<open>T\<close> at the
  start of the buffer, a structure handed to the socket is its encoder \<open>put_\<dots>\<close>, and
  \<^verbatim>\<open>sizeof(T)\<close> is \<open>sizeof_\<dots>\<close>. The locale \<open>codec\<close> is the contract the senders and the message
  handler rely on.
\<close>

section \<open>The codec contract\<close>

locale codec =
  fixes put :: "'a \<Rightarrow> u8 list"
    and get :: "u8 list \<Rightarrow> 'a"
    and size_of :: nat
    and ok :: "'a \<Rightarrow> bool"
  assumes length_put: "ok x \<Longrightarrow> length (put x) = size_of"
    and get_put: "ok x \<Longrightarrow> get (put x @ rest) = x"
begin

lemma get_put_exact: "ok x \<Longrightarrow> get (put x) = x"
  using get_put [of x "[]"] by simp

lemma put_inj: "ok x \<Longrightarrow> ok y \<Longrightarrow> put x = put y \<Longrightarrow> x = y"
  by (metis get_put_exact)

lemma length_put_array:
  "\<forall>x \<in> set xs. ok x \<Longrightarrow> length (concat (map put xs)) = length xs * size_of"
  by (induction xs) (auto simp: length_put)

lemma drop_put_array:
  "\<forall>x \<in> set xs. ok x \<Longrightarrow>
   drop (i * size_of) (concat (map put xs) @ rest) = concat (map put (drop i xs)) @
     drop ((i - length xs) * size_of) rest"
proof (induction xs arbitrary: i)
  case Nil
  then show ?case by simp
next
  case (Cons x xs)
  show ?case
  proof (cases i)
    case 0
    then show ?thesis by simp
  next
    case (Suc j)
    then show ?thesis
      using Cons by (simp add: length_put)
  qed
qed

text \<open>Element \<open>i\<close> of a packed array is read at offset \<open>i * sizeof\<close>.\<close>

lemma get_put_array:
  assumes "\<forall>x \<in> set xs. ok x" "i < length xs"
  shows "get (drop (i * size_of) (concat (map put xs) @ rest)) = xs ! i"
proof -
  have "drop i xs = xs ! i # drop (Suc i) xs"
    using assms(2) by (simp add: Cons_nth_drop_Suc)
  then have "drop (i * size_of) (concat (map put xs) @ rest) =
      put (xs ! i) @ (concat (map put (drop (Suc i) xs)) @ drop ((i - length xs) * size_of) rest)"
    using drop_put_array [OF assms(1), of i rest] by (simp del: drop_append)
  then show ?thesis
    using assms by (simp add: get_put)
qed

lemma get_all_put_array:
  assumes "\<forall>x \<in> set xs. ok x"
  shows "map (\<lambda>i. get (drop (i * size_of) (concat (map put xs) @ rest))) [0..<length xs] = xs"
  using assms by (intro nth_equalityI) (auto simp: get_put_array simp del: drop_append)

end

section \<open>Integers\<close>

definition put16 :: "u16 \<Rightarrow> u8 list" where "put16 x = enc_le 2 (unat x)"
definition put32 :: "u32 \<Rightarrow> u8 list" where "put32 x = enc_le 4 (unat x)"
definition put64 :: "u64 \<Rightarrow> u8 list" where "put64 x = enc_le 8 (unat x)"
definition get16 :: "u8 list \<Rightarrow> u16" where "get16 bs = word_of_nat (dec_le (take 2 bs))"
definition get32 :: "u8 list \<Rightarrow> u32" where "get32 bs = word_of_nat (dec_le (take 4 bs))"
definition get64 :: "u8 list \<Rightarrow> u64" where "get64 bs = word_of_nat (dec_le (take 8 bs))"

lemma length_put_int [simp]:
  "length (put16 a) = 2" "length (put32 b) = 4" "length (put64 c) = 8"
  by (simp_all add: put16_def put32_def put64_def)

lemma get_put_int [simp]:
  "get16 (put16 a @ rest) = a" "get32 (put32 b @ rest) = b" "get64 (put64 c @ rest) = c"
proof -
  have "unat a < 256 ^ 2" "unat b < 256 ^ 4" "unat c < 256 ^ 8"
    using unsigned_less [of a] unsigned_less [of b] unsigned_less [of c] by simp_all
  then show "get16 (put16 a @ rest) = a" "get32 (put32 b @ rest) = b" "get64 (put64 c @ rest) = c"
    by (simp_all add: put16_def put32_def put64_def get16_def get32_def get64_def dec_enc_le_id)
qed

lemma get_put_int_exact [simp]:
  "get16 (put16 a) = a" "get32 (put32 b) = b" "get64 (put64 c) = c"
  using get_put_int [where rest = "[]"] by simp_all

interpretation le16: codec put16 get16 2 "\<lambda>_. True"
  by unfold_locales simp_all

interpretation le32: codec put32 get32 4 "\<lambda>_. True"
  by unfold_locales simp_all

interpretation le64: codec put64 get64 8 "\<lambda>_. True"
  by unfold_locales simp_all

section \<open>Message header\<close>

record dsm_msg_header =
  magic :: u32
  msg_type :: u32
  src_node :: u32
  dst_node :: u32
  hdr_seq_num :: u32
  payload_len :: u32

abbreviation (input) sizeof_header :: nat where "sizeof_header \<equiv> 24"

definition put_header :: "dsm_msg_header \<Rightarrow> u8 list" where
  "put_header h = put32 (magic h) @ put32 (msg_type h) @ put32 (src_node h) @ put32 (dst_node h)
     @ put32 (hdr_seq_num h) @ put32 (payload_len h)"

definition get_header :: "u8 list \<Rightarrow> dsm_msg_header" where
  "get_header bs = \<lparr>magic = get32 bs, msg_type = get32 (drop 4 bs), src_node = get32 (drop 8 bs),
     dst_node = get32 (drop 12 bs), hdr_seq_num = get32 (drop 16 bs),
     payload_len = get32 (drop 20 bs)\<rparr>"

lemma length_put_header [simp]: "length (put_header h) = sizeof_header"
  by (simp add: put_header_def)

interpretation header_codec: codec put_header get_header sizeof_header "\<lambda>_. True"
proof (unfold_locales, goal_cases)
  case (1 h)
  show ?case by simp
next
  case (2 h rest)
  show ?case
    by (cases h) (simp add: put_header_def get_header_def)
qed

section \<open>Payloads\<close>

record dsm_msg_node_info =
  ni_node_id :: u32
  ni_ip :: "u8 list"
  ni_port :: u16
  ni_chunks :: u32
  ni_role :: u32
  ni_state :: u32

abbreviation (input) sizeof_node_info :: nat where "sizeof_node_info \<equiv> 34"
abbreviation (input) sizeof_node_table :: nat where "sizeof_node_table \<equiv> 4"

definition put_node_info :: "dsm_msg_node_info \<Rightarrow> u8 list" where
  "put_node_info i = put32 (ni_node_id i) @ ni_ip i @ put16 (ni_port i) @ put32 (ni_chunks i)
     @ put32 (ni_role i) @ put32 (ni_state i)"

definition get_node_info :: "u8 list \<Rightarrow> dsm_msg_node_info" where
  "get_node_info bs = \<lparr>ni_node_id = get32 bs, ni_ip = take DSM_MAX_IP_LEN (drop 4 bs),
     ni_port = get16 (drop 20 bs), ni_chunks = get32 (drop 22 bs), ni_role = get32 (drop 26 bs),
     ni_state = get32 (drop 30 bs)\<rparr>"

definition node_info_ok :: "dsm_msg_node_info \<Rightarrow> bool" where
  "node_info_ok i \<longleftrightarrow> length (ni_ip i) = DSM_MAX_IP_LEN"

interpretation node_info_codec: codec put_node_info get_node_info sizeof_node_info node_info_ok
proof (unfold_locales, goal_cases)
  case (1 i)
  then show ?case by (simp add: put_node_info_def node_info_ok_def)
next
  case (2 i rest)
  then show ?case
    by (cases i) (simp add: put_node_info_def get_node_info_def node_info_ok_def)
qed

record dsm_msg_page_request =
  pr_global_addr :: u64
  pr_access_type :: u32

abbreviation (input) sizeof_page_request :: nat where "sizeof_page_request \<equiv> 12"

definition put_page_request :: "dsm_msg_page_request \<Rightarrow> u8 list" where
  "put_page_request r = put64 (pr_global_addr r) @ put32 (pr_access_type r)"

definition get_page_request :: "u8 list \<Rightarrow> dsm_msg_page_request" where
  "get_page_request bs = \<lparr>pr_global_addr = get64 bs, pr_access_type = get32 (drop 8 bs)\<rparr>"

interpretation page_request_codec:
  codec put_page_request get_page_request sizeof_page_request "\<lambda>_. True"
proof (unfold_locales, goal_cases)
  case (1 r)
  show ?case by (simp add: put_page_request_def)
next
  case (2 r rest)
  show ?case by (cases r) (simp add: put_page_request_def get_page_request_def)
qed

text \<open>The fixed part of a page data message; the flexible array \<^verbatim>\<open>data[]\<close> follows it.\<close>

record dsm_msg_page_data =
  pd_global_addr :: u64
  pd_size :: u32
  pd_version :: u64

abbreviation (input) sizeof_page_data :: nat where "sizeof_page_data \<equiv> 20"

definition put_page_data :: "dsm_msg_page_data \<Rightarrow> u8 list" where
  "put_page_data d = put64 (pd_global_addr d) @ put32 (pd_size d) @ put64 (pd_version d)"

definition get_page_data :: "u8 list \<Rightarrow> dsm_msg_page_data" where
  "get_page_data bs = \<lparr>pd_global_addr = get64 bs, pd_size = get32 (drop 8 bs),
     pd_version = get64 (drop 12 bs)\<rparr>"

interpretation page_data_codec: codec put_page_data get_page_data sizeof_page_data "\<lambda>_. True"
proof (unfold_locales, goal_cases)
  case (1 r)
  show ?case by (simp add: put_page_data_def)
next
  case (2 r rest)
  show ?case by (cases r) (simp add: put_page_data_def get_page_data_def)
qed

record dsm_msg_alloc_request =
  ar_size :: u64
  ar_request_id :: u32

abbreviation (input) sizeof_alloc_request :: nat where "sizeof_alloc_request \<equiv> 12"

definition put_alloc_request :: "dsm_msg_alloc_request \<Rightarrow> u8 list" where
  "put_alloc_request r = put64 (ar_size r) @ put32 (ar_request_id r)"

definition get_alloc_request :: "u8 list \<Rightarrow> dsm_msg_alloc_request" where
  "get_alloc_request bs = \<lparr>ar_size = get64 bs, ar_request_id = get32 (drop 8 bs)\<rparr>"

interpretation alloc_request_codec:
  codec put_alloc_request get_alloc_request sizeof_alloc_request "\<lambda>_. True"
proof (unfold_locales, goal_cases)
  case (1 r)
  show ?case by (simp add: put_alloc_request_def)
next
  case (2 r rest)
  show ?case by (cases r) (simp add: put_alloc_request_def get_alloc_request_def)
qed

record dsm_msg_alloc_response =
  as_global_addr :: u64
  as_size :: u64
  as_owner_id :: u32
  as_request_id :: u32

abbreviation (input) sizeof_alloc_response :: nat where "sizeof_alloc_response \<equiv> 24"

definition put_alloc_response :: "dsm_msg_alloc_response \<Rightarrow> u8 list" where
  "put_alloc_response r = put64 (as_global_addr r) @ put64 (as_size r) @ put32 (as_owner_id r)
     @ put32 (as_request_id r)"

definition get_alloc_response :: "u8 list \<Rightarrow> dsm_msg_alloc_response" where
  "get_alloc_response bs = \<lparr>as_global_addr = get64 bs, as_size = get64 (drop 8 bs),
     as_owner_id = get32 (drop 16 bs), as_request_id = get32 (drop 20 bs)\<rparr>"

interpretation alloc_response_codec:
  codec put_alloc_response get_alloc_response sizeof_alloc_response "\<lambda>_. True"
proof (unfold_locales, goal_cases)
  case (1 r)
  show ?case by (simp add: put_alloc_response_def)
next
  case (2 r rest)
  show ?case by (cases r) (simp add: put_alloc_response_def get_alloc_response_def)
qed

text \<open>\<^verbatim>\<open>dsm_msg_lock_t\<close> and the node id of a join response are one \<^verbatim>\<open>uint32_t\<close>.\<close>

abbreviation (input) sizeof_lock :: nat where "sizeof_lock \<equiv> 4"

end
