(* ===== verification/DsmWorld.thy ===== *)
theory DsmWorld
  imports DsmWire
begin

unbundle bit_operations_syntax

text \<open>
  The state the library runs on: the global context of \<^verbatim>\<open>include/dsm_internal.h\<close>, the static
  variables of the \<^verbatim>\<open>.c\<close> files, and the part of the operating system they use. What the system
  decides is data of the state: \<open>res_script\<close> lists the outcomes of the next calls that may fail
  (\<^verbatim>\<open>malloc\<close>, \<^verbatim>\<open>pthread_mutex_init\<close>, \<^verbatim>\<open>mprotect\<close> and so on), \<open>fd_script\<close> the descriptors the next
  calls that open one return, \<open>send_script\<close> what the next \<^verbatim>\<open>send\<close> calls on a socket do. A script
  that is used up stands for a system that grants everything (for \<open>fd_script\<close>: nothing). \<open>sent\<close> is what was
  put on each connection, \<open>datagrams\<close> what was sent by UDP: to the address written in a string, or
  to all (\<open>None\<close>); \<open>connects\<close> lists the sockets that were connected, with the address and port they reached.
\<close>

section \<open>The global context\<close>

record dsm_context =
  local_node_id :: u32
  local_role :: dsm_role
  local_ip :: "u8 list"
  local_port :: u16
  local_chunks :: u32
  udp_fd :: int
  udp_running :: bool
  tcp_listen_fd :: int
  epoll_fd :: int
  tcp_running :: bool
  master_fd :: int
  master_id :: u32
  node_table :: "dsm_node_table option"
  local_region :: "nat option"
  regions :: "dsm_region list"
  page_table :: "dsm_page_table option"
  system_page_size :: nat
  next_global_addr :: u64
  fault_eventfd :: int
  fault_running :: bool
  pending_fault_addr :: u64
  fault_handled :: bool
  locks :: "dsm_lock list"
  barrier :: dsm_barrier
  barrier_count :: u32
  seq_num :: u32
  running :: bool
  initialized :: bool
  master_found :: bool
  master_ip :: "u8 list"
  master_port :: u16

text \<open>One entry of the hash table of allocations (\<^verbatim>\<open>ownership_entry_t\<close>).\<close>

record ownership_entry =
  oe_global_addr :: u64
  oe_size :: u64
  oe_owner_id :: u32

section \<open>The system\<close>

datatype vmprot = Unmapped | ProtNone | ProtRead | ProtRW

datatype send_result = Sent nat | SendAgain | SendError

datatype wakeup = SignalLock nat | BroadcastBarrier | BroadcastFault | SignalDiscovery

record world =
  ctx :: dsm_context
  g_ownership_table :: "nat \<Rightarrow> ownership_entry list"
  dsm_current_log_level :: int
  g_udp_socket :: int
  g_udp_running :: bool
  g_tcp_listen_fd :: int
  g_epoll_fd :: int
  g_tcp_running :: bool
  g_fault_running :: bool
  g_in_handler :: bool
  res_script :: "bool list"
  fd_script :: "int list"
  send_script :: "int \<Rightarrow> send_result list"
  sent :: "int \<Rightarrow> u8 list"
  datagrams :: "(u8 list option \<times> u8 list) list"
  connects :: "(int \<times> u8 list \<times> u16) list"
  closed_fds :: "int list"
  vm :: "u64 \<Rightarrow> vmprot"
  mem :: "u64 \<Rightarrow> u8"
  now :: int
  wakes :: "wakeup list"
  next_region_ptr :: nat

text \<open>A call that may fail, and one that returns a descriptor.\<close>

definition sys_call :: "world \<Rightarrow> bool \<times> world" where
  "sys_call w = (case res_script w of [] \<Rightarrow> (True, w) | b # bs \<Rightarrow> (b, w\<lparr>res_script := bs\<rparr>))"

text \<open>A run of calls, abandoned at the first that fails.\<close>

fun sys_calls :: "nat \<Rightarrow> world \<Rightarrow> bool \<times> world" where
  "sys_calls 0 w = (True, w)"
| "sys_calls (Suc n) w =
     (case sys_call w of (ok, w') \<Rightarrow> if ok then sys_calls n w' else (False, w'))"

definition sys_fd :: "world \<Rightarrow> int \<times> world" where
  "sys_fd w = (case fd_script w of [] \<Rightarrow> (-1, w) | f # fs \<Rightarrow> (f, w\<lparr>fd_script := fs\<rparr>))"

definition close_fd :: "int \<Rightarrow> world \<Rightarrow> world" where
  "close_fd f w = w\<lparr>closed_fds := f # closed_fds w\<rparr>"

definition wake :: "wakeup \<Rightarrow> world \<Rightarrow> world" where
  "wake e w = w\<lparr>wakes := wakes w @ [e]\<rparr>"

section \<open>Virtual memory\<close>

text \<open>\<^verbatim>\<open>addr & ~(DSM_PAGE_SIZE - 1)\<close>: the mask is sign-extended to 64 bits.\<close>

definition page_base :: "u64 \<Rightarrow> u64" where
  "page_base a = a AND NOT 4095"

definition pages_spanned :: "u64 \<Rightarrow> nat \<Rightarrow> u64 list" where
  "pages_spanned a n =
     (if n = 0 then []
      else map (\<lambda>k. page_base a + word_of_nat (k * DSM_PAGE_SIZE))
             [0..<(unat (a AND 4095) + n + 4095) div DSM_PAGE_SIZE])"

definition set_prot :: "u64 \<Rightarrow> nat \<Rightarrow> vmprot \<Rightarrow> world \<Rightarrow> world" where
  "set_prot a n p w =
     (let ps = pages_spanned a n in w\<lparr>vm := (\<lambda>x. if x \<in> set ps then p else vm w x)\<rparr>)"

text \<open>
  \<^verbatim>\<open>mprotect\<close> fails when the system says so, and (\<^verbatim>\<open>ENOMEM\<close>) when a page of the range is not mapped.
\<close>

definition mprotect :: "u64 \<Rightarrow> nat \<Rightarrow> vmprot \<Rightarrow> world \<Rightarrow> bool \<times> world" where
  "mprotect a n p w =
     (case sys_call w of (ok, w') \<Rightarrow>
        if ok \<and> list_all (\<lambda>x. vm w' x \<noteq> Unmapped) (pages_spanned a n)
        then (True, set_prot a n p w') else (False, w'))"

definition munmap :: "u64 \<Rightarrow> nat \<Rightarrow> world \<Rightarrow> world" where
  "munmap a n w = set_prot a n Unmapped w"

definition mem_set :: "u64 \<Rightarrow> u8 list \<Rightarrow> (u64 \<Rightarrow> u8) \<Rightarrow> u64 \<Rightarrow> u8" where
  "mem_set a bs m = (\<lambda>x. let d = unat (x - a) in if d < length bs then bs ! d else m x)"

text \<open>A fresh anonymous mapping is zero-filled and, in this code, mapped \<^verbatim>\<open>PROT_NONE\<close>.\<close>

definition mmap_none :: "u64 \<Rightarrow> nat \<Rightarrow> world \<Rightarrow> world" where
  "mmap_none a n w =
     set_prot a n ProtNone (w\<lparr>mem := (\<lambda>x. if unat (x - a) < n then 0 else mem w x)\<rparr>)"

definition writable :: "u64 \<Rightarrow> nat \<Rightarrow> world \<Rightarrow> bool" where
  "writable a n w \<longleftrightarrow> list_all (\<lambda>x. vm w x = ProtRW) (pages_spanned a n)"

definition readable :: "u64 \<Rightarrow> nat \<Rightarrow> world \<Rightarrow> bool" where
  "readable a n w \<longleftrightarrow> list_all (\<lambda>x. vm w x = ProtRW \<or> vm w x = ProtRead) (pages_spanned a n)"

text \<open>\<^verbatim>\<open>memcpy\<close> into mapped memory; touching a page without write permission kills the thread.\<close>

definition memcpy_in :: "u64 \<Rightarrow> u8 list \<Rightarrow> world \<Rightarrow> crash + world" where
  "memcpy_in a bs w =
     (if writable a (length bs) w then Inr (w\<lparr>mem := mem_set a bs (mem w)\<rparr>) else Inl SegFault)"

definition memset_zero :: "u64 \<Rightarrow> nat \<Rightarrow> world \<Rightarrow> crash + world" where
  "memset_zero a n w =
     (if writable a n w
      then Inr (w\<lparr>mem := (\<lambda>x. if unat (x - a) < n then 0 else mem w x)\<rparr>) else Inl SegFault)"

definition memcpy_out :: "u64 \<Rightarrow> nat \<Rightarrow> world \<Rightarrow> crash + u8 list" where
  "memcpy_out a n w =
     (if readable a n w then Inr (map (\<lambda>i. mem w (a + word_of_nat i)) [0..<n]) else Inl SegFault)"

section \<open>What the system calls leave alone\<close>

lemma sys_call_snd [simp, frame_simps]:
  "ctx (snd (sys_call w)) = ctx w"
  "sent (snd (sys_call w)) = sent w"
  "vm (snd (sys_call w)) = vm w"
  "mem (snd (sys_call w)) = mem w"
  "wakes (snd (sys_call w)) = wakes w"
  "g_ownership_table (snd (sys_call w)) = g_ownership_table w"
  "now (snd (sys_call w)) = now w"
  "next_region_ptr (snd (sys_call w)) = next_region_ptr w"
  by (auto simp: sys_call_def split: list.splits)

lemma sys_callD:
  assumes "sys_call w = (b, w')"
  shows "ctx w' = ctx w" "sent w' = sent w" "vm w' = vm w" "mem w' = mem w" "wakes w' = wakes w"
    "g_ownership_table w' = g_ownership_table w" "now w' = now w"
    "next_region_ptr w' = next_region_ptr w"
  using sys_call_snd [of w] assms by simp_all

lemma sys_call_ok: "res_script w = [] \<Longrightarrow> sys_call w = (True, w)"
  by (simp add: sys_call_def)

lemma wake_frame [simp, frame_simps]:
  "ctx (wake e w) = ctx w" "sent (wake e w) = sent w" "vm (wake e w) = vm w"
  "mem (wake e w) = mem w" "wakes (wake e w) = wakes w @ [e]"
  "g_ownership_table (wake e w) = g_ownership_table w"
  by (simp_all add: wake_def)

lemma set_prot_frame [simp, frame_simps]:
  "ctx (set_prot a n p w) = ctx w" "mem (set_prot a n p w) = mem w"
  "sent (set_prot a n p w) = sent w" "wakes (set_prot a n p w) = wakes w"
  "g_ownership_table (set_prot a n p w) = g_ownership_table w"
  "res_script (set_prot a n p w) = res_script w"
  "next_region_ptr (set_prot a n p w) = next_region_ptr w"
  by (simp_all add: set_prot_def Let_def)

lemma set_prot_vm: "vm (set_prot a n p w) x = (if x \<in> set (pages_spanned a n) then p else vm w x)"
  by (simp add: set_prot_def Let_def)

lemma mprotect_frame [simp, frame_simps]:
  "ctx (snd (mprotect a n p w)) = ctx w"
  "mem (snd (mprotect a n p w)) = mem w"
  "sent (snd (mprotect a n p w)) = sent w"
  "wakes (snd (mprotect a n p w)) = wakes w"
  "g_ownership_table (snd (mprotect a n p w)) = g_ownership_table w"
  "next_region_ptr (snd (mprotect a n p w)) = next_region_ptr w"
  by (simp_all add: mprotect_def case_prod_beta)

lemma mprotect_True:
  "mprotect a n p w = (True, w') \<Longrightarrow>
     vm w' x = (if x \<in> set (pages_spanned a n) then p else vm w x)"
  by (auto simp: mprotect_def set_prot_vm case_prod_beta split: if_splits)

lemma mprotect_False: "mprotect a n p w = (False, w') \<Longrightarrow> vm w' = vm w"
  by (auto simp: mprotect_def case_prod_beta split: if_splits)

section \<open>Page arithmetic\<close>

lemma page_base_idem [simp]: "page_base (page_base a) = page_base a"
  by (simp add: page_base_def and.assoc)

lemma page_base_split: "page_base a + (a AND 4095) = a"
proof -
  have "page_base a AND (a AND 4095) = 0"
    by (rule bit_eqI) (auto simp: page_base_def bit_simps)
  then have "page_base a + (a AND 4095) = page_base a OR (a AND 4095)"
    by (rule disjunctive_add_eq_or)
  also have "\<dots> = a"
    by (rule bit_eqI) (auto simp: page_base_def bit_simps)
  finally show ?thesis .
qed

lemma unat_page_offset: "unat ((a :: u64) AND 4095) = unat a mod 4096"
proof -
  have "a AND 4095 = take_bit 12 a"
    by (simp add: take_bit_eq_mask mask_eq_exp_minus_1)
  then show ?thesis
    by (simp add: take_bit_eq_mod unat_mod)
qed

lemma page_offset_bound: "unat ((a :: u64) AND 4095) < 4096"
  by (simp add: unat_page_offset)

lemma page_base_aligned: "a AND 4095 = 0 \<Longrightarrow> page_base a = a"
  using page_base_split [of a] by simp

lemma page_base_offset_zero [simp]: "page_base a AND 4095 = 0"
  by (rule bit_eqI) (auto simp: page_base_def bit_simps)

lemma unat_page_base: "unat (page_base a) = unat a - unat a mod 4096"
proof -
  have "page_base a = a - (a AND 4095)"
    using page_base_split [of a] by (metis add_diff_cancel_right')
  moreover have "a AND 4095 \<le> a"
    by (simp add: word_and_le2)
  ultimately show ?thesis
    by (simp add: unat_sub unat_page_offset)
qed

lemma pages_spanned_page:
  "a AND 4095 = 0 \<Longrightarrow> pages_spanned a DSM_PAGE_SIZE = [a]"
  by (simp add: pages_spanned_def page_base_aligned)

end
