(* ===== verification/DsmContext.thy ===== *)
theory DsmContext
  imports DsmWorld
begin

text \<open>
  The global context of \<^verbatim>\<open>src/dsm_init.c\<close>: its initialisation and destruction, sequence numbers,
  message headers and the status functions that read the context alone.
\<close>

section \<open>Initialisation\<close>

text \<open>The context after \<^verbatim>\<open>memset(&g_dsm_ctx, 0, sizeof(g_dsm_ctx))\<close>.\<close>

definition zero_context :: dsm_context where
  "zero_context =
     \<lparr>local_node_id = 0, local_role = DSM_ROLE_UNKNOWN, local_ip = replicate DSM_MAX_IP_LEN 0,
      local_port = 0, local_chunks = 0, udp_fd = 0, udp_running = False, tcp_listen_fd = 0, epoll_fd = 0,
      tcp_running = False, master_fd = 0, master_id = 0, node_table = None, local_region = None, regions = [], page_table = None,
      system_page_size = 0, next_global_addr = 0, fault_eventfd = 0, fault_running = False,
      pending_fault_addr = 0, fault_handled = False, locks = replicate DSM_MAX_LOCKS zero_lock,
      barrier = zero_barrier, barrier_count = 0, seq_num = 0, running = False, initialized = False,
      master_found = False, master_ip = replicate DSM_MAX_IP_LEN 0, master_port = 0\<rparr>"

definition fresh_context :: dsm_context where
  "fresh_context = zero_context
     \<lparr>local_node_id := 0, local_role := DSM_ROLE_UNKNOWN, udp_fd := -1, tcp_listen_fd := -1,
      epoll_fd := -1, master_fd := -1, fault_eventfd := -1, system_page_size := DSM_PAGE_SIZE,
      next_global_addr := 0x1000000\<rparr>"

text \<open>
  The process before \<^verbatim>\<open>dsm_init\<close>: the static variables as their declarations initialise them, no
  memory mapped, nothing sent, every script empty.
\<close>

definition boot_world :: world where
  "boot_world =
     \<lparr>ctx = zero_context, g_ownership_table = (\<lambda>_. []), dsm_current_log_level = 1,
      g_udp_socket = -1, g_udp_running = False, g_tcp_listen_fd = -1, g_epoll_fd = -1,
      g_tcp_running = False, g_fault_running = False, g_in_handler = False, res_script = [],
      fd_script = [], send_script = (\<lambda>_. []), sent = (\<lambda>_. []), datagrams = [], connects = [], closed_fds = [],
      vm = (\<lambda>_. Unmapped), mem = (\<lambda>_. 0), now = 0, wakes = [], next_region_ptr = 0\<rparr>"

text \<open>Six mutexes and condition variables, then the eventfd.\<close>

definition dsm_context_init :: "world \<Rightarrow> int \<times> world" where
  "dsm_context_init w =
     (let (ok, w) = sys_calls 6 (w\<lparr>ctx := fresh_context\<rparr>) in
      if \<not> ok then (-1, w)
      else let (efd, w) = sys_fd w;
               w = w\<lparr>ctx := (ctx w)\<lparr>fault_eventfd := efd\<rparr>\<rparr> in
           if efd < 0 then (-1, w)
           else (0, w\<lparr>ctx := (ctx w)\<lparr>running := True, initialized := False\<rparr>\<rparr>))"

definition dsm_context_destroy :: "world \<Rightarrow> world" where
  "dsm_context_destroy w =
     (let w = w\<lparr>ctx := (ctx w)\<lparr>running := False\<rparr>\<rparr> in
      if 0 \<le> fault_eventfd (ctx w)
      then (close_fd (fault_eventfd (ctx w)) w)\<lparr>ctx := (ctx w)\<lparr>fault_eventfd := -1\<rparr>\<rparr>
      else w)"

section \<open>Headers\<close>

definition dsm_get_next_seq :: "world \<Rightarrow> u32 \<times> world" where
  "dsm_get_next_seq w = (seq_num (ctx w), w\<lparr>ctx := (ctx w)\<lparr>seq_num := seq_num (ctx w) + 1\<rparr>\<rparr>)"

definition dsm_create_header :: "dsm_msg_type \<Rightarrow> u32 \<Rightarrow> nat \<Rightarrow> world \<Rightarrow> dsm_msg_header \<times> world" where
  "dsm_create_header t dst len w =
     (let (seq, w') = dsm_get_next_seq w in
      (\<lparr>magic = DSM_MAGIC, msg_type = msg_code t, src_node = local_node_id (ctx w), dst_node = dst,
        hdr_seq_num = seq, payload_len = word_of_nat len\<rparr>, w'))"

section \<open>Status\<close>

definition dsm_is_master :: "world \<Rightarrow> int" where
  "dsm_is_master w = (if local_role (ctx w) = DSM_ROLE_MASTER then 1 else 0)"

definition dsm_get_node_id :: "world \<Rightarrow> u32" where
  "dsm_get_node_id w = local_node_id (ctx w)"

definition dsm_set_log_level :: "int \<Rightarrow> world \<Rightarrow> world" where
  "dsm_set_log_level l w = (if 0 \<le> l \<and> l \<le> 3 then w\<lparr>dsm_current_log_level := l\<rparr> else w)"

text \<open>Whether a line of a level is printed; the text itself is not modelled.\<close>

definition log_enabled :: "dsm_log_level \<Rightarrow> world \<Rightarrow> bool" where
  "log_enabled l w \<longleftrightarrow> dsm_current_log_level w \<le> log_level_code l"

section \<open>Facts\<close>

text \<open>What a header carries, and that making one only advances the sequence number.\<close>

lemma header_fields [simp]:
  "magic (fst (dsm_create_header t d n w)) = DSM_MAGIC"
  "msg_type (fst (dsm_create_header t d n w)) = msg_code t"
  "src_node (fst (dsm_create_header t d n w)) = local_node_id (ctx w)"
  "dst_node (fst (dsm_create_header t d n w)) = d"
  "hdr_seq_num (fst (dsm_create_header t d n w)) = seq_num (ctx w)"
  "payload_len (fst (dsm_create_header t d n w)) = word_of_nat n"
  by (simp_all add: dsm_create_header_def dsm_get_next_seq_def)

lemma create_header_frame [simp, frame_simps]:
  "ctx (snd (dsm_create_header t d n w)) = (ctx w)\<lparr>seq_num := seq_num (ctx w) + 1\<rparr>"
  "sent (snd (dsm_create_header t d n w)) = sent w"
  "vm (snd (dsm_create_header t d n w)) = vm w"
  "mem (snd (dsm_create_header t d n w)) = mem w"
  "wakes (snd (dsm_create_header t d n w)) = wakes w"
  "g_ownership_table (snd (dsm_create_header t d n w)) = g_ownership_table w"
  "send_script (snd (dsm_create_header t d n w)) = send_script w"
  "res_script (snd (dsm_create_header t d n w)) = res_script w"
  by (simp_all add: dsm_create_header_def dsm_get_next_seq_def)

text \<open>A level that has been set lets through the lines of its level and of those above, and no others.\<close>

lemma set_log_level_enables: "log_enabled l (dsm_set_log_level (log_level_code m) w) \<longleftrightarrow> m \<le> l"
  by (simp add: log_enabled_def dsm_set_log_level_def less_eq_dsm_log_level_def)

lemma set_log_level_refuses: "l < 0 \<or> 3 < l \<Longrightarrow> dsm_set_log_level l w = w"
  by (auto simp: dsm_set_log_level_def)

text \<open>Headers survive the wire.\<close>

lemma header_wire_roundtrip:
  "get_header (put_header h @ rest) = h"
  by (rule header_codec.get_put) simp

end
