(* ===== verification/DsmNodeTable.thy ===== *)
theory DsmNodeTable
  imports DsmContext
begin

text \<open>
  The node table of \<^verbatim>\<open>src/dsm_network.c\<close>: a fixed array of 64 nodes with a count, its operations,
  and its serialised form. The abstraction \<open>live_nodes\<close> is the list of the nodes in use.
\<close>

section \<open>Operations\<close>

definition put_table :: "dsm_node_table \<Rightarrow> world \<Rightarrow> world" where
  "put_table t w = w\<lparr>ctx := (ctx w)\<lparr>node_table := Some t\<rparr>\<rparr>"

definition dsm_node_table_init :: "world \<Rightarrow> int \<times> world" where
  "dsm_node_table_init w =
     (let (ok, w) = sys_call w in
      if \<not> ok then (-1, w\<lparr>ctx := (ctx w)\<lparr>node_table := None\<rparr>\<rparr>)
      else let (ok, w) = sys_call w in
           if \<not> ok then (-1, w\<lparr>ctx := (ctx w)\<lparr>node_table := None\<rparr>\<rparr>)
           else (0, put_table \<lparr>nodes = replicate DSM_MAX_NODES zero_node, node_count = 0\<rparr> w))"

definition dsm_node_table_destroy :: "world \<Rightarrow> world" where
  "dsm_node_table_destroy w =
     (if node_table (ctx w) = None then w else w\<lparr>ctx := (ctx w)\<lparr>node_table := None\<rparr>\<rparr>)"

text \<open>\<^verbatim>\<open>strcmp(node->ip, ip) == 0 && node->port == port\<close>\<close>

definition same_endpoint :: "u8 list \<Rightarrow> u16 \<Rightarrow> dsm_node \<Rightarrow> bool" where
  "same_endpoint a p n \<longleftrightarrow> cstr (ip n) = cstr a \<and> port n = p"

text \<open>\<^verbatim>\<open>strncpy(field, src, sizeof(field) - 1); field[sizeof(field) - 1] = 0;\<close>\<close>

definition set_ip :: "u8 list \<Rightarrow> u8 list \<Rightarrow> u8 list" where
  "set_ip field src = (strncpy (DSM_MAX_IP_LEN - 1) field src)[DSM_MAX_IP_LEN - 1 := 0]"

definition dsm_node_table_add ::
  "u8 list \<Rightarrow> u16 \<Rightarrow> u32 \<Rightarrow> dsm_role \<Rightarrow> int \<Rightarrow> world \<Rightarrow> int \<times> world" where
  "dsm_node_table_add a p c r sockfd w =
     (case node_table (ctx w) of
        None \<Rightarrow> (-1, w)
      | Some t \<Rightarrow>
          (case first_index (same_endpoint a p) (nodes t) 0 (unat (node_count t)) of
             Some i \<Rightarrow>
               (let n = nodes t ! i;
                    n' = n\<lparr>tcp_fd := sockfd, nstate := DSM_NODE_STATE_CONNECTED,
                           last_heartbeat := now w\<rparr>
                in (sint (node_id n'), put_table (t\<lparr>nodes := (nodes t)[i := n']\<rparr>) w))
           | None \<Rightarrow>
               if DSM_MAX_NODES \<le> unat (node_count t) then (-1, w)
               else
                 (let idx = unat (node_count t);
                      n = (nodes t ! idx)
                        \<lparr>node_id := (if r = DSM_ROLE_MASTER then 1 else node_count t + 1),
                         role := r,
                         nstate := (if 0 \<le> sockfd then DSM_NODE_STATE_CONNECTED
                                    else DSM_NODE_STATE_DISCOVERING),
                         ip := set_ip (ip (nodes t ! idx)) a,
                         port := p, chunks := c, tcp_fd := sockfd, last_heartbeat := now w\<rparr>;
                      w = put_table (t\<lparr>nodes := (nodes t)[idx := n]\<rparr>) w;
                      (ok, w) = sys_call w
                  in if \<not> ok then (-1, w)
                     else (sint (node_id n),
                           put_table \<lparr>nodes = (nodes t)[idx := n],
                                      node_count = node_count t + 1\<rparr> w))))"

definition dsm_node_table_remove :: "u32 \<Rightarrow> world \<Rightarrow> int \<times> world" where
  "dsm_node_table_remove nid w =
     (case node_table (ctx w) of
        None \<Rightarrow> (-1, w)
      | Some t \<Rightarrow>
          (case first_index (\<lambda>n. node_id n = nid) (nodes t) 0 (unat (node_count t)) of
             None \<Rightarrow> (-1, w)
           | Some found \<Rightarrow>
               (0, put_table \<lparr>nodes = shift_down (nodes t) found (unat (node_count t)),
                              node_count = node_count t - 1\<rparr> w)))"

text \<open>The pointer \<^verbatim>\<open>dsm_node_table_get\<close> returns is the index of the array slot.\<close>

definition dsm_node_table_get :: "u32 \<Rightarrow> world \<Rightarrow> nat option" where
  "dsm_node_table_get nid w =
     (case node_table (ctx w) of
        None \<Rightarrow> None
      | Some t \<Rightarrow> first_index (\<lambda>n. node_id n = nid) (nodes t) 0 (unat (node_count t)))"

definition dsm_node_table_find :: "u8 list \<Rightarrow> u16 \<Rightarrow> world \<Rightarrow> nat option" where
  "dsm_node_table_find a p w =
     (case node_table (ctx w) of
        None \<Rightarrow> None
      | Some t \<Rightarrow> first_index (same_endpoint a p) (nodes t) 0 (unat (node_count t)))"

text \<open>Reading and writing through such a pointer.\<close>

definition node_at :: "nat \<Rightarrow> world \<Rightarrow> dsm_node" where
  "node_at i w = (case node_table (ctx w) of None \<Rightarrow> zero_node | Some t \<Rightarrow> nodes t ! i)"

definition update_node :: "nat \<Rightarrow> (dsm_node \<Rightarrow> dsm_node) \<Rightarrow> world \<Rightarrow> world" where
  "update_node i f w =
     (case node_table (ctx w) of
        None \<Rightarrow> w
      | Some t \<Rightarrow> put_table (t\<lparr>nodes := (nodes t)[i := f (nodes t ! i)]\<rparr>) w)"

definition dsm_node_table_count :: "world \<Rightarrow> u32" where
  "dsm_node_table_count w =
     (case node_table (ctx w) of None \<Rightarrow> 0 | Some t \<Rightarrow> node_count t)"

definition dsm_node_table_set_socket :: "u32 \<Rightarrow> int \<Rightarrow> world \<Rightarrow> int \<times> world" where
  "dsm_node_table_set_socket nid sockfd w =
     (case dsm_node_table_get nid w of
        None \<Rightarrow> (-1, w)
      | Some i \<Rightarrow>
          (0, update_node i (\<lambda>n. n\<lparr>tcp_fd := sockfd,
                 nstate := (if 0 \<le> sockfd then DSM_NODE_STATE_CONNECTED
                            else DSM_NODE_STATE_DISCONNECTED)\<rparr>) w))"

definition dsm_node_table_heartbeat :: "u32 \<Rightarrow> world \<Rightarrow> world" where
  "dsm_node_table_heartbeat nid w =
     (case dsm_node_table_get nid w of
        None \<Rightarrow> w
      | Some i \<Rightarrow> update_node i (\<lambda>n. n\<lparr>last_heartbeat := now w\<rparr>) w)"

definition dsm_net_init :: "world \<Rightarrow> int \<times> world" where
  "dsm_net_init w = dsm_node_table_init w"

definition dsm_net_shutdown :: "world \<Rightarrow> world" where
  "dsm_net_shutdown w = dsm_node_table_destroy w"

text \<open>The \<^verbatim>\<open>uint32_t\<close> sum of all chunks, times the page size in the same width, as a \<^verbatim>\<open>size_t\<close>.\<close>

definition dsm_get_total_memory :: "world \<Rightarrow> u64" where
  "dsm_get_total_memory w =
     (let total = (case node_table (ctx w) of
                     None \<Rightarrow> 0
                   | Some t \<Rightarrow> foldl (\<lambda>acc i. acc + chunks (nodes t ! i)) 0
                                 [0..<unat (node_count t)])
      in ucast ((total :: u32) * 4096))"

section \<open>Serialisation\<close>

definition node_info_of :: "dsm_node \<Rightarrow> dsm_msg_node_info" where
  "node_info_of n = \<lparr>ni_node_id = node_id n, ni_ip = set_ip (replicate DSM_MAX_IP_LEN 0) (ip n),
     ni_port = port n, ni_chunks = chunks n, ni_role = u32_of_role (role n),
     ni_state = u32_of_node_state (nstate n)\<rparr>"

text \<open>\<open>Some bytes\<close> is the filled buffer (the length returned is that of the bytes), \<open>None\<close> the -1.\<close>

definition dsm_node_table_serialize :: "nat \<Rightarrow> world \<Rightarrow> u8 list option" where
  "dsm_node_table_serialize buf_len w =
     (case node_table (ctx w) of
        None \<Rightarrow> None
      | Some t \<Rightarrow>
          (let count = unat (node_count t);
               needed = sizeof_node_table + count * sizeof_node_info
           in if buf_len < needed then None
              else Some (put32 (node_count t) @
                     concat (map (\<lambda>i. put_node_info (node_info_of (nodes t ! i))) [0..<count]))))"

text \<open>The update of an existing entry copies at most 15 bytes and writes no terminator.\<close>

definition node_from_info :: "dsm_msg_node_info \<Rightarrow> dsm_node \<Rightarrow> dsm_node" where
  "node_from_info i n = n\<lparr>ip := strncpy (DSM_MAX_IP_LEN - 1) (ip n) (ni_ip i), port := ni_port i,
     chunks := ni_chunks i, role := role_of_u32 (ni_role i),
     nstate := node_state_of_u32 (ni_state i)\<rparr>"

definition deserialize_step :: "int \<Rightarrow> dsm_msg_node_info \<Rightarrow> dsm_node_table \<Rightarrow> dsm_node_table" where
  "deserialize_step tm info t =
     (case first_index (\<lambda>n. node_id n = ni_node_id info) (nodes t) 0 (unat (node_count t)) of
        Some found \<Rightarrow> t\<lparr>nodes := (nodes t)[found := node_from_info info (nodes t ! found)]\<rparr>
      | None \<Rightarrow>
          if unat (node_count t) < DSM_MAX_NODES then
            (let idx = unat (node_count t);
                 n = (nodes t ! idx)
                   \<lparr>node_id := ni_node_id info, ip := set_ip (ip (nodes t ! idx)) (ni_ip info),
                    port := ni_port info, chunks := ni_chunks info,
                    role := role_of_u32 (ni_role info),
                    nstate := node_state_of_u32 (ni_state info),
                    tcp_fd := -1, last_heartbeat := tm\<rparr>
             in \<lparr>nodes = (nodes t)[idx := n], node_count = node_count t + 1\<rparr>)
          else t)"

definition dsm_node_table_deserialize :: "u8 list \<Rightarrow> nat \<Rightarrow> world \<Rightarrow> int \<times> world" where
  "dsm_node_table_deserialize buf len w =
     (case node_table (ctx w) of
        None \<Rightarrow> (-1, w)
      | Some t \<Rightarrow>
          if len < sizeof_node_table then (-1, w)
          else
            (let count = unat (get32 buf);
                 needed = sizeof_node_table + count * sizeof_node_info
             in if len < needed then (-1, w)
                else (0, put_table
                  (foldl (\<lambda>t i. deserialize_step (now w)
                      (get_node_info (drop (sizeof_node_table + i * sizeof_node_info) buf)) t)
                    t [0..<count]) w)))"


section \<open>Well-formed tables and their abstraction\<close>

definition live_nodes :: "dsm_node_table \<Rightarrow> dsm_node list" where
  "live_nodes t = take (unat (node_count t)) (nodes t)"

definition table_ok :: "dsm_node_table \<Rightarrow> bool" where
  "table_ok t \<longleftrightarrow> length (nodes t) = DSM_MAX_NODES \<and> unat (node_count t) \<le> DSM_MAX_NODES
     \<and> (\<forall>n \<in> set (nodes t). cfield DSM_MAX_IP_LEN (ip n))"

definition nodes_ok :: "world \<Rightarrow> bool" where
  "nodes_ok w \<longleftrightarrow> (case node_table (ctx w) of None \<Rightarrow> True | Some t \<Rightarrow> table_ok t)"

lemma length_live_nodes: "table_ok t \<Longrightarrow> length (live_nodes t) = unat (node_count t)"
  by (simp add: live_nodes_def table_ok_def)

lemma live_nodes_nth: "i < unat (node_count t) \<Longrightarrow> live_nodes t ! i = nodes t ! i"
  by (simp add: live_nodes_def)

lemma put_table_ctx [simp]: "node_table (ctx (put_table t w)) = Some t"
  by (simp add: put_table_def)

lemma put_table_frame [simp, frame_simps]:
  "locks (ctx (put_table t w)) = locks (ctx w)"
  "barrier (ctx (put_table t w)) = barrier (ctx w)"
  "page_table (ctx (put_table t w)) = page_table (ctx w)"
  "regions (ctx (put_table t w)) = regions (ctx w)"
  "local_node_id (ctx (put_table t w)) = local_node_id (ctx w)"
  "local_role (ctx (put_table t w)) = local_role (ctx w)"
  "next_global_addr (ctx (put_table t w)) = next_global_addr (ctx w)"
  "sent (put_table t w) = sent w"
  "res_script (put_table t w) = res_script w"
  "now (put_table t w) = now w"
  by (simp_all add: put_table_def)

lemma table_search:
  "table_ok t \<Longrightarrow> first_index P (nodes t) 0 (unat (node_count t))
     = first_index P (live_nodes t) 0 (length (live_nodes t))"
  unfolding length_live_nodes
  by (rule first_index_cong) (simp_all add: live_nodes_nth length_live_nodes)

text \<open>Both searches of the code are first-match lookups in the live nodes.\<close>

interpretation by_id: first_match_table table_ok live_nodes
    "\<lambda>nid t. first_index (\<lambda>n. node_id n = nid) (nodes t) 0 (unat (node_count t))"
    "\<lambda>nid n. node_id n = nid"
  by unfold_locales (rule table_search)

interpretation by_endpoint: first_match_table table_ok live_nodes
    "\<lambda>e t. first_index (same_endpoint (fst e) (snd e)) (nodes t) 0 (unat (node_count t))"
    "\<lambda>e n. same_endpoint (fst e) (snd e) n"
  by unfold_locales (rule table_search)

section \<open>IP fields\<close>

lemma set_ip_canonical:
  assumes "length field = DSM_MAX_IP_LEN"
  shows "set_ip field src = cstr (take 15 src) @ replicate (16 - length (cstr (take 15 src))) 0"
proof -
  let ?s = "cstr (take 15 src)"
  have l: "length ?s \<le> 15"
    using length_cstr_le [of "take 15 src"] by simp
  have d: "drop 15 field = [field ! 15]"
    using assms Cons_nth_drop_Suc [of 15 field] by simp
  have "set_ip field src = (?s @ replicate (15 - length ?s) 0 @ [field ! 15])[15 := 0]"
    using d by (simp add: set_ip_def strncpy_def Let_def)
  also have "\<dots> = ?s @ replicate (15 - length ?s) 0 @ [0]"
    using l by (simp add: list_update_append)
  also have "\<dots> = ?s @ replicate (16 - length ?s) 0"
    using l by (simp add: replicate_append_same numeral_eq_Suc Suc_diff_le)
  finally show ?thesis .
qed

lemma set_ip_cfield: "length field = DSM_MAX_IP_LEN \<Longrightarrow> cfield DSM_MAX_IP_LEN (set_ip field src)"
proof -
  assume a: "length field = DSM_MAX_IP_LEN"
  have "length (strncpy 15 field src) = 16"
    using a by (simp add: length_strncpy)
  then show ?thesis
    by (simp add: set_ip_def cfield_def)
qed

lemma cstr_set_ip: "length field = DSM_MAX_IP_LEN \<Longrightarrow> cstr (set_ip field src) = cstr (take 15 src)"
  by (simp add: set_ip_canonical cstr_padded)

lemma cstr_set_ip_cfield:
  "length field = DSM_MAX_IP_LEN \<Longrightarrow> cfield DSM_MAX_IP_LEN src \<Longrightarrow> cstr (set_ip field src) = cstr src"
  using cstr_take_cfield [of 15 src] by (simp add: cstr_set_ip)

lemma cfield_length: "cfield n bs \<Longrightarrow> length bs = n"
  by (simp add: cfield_def)

lemma zero_ip_cfield [simp]: "cfield 16 (replicate 16 0)"
  by (simp add: cfield_def)

section \<open>Every operation keeps the table well formed\<close>

lemma table_ok_update:
  "table_ok t \<Longrightarrow> cfield DSM_MAX_IP_LEN (ip n) \<Longrightarrow> table_ok (t\<lparr>nodes := (nodes t)[i := n]\<rparr>)"
  by (auto simp: table_ok_def dest!: set_update_subset_insert [THEN subsetD])

lemma table_ok_slot: "table_ok t \<Longrightarrow> i < DSM_MAX_NODES \<Longrightarrow> cfield DSM_MAX_IP_LEN (ip (nodes t ! i))"
  by (auto simp: table_ok_def)

lemma table_ok_grow:
  assumes "table_ok t" "unat (node_count t) < DSM_MAX_NODES" "cfield DSM_MAX_IP_LEN (ip n)"
  shows "table_ok \<lparr>nodes = (nodes t)[i := n], node_count = node_count t + 1\<rparr>"
proof -
  have "unat (node_count t + 1) \<le> DSM_MAX_NODES"
    using assms(2) by (simp add: unat_plus1_u32)
  with assms show ?thesis
    by (auto simp: table_ok_def dest!: set_update_subset_insert [THEN subsetD])
qed

lemma set_shift_down: "n \<le> length xs \<Longrightarrow> set (shift_down xs i n) \<subseteq> set xs"
proof (rule subsetI)
  fix x assume n: "n \<le> length xs" and "x \<in> set (shift_down xs i n)"
  then obtain k where k: "k < length xs" "x = shift_down xs i n ! k"
    by (auto simp: in_set_conv_nth)
  with n show "x \<in> set xs"
    by (cases "i \<le> k \<and> Suc k < n") (simp_all add: shift_down_nth)
qed

lemma table_ok_shrink:
  assumes "table_ok t" "0 < unat (node_count t)"
  shows "table_ok \<lparr>nodes = shift_down (nodes t) i (unat (node_count t)), node_count = node_count t - 1\<rparr>"
  using assms set_shift_down [of "unat (node_count t)" "nodes t" i]
  by (auto simp: table_ok_def unat_minus1)

lemma init_nodes_ok: "nodes_ok (snd (dsm_node_table_init w))"
  by (simp add: dsm_node_table_init_def nodes_ok_def case_prod_beta Let_def table_ok_def
      zero_node_def)

lemma add_nodes_ok:
  assumes "nodes_ok w"
  shows "nodes_ok (snd (dsm_node_table_add a p c r fd w))"
proof (cases "node_table (ctx w)")
  case None
  with assms show ?thesis by (simp add: dsm_node_table_add_def)
next
  case (Some t)
  with assms have t: "table_ok t" by (simp add: nodes_ok_def)
  show ?thesis
  proof (cases "first_index (same_endpoint a p) (nodes t) 0 (unat (node_count t))")
    case None
    with t Some assms show ?thesis
      by (auto simp: dsm_node_table_add_def nodes_ok_def Let_def case_prod_beta table_ok_update
          table_ok_grow set_ip_cfield cfield_length [OF table_ok_slot])
  next
    case (Some i)
    then have "i < DSM_MAX_NODES"
      using first_index_bound [OF Some] t by (simp add: table_ok_def)
    with t Some \<open>node_table (ctx w) = Some t\<close> show ?thesis
      by (simp add: dsm_node_table_add_def nodes_ok_def Let_def table_ok_update table_ok_slot)
  qed
qed

lemma remove_nodes_ok:
  assumes "nodes_ok w"
  shows "nodes_ok (snd (dsm_node_table_remove nid w))"
  using assms
  by (auto simp: dsm_node_table_remove_def nodes_ok_def split: option.splits
      intro!: table_ok_shrink dest!: first_index_bound)

lemma update_node_ok:
  assumes "nodes_ok w" "\<And>n. ip (f n) = ip n" "i < DSM_MAX_NODES"
  shows "nodes_ok (update_node i f w)"
  using assms
  by (auto simp: update_node_def nodes_ok_def table_ok_update table_ok_slot split: option.splits)

lemma get_bound: "nodes_ok w \<Longrightarrow> dsm_node_table_get nid w = Some i \<Longrightarrow> i < DSM_MAX_NODES"
  by (auto simp: dsm_node_table_get_def nodes_ok_def table_ok_def split: option.splits
      dest!: first_index_bound)

lemma set_socket_nodes_ok: "nodes_ok w \<Longrightarrow> nodes_ok (snd (dsm_node_table_set_socket nid fd w))"
  by (auto simp: dsm_node_table_set_socket_def split: option.splits intro!: update_node_ok
      dest: get_bound)

lemma heartbeat_nodes_ok: "nodes_ok w \<Longrightarrow> nodes_ok (dsm_node_table_heartbeat nid w)"
  by (auto simp: dsm_node_table_heartbeat_def split: option.splits intro!: update_node_ok
      dest: get_bound)

lemma deserialize_step_ok:
  assumes "table_ok t"
  shows "table_ok (deserialize_step tm info t)"
proof (cases "first_index (\<lambda>n. node_id n = ni_node_id info) (nodes t) 0 (unat (node_count t))")
  case None
  with assms show ?thesis
    by (auto simp: deserialize_step_def Let_def table_ok_grow set_ip_cfield
        cfield_length [OF table_ok_slot])
next
  case (Some i)
  then have "i < DSM_MAX_NODES"
    using first_index_bound [OF Some] assms by (simp add: table_ok_def)
  then have "cfield (Suc 15) (ip (nodes t ! i))"
    using table_ok_slot [OF assms] by simp
  then have "cfield DSM_MAX_IP_LEN (ip (node_from_info info (nodes t ! i)))"
    using strncpy_cfield [of 15] by (simp add: node_from_info_def)
  with assms Some show ?thesis
    by (simp add: deserialize_step_def table_ok_update)
qed

lemma deserialize_nodes_ok:
  assumes "nodes_ok w"
  shows "nodes_ok (snd (dsm_node_table_deserialize buf len w))"
proof -
  have "table_ok t \<Longrightarrow> table_ok (foldl (\<lambda>t i. deserialize_step tm (g i) t) t is)" for t tm g "is"
    by (induction "is" arbitrary: t) (simp_all add: deserialize_step_ok)
  with assms show ?thesis
    by (auto simp: dsm_node_table_deserialize_def nodes_ok_def Let_def split: option.splits)
qed


section \<open>The table as a list: what each operation does\<close>

definition abs_nodes :: "world \<Rightarrow> dsm_node list" where
  "abs_nodes w = (case node_table (ctx w) of None \<Rightarrow> [] | Some t \<Rightarrow> live_nodes t)"

text \<open>The entry a new node gets when \<open>k\<close> nodes are in the table.\<close>

definition new_entry :: "u8 list \<Rightarrow> u16 \<Rightarrow> u32 \<Rightarrow> dsm_role \<Rightarrow> int \<Rightarrow> int \<Rightarrow> nat \<Rightarrow> dsm_node" where
  "new_entry a p c r fd tm k =
     \<lparr>node_id = (if r = DSM_ROLE_MASTER then 1 else word_of_nat k + 1), role = r,
      nstate = (if 0 \<le> fd then DSM_NODE_STATE_CONNECTED else DSM_NODE_STATE_DISCOVERING),
      ip = set_ip (replicate DSM_MAX_IP_LEN 0) a, port = p, chunks = c, tcp_fd = fd,
      last_heartbeat = tm\<rparr>"

definition spec_add ::
  "u8 list \<Rightarrow> u16 \<Rightarrow> u32 \<Rightarrow> dsm_role \<Rightarrow> int \<Rightarrow> int \<Rightarrow> bool \<Rightarrow> dsm_node list \<Rightarrow> dsm_node list" where
  "spec_add a p c r fd tm mutex_ok ns =
     (if \<exists>n \<in> set ns. same_endpoint a p n
      then update_first (same_endpoint a p)
             (\<lambda>n. n\<lparr>tcp_fd := fd, nstate := DSM_NODE_STATE_CONNECTED, last_heartbeat := tm\<rparr>) ns
      else if DSM_MAX_NODES \<le> length ns \<or> \<not> mutex_ok then ns
      else ns @ [new_entry a p c r fd tm (length ns)])"

lemma abs_nodes_put [simp]: "abs_nodes (put_table t w) = live_nodes t"
  by (simp add: abs_nodes_def)

lemma abs_nodes_sys_call [simp]: "abs_nodes (snd (sys_call w)) = abs_nodes w"
  by (simp add: abs_nodes_def)

lemma fst_sys_call_put [simp]: "fst (sys_call (put_table t w)) = fst (sys_call w)"
  by (simp add: sys_call_def split: list.splits)

lemma live_nodes_update:
  "table_ok t \<Longrightarrow> live_nodes (t\<lparr>nodes := (nodes t)[i := n]\<rparr>) = (live_nodes t)[i := n]"
  by (simp add: live_nodes_def take_update_swap)

lemma live_nodes_slot:
  "live_nodes (t\<lparr>nodes := (nodes t)[unat (node_count t) := n]\<rparr>) = live_nodes t"
  by (simp add: live_nodes_def)

lemma live_nodes_grow:
  assumes "table_ok t" "unat (node_count t) < DSM_MAX_NODES"
  shows "live_nodes \<lparr>nodes = (nodes t)[unat (node_count t) := n], node_count = node_count t + 1\<rparr>
    = live_nodes t @ [n]"
proof -
  have "unat (node_count t + 1) = Suc (unat (node_count t))"
    using assms(2) by (intro unat_plus1_u32) simp
  with assms show ?thesis
    by (simp add: live_nodes_def table_ok_def take_Suc_conv_app_nth)
qed

lemma set_ip_slot:
  assumes "table_ok t" "i < DSM_MAX_NODES"
  shows "set_ip (ip (nodes t ! i)) a = set_ip (replicate DSM_MAX_IP_LEN 0) a"
proof -
  have "length (ip (nodes t ! i)) = DSM_MAX_IP_LEN"
    using table_ok_slot [OF assms] by (rule cfield_length)
  then show ?thesis
    by (simp add: set_ip_canonical)
qed

lemma add_refines:
  assumes ok: "nodes_ok w" and tab: "node_table (ctx w) \<noteq> None"
  shows "abs_nodes (snd (dsm_node_table_add a p c r fd w)) =
    spec_add a p c r fd (now w) (fst (sys_call w)) (abs_nodes w)"
proof -
  obtain t where t: "node_table (ctx w) = Some t" "table_ok t"
    using ok tab by (auto simp: nodes_ok_def)
  have abs: "abs_nodes w = live_nodes t" and len: "length (live_nodes t) = unat (node_count t)"
    using t by (simp_all add: abs_nodes_def length_live_nodes)
  note search = table_search [OF t(2), of "same_endpoint a p"]
  show ?thesis
  proof (cases "first_index (same_endpoint a p) (nodes t) 0 (unat (node_count t))")
    case None
    then have none: "\<not> (\<exists>n \<in> set (live_nodes t). same_endpoint a p n)"
      using first_index_ex [of "same_endpoint a p" "live_nodes t"] by (simp add: search)
    show ?thesis
    proof (cases "DSM_MAX_NODES \<le> unat (node_count t)")
      case True
      with None none t abs len show ?thesis
        by (simp add: dsm_node_table_add_def spec_add_def)
    next
      case False
      with None none t abs len show ?thesis
        by (simp add: dsm_node_table_add_def spec_add_def Let_def case_prod_beta live_nodes_slot
            live_nodes_grow set_ip_slot new_entry_def)
    qed
  next
    case (Some i)
    then have hit: "first_index (same_endpoint a p) (live_nodes t) 0 (length (live_nodes t)) = Some i"
      by (simp add: search)
    then have ex: "\<exists>n \<in> set (live_nodes t). same_endpoint a p n"
      using first_index_ex [of "same_endpoint a p" "live_nodes t"] by simp
    have "i < unat (node_count t)"
      using first_index_bound [OF Some] .
    then have "nodes t ! i = live_nodes t ! i"
      by (simp add: live_nodes_nth)
    with Some t abs ex show ?thesis
      using update_first_index [OF hit, of "\<lambda>n. n\<lparr>tcp_fd := fd, nstate := DSM_NODE_STATE_CONNECTED,
          last_heartbeat := now w\<rparr>"]
      by (simp add: dsm_node_table_add_def spec_add_def Let_def live_nodes_update)
  qed
qed

lemma remove_refines:
  assumes ok: "nodes_ok w"
  shows "abs_nodes (snd (dsm_node_table_remove nid w)) =
      remove_first (\<lambda>n. node_id n = nid) (abs_nodes w)"
    and "fst (dsm_node_table_remove nid w) = 0 \<longleftrightarrow> nid \<in> node_id ` set (abs_nodes w)"
proof -
  have "abs_nodes (snd (dsm_node_table_remove nid w)) =
      remove_first (\<lambda>n. node_id n = nid) (abs_nodes w) \<and>
    (fst (dsm_node_table_remove nid w) = 0 \<longleftrightarrow> nid \<in> node_id ` set (abs_nodes w))"
  proof (cases "node_table (ctx w)")
    case None
    then show ?thesis
      by (simp add: dsm_node_table_remove_def abs_nodes_def)
  next
    case (Some t)
    with ok have t: "table_ok t" by (simp add: nodes_ok_def)
    have abs: "abs_nodes w = live_nodes t" using Some by (simp add: abs_nodes_def)
    note search = table_search [OF t, of "\<lambda>n. node_id n = nid"]
    show ?thesis
    proof (cases "first_index (\<lambda>n. node_id n = nid) (nodes t) 0 (unat (node_count t))")
      case None
      then have "\<forall>n \<in> set (live_nodes t). node_id n \<noteq> nid"
        using first_index_ex [of "\<lambda>n. node_id n = nid" "live_nodes t"] by (simp add: search)
      with None Some abs show ?thesis
        by (auto simp: dsm_node_table_remove_def remove_first_absent)
    next
      case hit: (Some i)
      then have "nid \<in> node_id ` set (live_nodes t)"
        using first_index_ex [of "\<lambda>n. node_id n = nid" "live_nodes t"] by (auto simp: search)
      moreover have i: "i < unat (node_count t)"
        using first_index_bound [OF hit] .
      moreover have "unat (node_count t - 1) = unat (node_count t) - 1"
        using i by (intro unat_minus1) simp
      moreover have "take (unat (node_count t) - 1) (shift_down (nodes t) i (unat (node_count t)))
          = take i (live_nodes t) @ drop (Suc i) (live_nodes t)"
        using take_shift_down [OF i, of "nodes t"] t i by (simp add: table_ok_def live_nodes_def)
      ultimately show ?thesis
        using hit Some abs remove_first_index [of "\<lambda>n. node_id n = nid" "live_nodes t" i]
        by (simp add: dsm_node_table_remove_def live_nodes_def search [symmetric]
            flip: live_nodes_def)
          (simp add: live_nodes_def search)
    qed
  qed
  then show "abs_nodes (snd (dsm_node_table_remove nid w)) =
      remove_first (\<lambda>n. node_id n = nid) (abs_nodes w)"
    and "fst (dsm_node_table_remove nid w) = 0 \<longleftrightarrow> nid \<in> node_id ` set (abs_nodes w)"
    by auto
qed


section \<open>Node ids\<close>

text \<open>The ids the master hands out: 1, 2, 3, ... in the order of the table.\<close>

definition ids_in_order :: "dsm_node list \<Rightarrow> bool" where
  "ids_in_order ns \<longleftrightarrow> map node_id ns = map (\<lambda>i. word_of_nat (Suc i)) [0..<length ns]"

lemma ids_in_order_nth:
  "ids_in_order ns \<Longrightarrow> i < length ns \<Longrightarrow> node_id (ns ! i) = word_of_nat (Suc i)"
proof -
  assume ids: "ids_in_order ns" and i: "i < length ns"
  have "node_id (ns ! i) = map node_id ns ! i"
    using i by simp
  also have "\<dots> = map (\<lambda>i. word_of_nat (Suc i)) [0..<length ns] ! i"
    using ids by (simp only: ids_in_order_def)
  also have "\<dots> = word_of_nat (Suc i)"
    using i by (simp del: of_nat_Suc)
  finally show ?thesis .
qed

lemma ids_in_orderI:
  "(\<And>i. i < length ns \<Longrightarrow> node_id (ns ! i) = word_of_nat (Suc i)) \<Longrightarrow> ids_in_order ns"
  unfolding ids_in_order_def by (intro nth_equalityI) auto

lemma word_of_nat_inj_u32:
  "i < 4294967296 \<Longrightarrow> j < 4294967296 \<Longrightarrow> (word_of_nat i :: u32) = word_of_nat j \<longleftrightarrow> i = j"
  by (auto simp: word_of_nat_eq_iff take_bit_eq_mod)

lemma ids_in_order_distinct:
  assumes "ids_in_order ns" "length ns \<le> DSM_MAX_NODES"
  shows "distinct (map node_id ns)"
  unfolding distinct_conv_nth
  using assms by (auto simp: ids_in_order_nth word_of_nat_inj_u32)

lemma ids_in_order_append:
  "ids_in_order (ns @ [n]) \<longleftrightarrow> ids_in_order ns \<and> node_id n = word_of_nat (Suc (length ns))"
  unfolding ids_in_order_def by (simp del: of_nat_Suc)

lemma map_node_id_update_first:
  "(\<And>n. node_id (f n) = node_id n) \<Longrightarrow> map node_id (update_first P f ns) = map node_id ns"
  by (induction ns) auto

lemma length_update_first [simp]: "length (update_first P f ns) = length ns"
  by (induction ns) auto

lemma spec_add_ids:
  assumes "ids_in_order ns" "r = DSM_ROLE_MASTER \<longrightarrow> ns = []"
  shows "ids_in_order (spec_add a p c r fd tm ok ns)"
  using assms
  by (auto simp: spec_add_def ids_in_order_append new_entry_def add.commute ids_in_order_def
      map_node_id_update_first)

lemma abs_nodes_length: "nodes_ok w \<Longrightarrow> length (abs_nodes w) \<le> DSM_MAX_NODES"
  by (auto simp: abs_nodes_def nodes_ok_def length_live_nodes table_ok_def split: option.splits)

section \<open>The serialised table\<close>

lemma foldl_map_upt: "foldl (\<lambda>t i. g (h i) t) t is = foldl (\<lambda>t x. g x t) t (map h is)"
  by (induction "is" arbitrary: t) auto

lemma node_info_of_ok: "node_info_ok (node_info_of n)"
  using cfield_length [OF set_ip_cfield [of "replicate 16 0" "ip n"]]
  by (simp add: node_info_ok_def node_info_of_def)

lemma map_live_nodes:
  "table_ok t \<Longrightarrow> map (\<lambda>i. f (nodes t ! i)) [0..<unat (node_count t)] = map f (live_nodes t)"
  by (intro nth_equalityI) (simp_all add: length_live_nodes live_nodes_nth)

lemma serialize_bytes:
  assumes "node_table (ctx w) = Some t" "table_ok t"
    and "sizeof_node_table + length (live_nodes t) * sizeof_node_info \<le> len"
  shows "dsm_node_table_serialize len w =
    Some (put32 (node_count t) @ concat (map put_node_info (map node_info_of (live_nodes t))))"
  using assms map_live_nodes [OF assms(2), of "\<lambda>n. put_node_info (node_info_of n)"]
  by (simp add: dsm_node_table_serialize_def length_live_nodes comp_def)

text \<open>The buffer \<^verbatim>\<open>dsm_node_table_broadcast\<close> uses holds any table.\<close>

lemma serialize_fits:
  assumes "nodes_ok w" "node_table (ctx w) \<noteq> None" "2180 \<le> len"
  shows "dsm_node_table_serialize len w \<noteq> None"
  using assms by (auto simp: nodes_ok_def table_ok_def dsm_node_table_serialize_def Let_def)

lemma drop_put32: "drop (4 + n) (put32 k @ bs) = drop n bs"
  by simp

text \<open>Reading the packed array back gives the list of entries that was written.\<close>

lemma deserialize_bytes:
  assumes "node_table (ctx w) = Some t" "\<forall>i \<in> set infos. node_info_ok i"
    and "length infos < 2 ^ 32" "k = word_of_nat (length infos)"
    and "len = sizeof_node_table + length infos * sizeof_node_info"
  shows "dsm_node_table_deserialize (put32 k @ concat (map put_node_info infos) @ rest) len w =
    (0, put_table (foldl (\<lambda>t i. deserialize_step (now w) i t) t infos) w)"
proof -
  let ?bytes = "concat (map put_node_info infos)"
  have k: "unat k = length infos"
    using assms(3,4) by (simp add: unat_of_nat)
  let ?read = "\<lambda>i. get_node_info (drop (sizeof_node_table + i * sizeof_node_info) (put32 k @ ?bytes @ rest))"
  have read: "map ?read [0..<length infos] = infos"
    using node_info_codec.get_all_put_array [OF assms(2), of rest] by (simp del: drop_append add: drop_put32)
  have "foldl (\<lambda>t i. deserialize_step (now w) (?read i) t) t [0..<length infos] =
      foldl (\<lambda>t i. deserialize_step (now w) i t) t infos"
    using foldl_map_upt [of "deserialize_step (now w)" ?read t "[0..<length infos]"]
    by (simp only: read)
  then show ?thesis
    using assms(1,5) k by (simp add: dsm_node_table_deserialize_def)
qed

text \<open>The entry a received description adds.\<close>

definition entry_of_info :: "int \<Rightarrow> dsm_msg_node_info \<Rightarrow> dsm_node" where
  "entry_of_info tm i =
     \<lparr>node_id = ni_node_id i, role = role_of_u32 (ni_role i),
      nstate = node_state_of_u32 (ni_state i), ip = set_ip (replicate DSM_MAX_IP_LEN 0) (ni_ip i),
      port = ni_port i, chunks = ni_chunks i, tcp_fd = -1, last_heartbeat = tm\<rparr>"

lemma deserialize_step_new:
  assumes "table_ok t" "unat (node_count t) < DSM_MAX_NODES"
    and "ni_node_id i \<notin> node_id ` set (live_nodes t)"
  shows "live_nodes (deserialize_step tm i t) = live_nodes t @ [entry_of_info tm i]"
proof -
  have "first_index (\<lambda>n. node_id n = ni_node_id i) (nodes t) 0 (unat (node_count t)) = None"
    using assms(3) by (subst by_id.lookup_None_iff [OF assms(1)]) (auto simp: image_iff)
  with assms show ?thesis
    by (simp add: deserialize_step_def Let_def live_nodes_grow set_ip_slot entry_of_info_def)
qed

lemma deserialize_all_new:
  assumes "table_ok t" "unat (node_count t) + length infos \<le> DSM_MAX_NODES"
    and "distinct (map ni_node_id infos)"
    and "set (map ni_node_id infos) \<inter> node_id ` set (live_nodes t) = {}"
  shows "live_nodes (foldl (\<lambda>t i. deserialize_step tm i t) t infos) =
    live_nodes t @ map (entry_of_info tm) infos"
  using assms
proof (induction infos arbitrary: t)
  case Nil
  then show ?case by simp
next
  case (Cons i infos)
  let ?t = "deserialize_step tm i t"
  have t': "table_ok ?t"
    using Cons.prems(1) by (rule deserialize_step_ok)
  have live: "live_nodes ?t = live_nodes t @ [entry_of_info tm i]"
    using Cons.prems by (intro deserialize_step_new) auto
  then have "unat (node_count ?t) = Suc (unat (node_count t))"
    using length_live_nodes [OF t'] length_live_nodes [OF Cons.prems(1)] by simp
  then have "live_nodes (foldl (\<lambda>t i. deserialize_step tm i t) ?t infos) =
      live_nodes ?t @ map (entry_of_info tm) infos"
    using Cons.prems t' live by (intro Cons.IH) (auto simp: entry_of_info_def)
  with live show ?case by simp
qed

text \<open>
  A table survives the network: what the master serialises, a worker with an empty table, which reads
  it from the front of its buffer, deserialises into copies of the same nodes in the same order, with
  no socket yet.
\<close>

definition copy_of :: "dsm_node \<Rightarrow> dsm_node \<Rightarrow> bool" where
  "copy_of n' n \<longleftrightarrow> node_id n' = node_id n \<and> u32_of_role (role n') = u32_of_role (role n) \<and>
     u32_of_node_state (nstate n') = u32_of_node_state (nstate n) \<and> cstr (ip n') = cstr (ip n) \<and>
     port n' = port n \<and> chunks n' = chunks n \<and> tcp_fd n' = -1"

lemma table_copied:
  assumes ok: "nodes_ok w" and ids: "distinct (map node_id (abs_nodes w))"
    and bytes: "dsm_node_table_serialize len w = Some bs"
    and empty: "node_table (ctx v) \<noteq> None" "nodes_ok v" "abs_nodes v = []"
  shows "\<exists>t. dsm_node_table_deserialize (bs @ rest) (length bs) v = (0, put_table t v) \<and>
    list_all2 copy_of (live_nodes t) (abs_nodes w)"
proof -
  obtain t where t: "node_table (ctx w) = Some t" "table_ok t"
    using ok bytes by (auto simp: nodes_ok_def dsm_node_table_serialize_def split: option.splits)
  obtain u where u: "node_table (ctx v) = Some u" "table_ok u" "live_nodes u = []"
    using empty by (auto simp: nodes_ok_def abs_nodes_def)
  let ?ns = "live_nodes t" and ?infos = "map node_info_of (live_nodes t)"
  have abs: "abs_nodes w = ?ns"
    using t by (simp add: abs_nodes_def)
  have few: "length ?ns \<le> 64" and cnt: "node_count t = word_of_nat (length ?ns)"
    using t(2) by (simp_all add: length_live_nodes table_ok_def)
  have "sizeof_node_table + length ?ns * sizeof_node_info \<le> len"
    using bytes t by (auto simp: dsm_node_table_serialize_def length_live_nodes Let_def split: if_splits)
  then have bs: "bs = put32 (node_count t) @ concat (map put_node_info ?infos)"
    using bytes serialize_bytes [OF t] by simp
  have infos: "\<forall>i \<in> set ?infos. node_info_ok i"
    by (simp add: node_info_of_ok)
  have len: "length bs = sizeof_node_table + length ?infos * sizeof_node_info"
    using node_info_codec.length_put_array [OF infos] by (simp add: bs)
  have des: "dsm_node_table_deserialize (bs @ rest) (length bs) v =
      (0, put_table (foldl (\<lambda>t i. deserialize_step (now v) i t) u ?infos) v)"
    unfolding bs append_assoc using few len bs
    by (intro deserialize_bytes [OF u(1) infos _ _]) (simp_all add: cnt)
  have "ni_node_id \<circ> node_info_of = node_id"
    by (simp add: fun_eq_iff node_info_of_def)
  then have "live_nodes (foldl (\<lambda>t i. deserialize_step (now v) i t) u ?infos) =
      map (entry_of_info (now v)) ?infos"
    using u few ids abs length_live_nodes [OF u(2)] by (subst deserialize_all_new) simp_all
  moreover have "cstr (ip (entry_of_info (now v) (node_info_of n))) = cstr (ip n)" if "n \<in> set ?ns" for n
  proof -
    have f: "cfield 16 (ip n)"
      using that t(2) by (auto simp: live_nodes_def table_ok_def dest: in_set_takeD)
    then have "cstr (set_ip (replicate 16 0) (ip n)) = cstr (ip n)"
      by (intro cstr_set_ip_cfield) simp_all
    moreover have "cfield 16 (set_ip (replicate 16 0) (ip n))"
      by (intro set_ip_cfield) simp
    ultimately show ?thesis
      by (simp add: entry_of_info_def node_info_of_def cstr_set_ip_cfield)
  qed
  ultimately have "list_all2 copy_of (live_nodes (foldl (\<lambda>t i. deserialize_step (now v) i t) u ?infos)) (abs_nodes w)"
    by (simp add: abs list_all2_conv_all_nth copy_of_def) (simp add: entry_of_info_def node_info_of_def)
  with des show ?thesis by blast
qed


section \<open>Properties\<close>

text \<open>A table with a master and two workers, for concrete instances of the theorems.\<close>

definition demo_ip :: "u8 list" where "demo_ip = [49, 48, 46, 48, 46, 48, 46, 49]"

definition demo_nodes :: world where
  "demo_nodes =
     (let (_, w) = dsm_node_table_init boot_world;
          (_, w) = dsm_node_table_add demo_ip 9000 10 DSM_ROLE_MASTER (-1) w;
          (_, w) = dsm_node_table_add demo_ip 9001 20 DSM_ROLE_WORKER 7 w;
          (_, w) = dsm_node_table_add demo_ip 9002 30 DSM_ROLE_WORKER 8 w
      in w)"

lemma init_send_script: "send_script (snd (dsm_node_table_init w)) = send_script w"
  by (simp add: dsm_node_table_init_def case_prod_beta Let_def put_table_def sys_call_def
      split: list.splits)

lemma add_send_script: "send_script (snd (dsm_node_table_add a p c r fd w)) = send_script w"
  by (simp add: dsm_node_table_add_def case_prod_beta Let_def put_table_def sys_call_def
      split: list.splits option.splits)

lemma init_frame:
  "local_node_id (ctx (snd (dsm_node_table_init w))) = local_node_id (ctx w)"
  "locks (ctx (snd (dsm_node_table_init w))) = locks (ctx w)"
  "barrier (ctx (snd (dsm_node_table_init w))) = barrier (ctx w)"
  by (simp_all add: dsm_node_table_init_def case_prod_beta Let_def put_table_def)

lemma add_frame:
  "local_node_id (ctx (snd (dsm_node_table_add a p c r fd w))) = local_node_id (ctx w)"
  "locks (ctx (snd (dsm_node_table_add a p c r fd w))) = locks (ctx w)"
  "barrier (ctx (snd (dsm_node_table_add a p c r fd w))) = barrier (ctx w)"
  by (simp_all add: dsm_node_table_add_def case_prod_beta Let_def put_table_def split: option.splits)

lemma demo_nodes_frame [simp]:
  "send_script demo_nodes fd = []"
  "locks (ctx demo_nodes) = replicate DSM_MAX_LOCKS zero_lock"
  "barrier (ctx demo_nodes) = zero_barrier"
  "local_node_id (ctx demo_nodes) = 0"
  by (simp_all add: demo_nodes_def case_prod_beta Let_def add_send_script init_send_script
      add_frame init_frame)
     (simp_all add: boot_world_def zero_context_def)

lemma demo_nodes_ok [simp]: "nodes_ok demo_nodes"
  by (simp add: demo_nodes_def case_prod_beta Let_def add_nodes_ok init_nodes_ok)

lemma demo_nodes_table [simp]: "node_table (ctx demo_nodes) \<noteq> None"
  by code_simp

lemma demo_nodes_ids [simp]: "map node_id (abs_nodes demo_nodes) = [1, 2, 3]"
  by code_simp

lemma demo_nodes_mutex [simp]: "fst (sys_call demo_nodes)"
  by code_simp

lemma demo_nodes_in_order [simp]: "ids_in_order (abs_nodes demo_nodes)"
proof -
  have "length (abs_nodes demo_nodes) = 3"
    by code_simp
  then show ?thesis
    by (simp add: ids_in_order_def upt_rec)
qed

text \<open>
  C16. Adding a node does to the list of live nodes exactly what is promised: a node with the same
  address and port is refreshed in place; otherwise the node is appended with the next id, unless
  the table holds 64 nodes or its mutex cannot be initialised, when the list is unchanged.
\<close>

theorem node_add_refines:
  assumes "nodes_ok w" "node_table (ctx w) \<noteq> None"
  shows "abs_nodes (snd (dsm_node_table_add a p c r fd w)) =
    spec_add a p c r fd (now w) (fst (sys_call w)) (abs_nodes w)"
  using assms by (rule add_refines)

theorem node_add_refines_witness:
  "nodes_ok demo_nodes \<and> node_table (ctx demo_nodes) \<noteq> None \<and>
   abs_nodes (snd (dsm_node_table_add demo_ip 9003 5 DSM_ROLE_WORKER 9 demo_nodes)) =
     spec_add demo_ip 9003 5 DSM_ROLE_WORKER 9 (now demo_nodes) True (abs_nodes demo_nodes)"
  using node_add_refines [OF demo_nodes_ok demo_nodes_table, of demo_ip 9003 5 DSM_ROLE_WORKER 9]
  by simp

text \<open>
  C17. Removing a node deletes the first live node with that id, keeps the order of the others, and
  returns 0 exactly when there is one: the shifting loop over the array neither loses nor repeats
  an entry.
\<close>

theorem node_remove_refines:
  assumes "nodes_ok w"
  shows "abs_nodes (snd (dsm_node_table_remove nid w)) =
      remove_first (\<lambda>n. node_id n = nid) (abs_nodes w) \<and>
    (fst (dsm_node_table_remove nid w) = 0 \<longleftrightarrow> nid \<in> node_id ` set (abs_nodes w))"
  using remove_refines [OF assms] by blast

theorem node_remove_refines_witness:
  "nodes_ok demo_nodes \<and>
   map node_id (abs_nodes (snd (dsm_node_table_remove 2 demo_nodes))) = [1, 3]"
proof -
  have "map node_id (remove_first (\<lambda>n. node_id n = 2) (abs_nodes demo_nodes)) = [1, 3]"
    by code_simp
  then show ?thesis
    using node_remove_refines [OF demo_nodes_ok, of 2] by simp
qed

text \<open>
  The table stays well formed under every operation: 64 slots, a count within them, and a NUL
  in the last byte of every address field, also when the description came from the network
  without one.
\<close>

lemma node_table_wellformed:
  assumes "nodes_ok w"
  shows "nodes_ok (snd (dsm_node_table_add a p c r fd w)) \<and>
    nodes_ok (snd (dsm_node_table_remove nid w)) \<and>
    nodes_ok (snd (dsm_node_table_set_socket nid fd w)) \<and>
    nodes_ok (dsm_node_table_heartbeat nid w) \<and>
    nodes_ok (snd (dsm_node_table_deserialize buf len w))"
  using assms
  by (intro conjI add_nodes_ok remove_nodes_ok set_socket_nodes_ok heartbeat_nodes_ok
      deserialize_nodes_ok)

text \<open>
  C28. While no node leaves, ids are unique: if the live nodes have the ids 1, 2, 3, ... in order
  and the master is only ever added to an empty table, then after an addition they still have, so
  no two nodes share an id.
\<close>

theorem node_ids_unique:
  assumes "nodes_ok w" "node_table (ctx w) \<noteq> None" "ids_in_order (abs_nodes w)"
    and "r = DSM_ROLE_MASTER \<longrightarrow> abs_nodes w = []"
  shows "ids_in_order (abs_nodes (snd (dsm_node_table_add a p c r fd w))) \<and>
    distinct (map node_id (abs_nodes (snd (dsm_node_table_add a p c r fd w))))"
proof -
  let ?w = "snd (dsm_node_table_add a p c r fd w)"
  have "ids_in_order (abs_nodes ?w)"
    using assms by (simp add: add_refines spec_add_ids)
  moreover have "length (abs_nodes ?w) \<le> DSM_MAX_NODES"
    using assms(1) by (intro abs_nodes_length add_nodes_ok)
  ultimately show ?thesis
    using ids_in_order_distinct by blast
qed

theorem node_ids_unique_witness:
  "ids_in_order (abs_nodes demo_nodes) \<and>
   distinct (map node_id (abs_nodes (snd (dsm_node_table_add demo_ip 9003 5 DSM_ROLE_WORKER 9 demo_nodes))))"
  using node_ids_unique [OF demo_nodes_ok demo_nodes_table demo_nodes_in_order,
      of DSM_ROLE_WORKER demo_ip 9003 5 9]
  by simp

lemma ids_in_order_last:
  assumes "ids_in_order ns" "ns \<noteq> []"
  shows "node_id (last ns) = word_of_nat (length ns)"
proof -
  have "length ns - 1 < length ns" "Suc (length ns - 1) = length ns"
    using assms(2) by auto
  then show ?thesis
    using ids_in_order_nth [OF assms(1), of "length ns - 1"] by (simp only: last_conv_nth [OF assms(2)])
qed

text \<open>
  C29. After a departure ids are no longer unique: a node's id is the table's count plus one, so
  when a node other than the last has left, the next newcomer gets the id of the last node.
\<close>

theorem node_rejoin_duplicates_id:
  assumes ok: "nodes_ok w" and tab: "node_table (ctx w) \<noteq> None"
    and ids: "ids_in_order (abs_nodes w)" and i: "Suc i < length (abs_nodes w)"
    and w1: "w1 = snd (dsm_node_table_remove (word_of_nat (Suc i)) w)"
    and new: "\<forall>n \<in> set (abs_nodes w). \<not> same_endpoint a p n"
    and worker: "r \<noteq> DSM_ROLE_MASTER" and mutex: "fst (sys_call w1)"
  shows "\<not> distinct (map node_id (abs_nodes (snd (dsm_node_table_add a p c r fd w1))))"
proof -
  let ?ns = "abs_nodes w" and ?id = "word_of_nat (Suc i) :: u32"
  let ?ns1 = "remove_first (\<lambda>n. node_id n = ?id) ?ns"
  have small: "length ?ns \<le> 64"
    using abs_nodes_length [OF ok] by simp
  have hit: "first_index (\<lambda>n. node_id n = ?id) ?ns 0 (length ?ns) = Some i"
    using i small
    by (intro first_index_unique)
      (auto simp: ids_in_order_nth [OF ids] word_of_nat_inj_u32 simp del: of_nat_Suc)
  then have ns1: "?ns1 = take i ?ns @ drop (Suc i) ?ns"
    by (simp only: remove_first_index)
  have abs1: "abs_nodes w1 = ?ns1"
    using remove_refines(1) [OF ok] by (simp only: w1)
  have "last (drop (Suc i) ?ns) \<in> set (drop (Suc i) ?ns)"
    using i by (intro last_in_set) simp
  then have last: "last ?ns \<in> set ?ns1"
    unfolding ns1 using i by (simp add: last_drop)
  have last_id: "node_id (last ?ns) = word_of_nat (length ?ns)"
    using i by (intro ids_in_order_last [OF ids]) auto
  have ok1: "nodes_ok w1" and tab1: "node_table (ctx w1) \<noteq> None"
    using remove_nodes_ok [OF ok] tab
    by (auto simp: w1 dsm_node_table_remove_def split: option.splits)
  have "length ?ns1 = length ?ns - 1"
    unfolding ns1 using i by simp
  then have "abs_nodes (snd (dsm_node_table_add a p c r fd w1)) =
      ?ns1 @ [new_entry a p c r fd (now w1) (length ?ns - 1)]"
    using add_refines [OF ok1 tab1, of a p c r fd] new mutex small i abs1
      set_remove_first [of "\<lambda>n. node_id n = ?id" ?ns]
    by (auto simp: spec_add_def)
  moreover have "node_id (new_entry a p c r fd (now w1) (length ?ns - 1)) = node_id (last ?ns)"
  proof -
    have "word_of_nat (length ?ns - 1) + 1 = (word_of_nat (Suc (length ?ns - 1)) :: u32)"
      by (simp add: add.commute)
    also have "Suc (length ?ns - 1) = length ?ns"
      using i by simp
    finally show ?thesis
      using worker last_id by (simp only: new_entry_def dsm_node.simps if_False)
  qed
  ultimately show ?thesis
    using last by (auto simp: image_iff)
qed

theorem node_rejoin_duplicates_id_witness:
  "\<not> distinct (map node_id (abs_nodes (snd (dsm_node_table_add demo_ip 9003 5 DSM_ROLE_WORKER 9
     (snd (dsm_node_table_remove (word_of_nat (Suc 1)) demo_nodes))))))"
proof -
  have "Suc 1 < length (abs_nodes demo_nodes)"
    by code_simp
  moreover have "\<forall>n \<in> set (abs_nodes demo_nodes). \<not> same_endpoint demo_ip 9003 n"
    by code_simp
  moreover have "fst (sys_call (snd (dsm_node_table_remove (word_of_nat (Suc 1)) demo_nodes)))"
    by code_simp
  ultimately show ?thesis
    by (intro node_rejoin_duplicates_id [OF demo_nodes_ok demo_nodes_table demo_nodes_in_order _ refl])
      simp_all
qed

end
