(* ===== verification/DsmTcp.thy ===== *)
theory DsmTcp
  imports DsmNodeTable
begin

text \<open>
  The sending side and the life cycle of \<^verbatim>\<open>src/dsm_tcp.c\<close>: the send and receive loops over a
  non-blocking socket, sending to a node and to all nodes, connecting, and the server socket; and
  \<^verbatim>\<open>dsm_node_table_broadcast\<close> of \<^verbatim>\<open>src/dsm_network.c\<close>, which rests on them. The receiving server
  thread is in \<open>DsmDispatch\<close>.
\<close>

section \<open>Sending on a socket\<close>

text \<open>
  The loop of \<^verbatim>\<open>dsm_tcp_send_raw\<close>, over the results of the successive \<^verbatim>\<open>send\<close> calls: a partial
  send advances, \<^verbatim>\<open>EAGAIN\<close> tries again, any other error gives up. Arguments: the results to come,
  the bytes not sent yet, the bytes sent so far.
\<close>

fun send_loop ::
  "send_result list \<Rightarrow> u8 list \<Rightarrow> u8 list \<Rightarrow> int \<times> u8 list \<times> send_result list" where
  "send_loop rs [] out = (0, out, rs)"
| "send_loop [] buf out = (0, out @ buf, [])"
| "send_loop (Sent k # rs) buf out = send_loop rs (drop k buf) (out @ take k buf)"
| "send_loop (SendAgain # rs) buf out = send_loop rs buf out"
| "send_loop (SendError # rs) buf out = (-1, out, rs)"

definition dsm_tcp_send_raw :: "int \<Rightarrow> u8 list \<Rightarrow> world \<Rightarrow> int \<times> world" where
  "dsm_tcp_send_raw fd data w =
     (case send_loop (send_script w fd) data [] of (ret, out, rs) \<Rightarrow>
        (ret, w\<lparr>sent := (sent w)(fd := sent w fd @ out),
               send_script := (send_script w)(fd := rs)\<rparr>))"

section \<open>Receiving on a socket\<close>

text \<open>
  What a \<^verbatim>\<open>recv\<close> call sees: bytes (as many as fit are taken, the rest stays), an orderly close, no
  data yet, or an error. \<open>None\<close>: the loop of \<^verbatim>\<open>dsm_tcp_recv_raw\<close> is still waiting when the events
  run out.
\<close>

datatype recv_event = Received "u8 list" | RecvClosed | RecvAgain | RecvError

fun recv_loop :: "recv_event list \<Rightarrow> nat \<Rightarrow> u8 list \<Rightarrow> (int \<times> u8 list \<times> recv_event list) option" where
  "recv_loop es 0 got = Some (0, got, es)"
| "recv_loop [] (Suc n) got = None"
| "recv_loop (Received bs # es) (Suc n) got =
     (if bs = [] then Some (-1, got, es)
      else if Suc n < length bs
      then Some (0, got @ take (Suc n) bs, Received (drop (Suc n) bs) # es)
      else recv_loop es (Suc n - length bs) (got @ bs))"
| "recv_loop (RecvClosed # es) (Suc n) got = Some (-1, got, es)"
| "recv_loop (RecvAgain # es) (Suc n) got = recv_loop es (Suc n) got"
| "recv_loop (RecvError # es) (Suc n) got = Some (-1, got, es)"

definition dsm_tcp_recv_raw ::
  "recv_event list \<Rightarrow> nat \<Rightarrow> (int \<times> u8 list \<times> recv_event list) option" where
  "dsm_tcp_recv_raw es len = recv_loop es len []"

section \<open>Messages to nodes\<close>

definition dsm_tcp_send :: "u32 \<Rightarrow> dsm_msg_header \<Rightarrow> u8 list option \<Rightarrow> world \<Rightarrow> int \<times> world" where
  "dsm_tcp_send nid hdr payload w =
     (case dsm_node_table_get nid w of
        None \<Rightarrow> (-1, w)
      | Some i \<Rightarrow>
          (let fd = tcp_fd (node_at i w) in
           if fd < 0 then (-1, w)
           else let (r, w) = dsm_tcp_send_raw fd (put_header hdr) w in
             if r \<noteq> 0 then (-1, w)
             else (case payload of
                     None \<Rightarrow> (0, w)
                   | Some bs \<Rightarrow>
                       if 0 < payload_len hdr
                       then let (r, w) = dsm_tcp_send_raw fd (take (unat (payload_len hdr)) bs) w in
                            (if r \<noteq> 0 then -1 else 0, w)
                       else (0, w))))"

text \<open>One round of the loop of \<^verbatim>\<open>dsm_tcp_broadcast\<close>, on the node in slot \<open>i\<close>.\<close>

definition broadcast_step ::
  "dsm_msg_header \<Rightarrow> u8 list option \<Rightarrow> nat \<Rightarrow> nat \<times> world \<Rightarrow> nat \<times> world" where
  "broadcast_step hdr payload i s =
     (let (success, w) = s; n = node_at i w in
      if node_id n = local_node_id (ctx w) \<or> tcp_fd n < 0 then (success, w)
      else let (r, w) = dsm_tcp_send_raw (tcp_fd n) (put_header (hdr\<lparr>dst_node := node_id n\<rparr>)) w in
        if r \<noteq> 0 then (success, w)
        else (case payload of
                None \<Rightarrow> (Suc success, w)
              | Some bs \<Rightarrow>
                  if payload_len hdr = 0 then (Suc success, w)
                  else let (r, w) = dsm_tcp_send_raw (tcp_fd n) (take (unat (payload_len hdr)) bs) w
                       in (if r = 0 then Suc success else success, w)))"

definition dsm_tcp_broadcast :: "dsm_msg_header \<Rightarrow> u8 list option \<Rightarrow> world \<Rightarrow> int \<times> world" where
  "dsm_tcp_broadcast hdr payload w =
     (case node_table (ctx w) of
        None \<Rightarrow> (-1, w)
      | Some t \<Rightarrow>
          (let (success, w) =
             foldl (\<lambda>s i. broadcast_step hdr payload i s) (0, w) [0..<unat (node_count t)]
           in (if 0 < success then 0 else -1, w)))"

definition dsm_node_table_broadcast :: "world \<Rightarrow> int \<times> world" where
  "dsm_node_table_broadcast w =
     (if local_role (ctx w) \<noteq> DSM_ROLE_MASTER then (-1, w)
      else (case dsm_node_table_serialize DSM_MAX_MESSAGE_SIZE w of
              None \<Rightarrow> (-1, w)
            | Some buf \<Rightarrow>
                (let (hdr, w) = dsm_create_header DSM_MSG_NODE_TABLE 0 (length buf) w;
                     (_, w) = dsm_tcp_broadcast hdr (Some buf) w
                 in (0, w))))"

section \<open>Connections\<close>

text \<open>
  Socket, address, connection and epoll registration; only the last may fail without harm. Whom the
  socket reaches is kept in \<open>connects\<close>.
\<close>

definition dsm_tcp_connect :: "u8 list \<Rightarrow> u16 \<Rightarrow> world \<Rightarrow> int \<times> world" where
  "dsm_tcp_connect a p w =
     (let (sockfd, w) = sys_fd w in
      if sockfd < 0 then (-1, w)
      else let (pton_ok, w) = sys_call w in
        if \<not> pton_ok then (-1, close_fd sockfd w)
        else let (connect_ok, w) = sys_call w in
          if \<not> connect_ok then (-1, close_fd sockfd w)
          else let (_, w) = sys_call (w\<lparr>connects := connects w @ [(sockfd, a, p)]\<rparr>) in (sockfd, w))"

definition dsm_tcp_disconnect :: "u32 \<Rightarrow> world \<Rightarrow> world" where
  "dsm_tcp_disconnect nid w =
     (case dsm_node_table_get nid w of
        None \<Rightarrow> w
      | Some i \<Rightarrow>
          if tcp_fd (node_at i w) < 0 then w
          else update_node i (\<lambda>n. n\<lparr>tcp_fd := -1, nstate := DSM_NODE_STATE_DISCONNECTED\<rparr>)
                 (close_fd (tcp_fd (node_at i w)) w))"

section \<open>The server socket\<close>

definition dsm_tcp_init :: "world \<Rightarrow> int \<times> world" where
  "dsm_tcp_init w =
     (let (fd, w) = sys_fd w; w = w\<lparr>g_tcp_listen_fd := fd\<rparr> in
      if fd < 0 then (-1, w)
      else let (bind_ok, w) = sys_call w in
        if \<not> bind_ok then (-1, (close_fd fd w)\<lparr>g_tcp_listen_fd := -1\<rparr>)
        else let (listen_ok, w) = sys_call w in
          if \<not> listen_ok then (-1, (close_fd fd w)\<lparr>g_tcp_listen_fd := -1\<rparr>)
          else let (efd, w) = sys_fd w; w = w\<lparr>g_epoll_fd := efd\<rparr> in
            if efd < 0 then (-1, (close_fd fd w)\<lparr>g_tcp_listen_fd := -1\<rparr>)
            else let (ctl_ok, w) = sys_call w in
              if \<not> ctl_ok
              then (-1, (close_fd fd (close_fd efd w))\<lparr>g_epoll_fd := -1, g_tcp_listen_fd := -1\<rparr>)
              else (0, w\<lparr>ctx := (ctx w)\<lparr>tcp_listen_fd := fd, epoll_fd := efd\<rparr>\<rparr>))"

definition dsm_tcp_shutdown :: "world \<Rightarrow> world" where
  "dsm_tcp_shutdown w =
     (let w = (case node_table (ctx w) of
                 None \<Rightarrow> w
               | Some _ \<Rightarrow>
                   let (hdr, w) = dsm_create_header DSM_MSG_SHUTDOWN 0 0 w
                   in snd (dsm_tcp_broadcast hdr None w));
          w = (if 0 \<le> g_epoll_fd w then (close_fd (g_epoll_fd w) w)\<lparr>g_epoll_fd := -1\<rparr> else w);
          w = (if 0 \<le> g_tcp_listen_fd w
               then (close_fd (g_tcp_listen_fd w) w)\<lparr>g_tcp_listen_fd := -1\<rparr> else w)
      in w\<lparr>ctx := (ctx w)\<lparr>tcp_listen_fd := -1, epoll_fd := -1\<rparr>\<rparr>)"

text \<open>Starting and stopping the server thread: \<open>g_tcp_running\<close> says whether one was created.\<close>

definition dsm_tcp_start_server :: "world \<Rightarrow> int \<times> world" where
  "dsm_tcp_start_server w =
     (if g_tcp_running w then (0, w)
      else let w = w\<lparr>g_tcp_running := True\<rparr>; (ok, w) = sys_call w in
        if \<not> ok then (-1, w\<lparr>g_tcp_running := False\<rparr>) else (0, w))"

definition dsm_tcp_stop_server :: "world \<Rightarrow> world" where
  "dsm_tcp_stop_server w = (if \<not> g_tcp_running w then w else w\<lparr>g_tcp_running := False\<rparr>)"

section \<open>The loops\<close>

text \<open>
  What the send loop has put on the socket is a prefix of the data, and all of it exactly when the
  loop reports success.
\<close>

lemma send_loop_prefix:
  "send_loop rs buf out = (r, out', rs') \<Longrightarrow>
     \<exists>k \<le> length buf. out' = out @ take k buf \<and> (r = 0 \<longleftrightarrow> k = length buf) \<and> (r = 0 \<or> r = -1)"
proof (induction rs buf out arbitrary: r out' rs' rule: send_loop.induct)
  case (3 k rs b buf out)
  then obtain j where j: "j \<le> length (drop k (b # buf))" "out' = (out @ take k (b # buf)) @ take j (drop k (b # buf))"
      "r = 0 \<longleftrightarrow> j = length (drop k (b # buf))" "r = 0 \<or> r = -1"
    by fastforce
  show ?case
  proof (cases "k \<le> length (b # buf)")
    case True
    with j show ?thesis
      by (intro exI [of _ "k + j"]) (auto simp: take_add)
  next
    case False
    with j show ?thesis
      by (intro exI [of _ "length (b # buf)"]) simp
  qed
next
  case (2 b buf out)
  then show ?case
    by (auto intro: exI [of _ "length (b # buf)"])
qed (auto intro: exI [of _ 0])

text \<open>Without a hard error in the script the loop ends with success.\<close>

lemma send_loop_success: "SendError \<notin> set rs \<Longrightarrow> fst (send_loop rs buf out) = 0"
  by (induction rs buf out rule: send_loop.induct) auto

lemma send_raw_frame [simp, frame_simps]:
  "ctx (snd (dsm_tcp_send_raw fd data w)) = ctx w"
  "wakes (snd (dsm_tcp_send_raw fd data w)) = wakes w"
  "vm (snd (dsm_tcp_send_raw fd data w)) = vm w"
  "mem (snd (dsm_tcp_send_raw fd data w)) = mem w"
  "g_ownership_table (snd (dsm_tcp_send_raw fd data w)) = g_ownership_table w"
  "res_script (snd (dsm_tcp_send_raw fd data w)) = res_script w"
  "next_region_ptr (snd (dsm_tcp_send_raw fd data w)) = next_region_ptr w"
  by (simp_all add: dsm_tcp_send_raw_def split: prod.splits)

lemma send_raw_other:
  "fd' \<noteq> fd \<Longrightarrow> sent (snd (dsm_tcp_send_raw fd data w)) fd' = sent w fd'"
  by (simp add: dsm_tcp_send_raw_def split: prod.splits)

lemma send_raw_clear:
  "send_script w fd = [] \<Longrightarrow>
   dsm_tcp_send_raw fd data w = (0, w\<lparr>sent := (sent w)(fd := sent w fd @ data)\<rparr>)"
  by (cases data) (simp_all add: dsm_tcp_send_raw_def fun_upd_idem)

lemma tcp_send_frame [simp, frame_simps]:
  "ctx (snd (dsm_tcp_send nid hdr payload w)) = ctx w"
  "wakes (snd (dsm_tcp_send nid hdr payload w)) = wakes w"
  "vm (snd (dsm_tcp_send nid hdr payload w)) = vm w"
  "mem (snd (dsm_tcp_send nid hdr payload w)) = mem w"
  "g_ownership_table (snd (dsm_tcp_send nid hdr payload w)) = g_ownership_table w"
  "res_script (snd (dsm_tcp_send nid hdr payload w)) = res_script w"
  by (simp_all add: dsm_tcp_send_def case_prod_beta Let_def split: option.splits)


text \<open>A message to a node whose socket takes what it is given.\<close>

lemma tcp_send_clear:
  assumes "dsm_node_table_get n w = Some i" "0 \<le> tcp_fd (node_at i w)"
    and "send_script w (tcp_fd (node_at i w)) = []"
  shows "dsm_tcp_send n hdr payload w =
    (0, w\<lparr>sent := (sent w)(tcp_fd (node_at i w) := sent w (tcp_fd (node_at i w)) @ put_header hdr @
      (case payload of None \<Rightarrow> [] | Some bs \<Rightarrow> take (unat (payload_len hdr)) bs))\<rparr>)"
  using assms
  by (auto simp: dsm_tcp_send_def Let_def send_raw_clear unat_eq_zero word_gt_0 split: option.splits)

lemma header_eq:
  "fst (dsm_create_header ty d n w) =
     \<lparr>magic = DSM_MAGIC, msg_type = msg_code ty, src_node = local_node_id (ctx w), dst_node = d,
      hdr_seq_num = seq_num (ctx w), payload_len = word_of_nat n\<rparr>"
  by (simp add: dsm_create_header_def dsm_get_next_seq_def)

lemma node_get_frame:
  "node_table (ctx w') = node_table (ctx w) \<Longrightarrow> dsm_node_table_get n w' = dsm_node_table_get n w"
  "node_table (ctx w') = node_table (ctx w) \<Longrightarrow> node_at i w' = node_at i w"
  by (simp_all add: dsm_node_table_get_def node_at_def)

section \<open>Properties\<close>

text \<open>
  C34. \<^verbatim>\<open>dsm_tcp_send_raw\<close> delivers: whatever mixture of partial sends, retries and errors the socket
  produces, the bytes put on it are a prefix of the data and nothing goes to another socket; the
  result is 0 exactly when all of the data was put, and it is 0 whenever no hard error occurs.
\<close>

theorem send_raw_correct:
  "case dsm_tcp_send_raw fd data w of (r, w') \<Rightarrow>
     (\<exists>k. sent w' fd = sent w fd @ take k data) \<and> (r = 0 \<or> r = -1) \<and>
     (r = 0 \<longleftrightarrow> sent w' fd = sent w fd @ data) \<and>
     (SendError \<notin> set (send_script w fd) \<longrightarrow> r = 0) \<and>
     (\<forall>fd'. fd' \<noteq> fd \<longrightarrow> sent w' fd' = sent w fd')"
proof -
  obtain r out rs where eq: "send_loop (send_script w fd) data [] = (r, out, rs)"
    by (cases "send_loop (send_script w fd) data []") auto
  moreover have "SendError \<notin> set (send_script w fd) \<longrightarrow> r = 0"
    using send_loop_success [of "send_script w fd" data "[]"] eq by auto
  moreover obtain k where "k \<le> length data" "out = take k data" "r = 0 \<longleftrightarrow> k = length data" "r = 0 \<or> r = -1"
    using send_loop_prefix [OF eq] by auto
  moreover have "take k data = data \<longleftrightarrow> k = length data" if "k \<le> length data"
    using that by (metis length_take min_absorb2 take_all_iff)
  ultimately show ?thesis
    by (auto simp: dsm_tcp_send_raw_def)
qed

theorem send_raw_correct_witness:
  "sent (snd (dsm_tcp_send_raw 5 [1, 2, 3]
     (boot_world\<lparr>send_script := (\<lambda>_. [Sent 1, SendAgain, Sent 1])\<rparr>))) 5 = [1, 2, 3]"
proof -
  let ?w = "boot_world\<lparr>send_script := (\<lambda>_. [Sent 1, SendAgain, Sent 1])\<rparr>"
  have "SendError \<notin> set (send_script ?w 5)" "sent ?w 5 = []"
    by (simp_all add: boot_world_def)
  then show ?thesis
    using send_raw_correct [where fd = 5 and data = "[1, 2, 3]" and w = ?w] by (auto split: prod.splits)
qed

text \<open>The bytes a list of receive events carries.\<close>

fun event_bytes :: "recv_event list \<Rightarrow> u8 list" where
  "event_bytes [] = []"
| "event_bytes (Received bs # es) = bs @ event_bytes es"
| "event_bytes (_ # es) = event_bytes es"

lemma recv_loop_correct:
  "recv_loop es n got = Some (r, got', es') \<Longrightarrow>
     got @ event_bytes es = got' @ event_bytes es' \<and>
     (r = 0 \<longrightarrow> length got' = length got + n) \<and> (r \<noteq> 0 \<longrightarrow> r = -1 \<and> length got' < length got + n)"
proof (induction es n got arbitrary: r got' es' rule: recv_loop.induct)
  case (3 bs es n got)
  consider "bs = []" | "bs \<noteq> []" "Suc n < length bs" | "bs \<noteq> []" "\<not> Suc n < length bs"
    by blast
  then show ?case
  proof cases
    case 1
    with 3 show ?thesis by auto
  next
    case 2
    with "3.prems" show ?thesis by auto
  next
    case 3
    have l: "0 < length bs" "length bs \<le> Suc n"
      using 3 by auto
    from 3 "3.prems" have "recv_loop es (Suc n - length bs) (got @ bs) = Some (r, got', es')"
      by simp
    from "3.IH" [OF 3 this] l show ?thesis by auto
  qed
qed auto

text \<open>
  \<^verbatim>\<open>dsm_tcp_recv_raw\<close> loses nothing: when it returns 0 it has taken exactly the requested number
  of bytes from the front of the stream, in order, and the rest is still there; when it returns -1
  it has taken fewer.
\<close>

lemma recv_raw_correct:
  assumes "dsm_tcp_recv_raw es len = Some (r, got, es')"
  shows "event_bytes es = got @ event_bytes es' \<and> (r = 0 \<or> r = -1) \<and>
    (r = 0 \<longrightarrow> length got = len) \<and> (r = -1 \<longrightarrow> length got < len)"
proof -
  have "event_bytes es = got @ event_bytes es' \<and> (r = 0 \<longrightarrow> length got = len) \<and>
      (r \<noteq> 0 \<longrightarrow> r = -1 \<and> length got < len)"
    using recv_loop_correct [OF assms [unfolded dsm_tcp_recv_raw_def]]
    unfolding append_Nil list.size add_0 by blast
  then show ?thesis
    by (cases "r = 0") simp_all
qed

text \<open>What one node gets from a broadcast when its socket takes everything.\<close>

definition broadcast_bytes :: "dsm_msg_header \<Rightarrow> u8 list option \<Rightarrow> world \<Rightarrow> nat \<Rightarrow> u8 list" where
  "broadcast_bytes hdr payload w i =
     (let n = node_at i w in
      if node_id n = local_node_id (ctx w) \<or> tcp_fd n < 0 then []
      else put_header (hdr\<lparr>dst_node := node_id n\<rparr>) @
        (case payload of None \<Rightarrow> [] | Some bs \<Rightarrow> take (unat (payload_len hdr)) bs))"

lemma put_header_nonempty [simp]: "put_header h \<noteq> []"
proof
  assume "put_header h = []"
  then have "length (put_header h) = 0" by simp
  then show False by (simp only: length_put_header)
qed

lemma broadcast_bytes_empty:
  "broadcast_bytes hdr payload w i = [] \<longleftrightarrow>
     node_id (node_at i w) = local_node_id (ctx w) \<or> tcp_fd (node_at i w) < 0"
  by (simp add: broadcast_bytes_def Let_def put_header_nonempty)

lemma broadcast_step_clear:
  assumes "\<And>fd. send_script w fd = []"
  shows "broadcast_step hdr payload i (k, w) =
    ((if broadcast_bytes hdr payload w i = [] then k else Suc k),
     w\<lparr>sent := (sent w)(tcp_fd (node_at i w) :=
         sent w (tcp_fd (node_at i w)) @ broadcast_bytes hdr payload w i)\<rparr>)"
  using assms
  by (auto simp: broadcast_step_def Let_def send_raw_clear broadcast_bytes_empty
      broadcast_bytes_def unat_eq_zero split: option.splits)

lemma broadcast_bytes_sent [simp]:
  "broadcast_bytes hdr payload (w\<lparr>sent := s\<rparr>) i = broadcast_bytes hdr payload w i"
  by (simp add: broadcast_bytes_def node_at_def)

lemma broadcast_loop_clear:
  assumes "\<And>fd. send_script w fd = []"
  shows "sent (snd (foldl (\<lambda>s i. broadcast_step hdr payload i s) (k, w) is)) fd =
      sent w fd @ concat (map (\<lambda>i. if tcp_fd (node_at i w) = fd
        then broadcast_bytes hdr payload w i else []) is) \<and>
    fst (foldl (\<lambda>s i. broadcast_step hdr payload i s) (k, w) is) =
      k + length (filter (\<lambda>i. broadcast_bytes hdr payload w i \<noteq> []) is)"
  using assms
proof (induction "is" arbitrary: k w)
  case Nil
  then show ?case by simp
next
  case (Cons i "is")
  let ?w = "w\<lparr>sent := (sent w)(tcp_fd (node_at i w) :=
         sent w (tcp_fd (node_at i w)) @ broadcast_bytes hdr payload w i)\<rparr>"
  have "node_at j ?w = node_at j w" for j
    by (simp add: node_at_def)
  moreover have "send_script ?w f = []" for f
    using Cons.prems by simp
  ultimately show ?case
    using Cons.IH [of ?w] Cons.prems by (simp add: broadcast_step_clear cong: if_cong)
qed

text \<open>The socket of the node that was added last, when no other node has the same one.\<close>

lemma broadcast_to_last:
  assumes tab: "node_table (ctx w) = Some t" "table_ok t" "live_nodes t = ns @ [n]"
    and clear: "\<And>fd. send_script w fd = []"
    and n: "0 \<le> tcp_fd n" "node_id n \<noteq> local_node_id (ctx w)" "tcp_fd n \<notin> tcp_fd ` set ns"
    and len: "unat (payload_len hdr) = length bs"
  shows "sent (snd (dsm_tcp_broadcast hdr (Some bs) w)) (tcp_fd n) =
    sent w (tcp_fd n) @ put_header (hdr\<lparr>dst_node := node_id n\<rparr>) @ bs"
proof -
  let ?f = "\<lambda>i. if tcp_fd (node_at i w) = tcp_fd n then broadcast_bytes hdr (Some bs) w i else []"
  have cnt: "unat (node_count t) = Suc (length ns)"
    using length_live_nodes [OF tab(2)] tab(3) by simp
  have at: "node_at i w = (ns @ [n]) ! i" if "i < Suc (length ns)" for i
    using live_nodes_nth [of i t] that tab(1,3) cnt by (simp add: node_at_def)
  have "?f i = []" if "i < length ns" for i
  proof -
    have "tcp_fd (ns ! i) \<noteq> tcp_fd n"
      using n(3) nth_mem [OF that] by (metis imageI)
    then show ?thesis
      using at [of i] that by (simp add: nth_append)
  qed
  then have "concat (map ?f [0..<length ns]) = []"
    by simp
  moreover have "?f (length ns) = put_header (hdr\<lparr>dst_node := node_id n\<rparr>) @ bs"
    using at [of "length ns"] n(1,2) len by (simp add: broadcast_bytes_def Let_def)
  ultimately have "concat (map ?f [0..<unat (node_count t)]) = put_header (hdr\<lparr>dst_node := node_id n\<rparr>) @ bs"
    unfolding cnt by simp
  then show ?thesis
    using broadcast_loop_clear [OF clear, of hdr "Some bs" 0 "[0..<unat (node_count t)]" "tcp_fd n"] tab(1)
    by (simp add: dsm_tcp_broadcast_def case_prod_beta Let_def)
qed

text \<open>
  C33. A broadcast reaches every connected node once: with sockets that take what they are given,
  each socket receives, for every node of the table behind it other than the local one, one header
  addressed to that node followed by the payload; and the result is 0 exactly when there was such a
  node.
\<close>

theorem broadcast_reaches_all:
  assumes tab: "node_table (ctx w) = Some t" and clear: "\<And>fd. send_script w fd = []"
  shows "(\<forall>fd. sent (snd (dsm_tcp_broadcast hdr payload w)) fd =
      sent w fd @ concat (map (\<lambda>i. if tcp_fd (nodes t ! i) = fd
        then broadcast_bytes hdr payload w i else []) [0..<unat (node_count t)])) \<and>
    (fst (dsm_tcp_broadcast hdr payload w) = 0 \<longleftrightarrow>
      (\<exists>i < unat (node_count t). node_id (nodes t ! i) \<noteq> local_node_id (ctx w) \<and>
        0 \<le> tcp_fd (nodes t ! i)))"
proof -
  let ?run = "foldl (\<lambda>s i. broadcast_step hdr payload i s) (0, w) [0..<unat (node_count t)]"
  have at: "node_at i w = nodes t ! i" for i
    using tab by (simp add: node_at_def)
  have run: "dsm_tcp_broadcast hdr payload w = (if 0 < fst ?run then 0 else -1, snd ?run)"
    using tab by (simp add: dsm_tcp_broadcast_def case_prod_beta Let_def)
  have "sent (snd ?run) fd = sent w fd @ concat (map (\<lambda>i. if tcp_fd (nodes t ! i) = fd
        then broadcast_bytes hdr payload w i else []) [0..<unat (node_count t)])" for fd
    using broadcast_loop_clear [OF clear, of hdr payload 0 "[0..<unat (node_count t)]" fd]
    by (simp add: at)
  moreover have "0 < fst ?run \<longleftrightarrow> (\<exists>i < unat (node_count t).
      node_id (nodes t ! i) \<noteq> local_node_id (ctx w) \<and> 0 \<le> tcp_fd (nodes t ! i))"
    using broadcast_loop_clear [OF clear, of hdr payload 0 "[0..<unat (node_count t)]"]
    by (auto simp: at filter_empty_conv broadcast_bytes_empty not_less)
  ultimately show ?thesis
    by (simp add: run)
qed

theorem broadcast_reaches_all_witness:
  "fst (dsm_tcp_broadcast (fst (dsm_create_header DSM_MSG_SHUTDOWN 0 0 demo_nodes)) None demo_nodes) = 0"
proof -
  obtain t where t: "node_table (ctx demo_nodes) = Some t"
    using demo_nodes_table by blast
  have clear: "send_script demo_nodes fd = []" for fd
    by simp
  have "case node_table (ctx demo_nodes) of None \<Rightarrow> False | Some t \<Rightarrow>
      1 < unat (node_count t) \<and> node_id (nodes t ! 1) \<noteq> 0 \<and> 0 \<le> tcp_fd (nodes t ! 1)"
    by code_simp
  then show ?thesis
    using broadcast_reaches_all [OF t clear] by (auto simp: t)
qed

end
