(* ===== verification/DsmSync.thy ===== *)
theory DsmSync
  imports DsmTcp
begin

text \<open>
  Locks and barriers, \<^verbatim>\<open>src/dsm_sync.c\<close>. What the master does inside a lock's or the barrier's mutex is a
  function on the \<^verbatim>\<open>dsm_lock_t\<close> or \<^verbatim>\<open>dsm_barrier_t\<close> alone; the handlers put it back into the context
  and send the messages. A call that can block is split at its waits: the part up to the first wait,
  and the test made each time \<^verbatim>\<open>pthread_cond_wait\<close> returns. The locale \<open>lock_manager\<close> is the contract
  of a queued lock; the cluster of \<open>DsmCluster\<close> and the fairness property rest on it.
\<close>

section \<open>Locks on the master\<close>

text \<open>
  The critical section of \<^verbatim>\<open>dsm_sync_handle_lock_request\<close>, with the node to send a grant to, if any.
\<close>

definition lock_request :: "u32 \<Rightarrow> dsm_lock \<Rightarrow> dsm_lock \<times> u32 option" where
  "lock_request from l =
     (if \<not> locked l then (l\<lparr>locked := True, holder_id := from\<rparr>, Some from)
      else if unat (waiter_count l) < DSM_MAX_NODES
      then (l\<lparr>waiters := (waiters l)[unat (waiter_count l) := from],
              waiter_count := waiter_count l + 1\<rparr>, None)
      else (l, None))"

text \<open>The critical section of \<^verbatim>\<open>dsm_sync_handle_lock_release\<close>; \<open>None\<close> is its \<^verbatim>\<open>-1\<close>.\<close>

definition lock_release :: "u32 \<Rightarrow> dsm_lock \<Rightarrow> (dsm_lock \<times> u32 option) option" where
  "lock_release from l =
     (if \<not> locked l \<or> holder_id l \<noteq> from then None
      else if 0 < waiter_count l
      then Some (l\<lparr>waiters := shift_down (waiters l) 0 (unat (waiter_count l)),
                   waiter_count := waiter_count l - 1, holder_id := waiters l ! 0\<rparr>,
                 Some (waiters l ! 0))
      else Some (l\<lparr>locked := False, holder_id := 0\<rparr>, None))"

definition lock_at :: "u32 \<Rightarrow> world \<Rightarrow> dsm_lock" where
  "lock_at lid w = locks (ctx w) ! unat lid"

definition put_lock :: "u32 \<Rightarrow> dsm_lock \<Rightarrow> world \<Rightarrow> world" where
  "put_lock lid l w = w\<lparr>ctx := (ctx w)\<lparr>locks := (locks (ctx w))[unat lid := l]\<rparr>\<rparr>"

definition send_grant :: "u32 \<Rightarrow> u32 \<Rightarrow> world \<Rightarrow> world" where
  "send_grant n lid w =
     (let (hdr, w) = dsm_create_header DSM_MSG_LOCK_GRANT n sizeof_lock w
      in snd (dsm_tcp_send n hdr (Some (put32 lid)) w))"

definition dsm_sync_handle_lock_request :: "u32 \<Rightarrow> u32 \<Rightarrow> world \<Rightarrow> int \<times> world" where
  "dsm_sync_handle_lock_request from lid w =
     (if DSM_MAX_LOCKS \<le> unat lid then (-1, w)
      else let (l, grant) = lock_request from (lock_at lid w); w = put_lock lid l w in
        (0, case grant of None \<Rightarrow> w | Some n \<Rightarrow> send_grant n lid w))"

definition dsm_sync_handle_lock_release :: "u32 \<Rightarrow> u32 \<Rightarrow> world \<Rightarrow> int \<times> world" where
  "dsm_sync_handle_lock_release from lid w =
     (if DSM_MAX_LOCKS \<le> unat lid then (-1, w)
      else (case lock_release from (lock_at lid w) of
              None \<Rightarrow> (-1, w)
            | Some (l, grant) \<Rightarrow>
                (let w = put_lock lid l w in
                 (0, case grant of None \<Rightarrow> w | Some n \<Rightarrow> send_grant n lid w))))"

section \<open>The barrier on the master\<close>

text \<open>
  The critical section of \<^verbatim>\<open>dsm_sync_handle_barrier_enter\<close>: the write into \<^verbatim>\<open>arrived\<close> is not checked
  by the code; the result is the new barrier and, when it is released, the nodes that had arrived.
\<close>

definition barrier_enter ::
  "u32 \<Rightarrow> u32 \<Rightarrow> dsm_barrier \<Rightarrow> crash + (dsm_barrier \<times> u32 list option)" where
  "barrier_enter from expected b =
     (if length (arrived b) \<le> unat (arrived_count b) then Inl OutOfBounds
      else let b = b\<lparr>arrived := (arrived b)[unat (arrived_count b) := from],
                     arrived_count := arrived_count b + 1\<rparr> in
        if expected \<le> arrived_count b
        then Inr (b\<lparr>arrived_count := 0, barrier_id := barrier_id b + 1\<rparr>,
                  Some (map (\<lambda>i. arrived b ! i) [0..<unat (arrived_count b)]))
        else Inr (b, None))"

definition release_step :: "dsm_msg_header \<Rightarrow> world \<Rightarrow> u32 \<Rightarrow> world" where
  "release_step hdr w nid =
     (if nid \<noteq> local_node_id (ctx w)
      then snd (dsm_tcp_send nid (hdr\<lparr>dst_node := nid\<rparr>) None w) else w)"

definition dsm_sync_handle_barrier_enter :: "u32 \<Rightarrow> world \<Rightarrow> crash + world" where
  "dsm_sync_handle_barrier_enter from w =
     (case barrier_enter from (dsm_node_table_count w) (barrier (ctx w)) of
        Inl e \<Rightarrow> Inl e
      | Inr (b, None) \<Rightarrow> Inr (w\<lparr>ctx := (ctx w)\<lparr>barrier := b\<rparr>\<rparr>)
      | Inr (b, Some ns) \<Rightarrow>
          (let (hdr, w) = dsm_create_header DSM_MSG_BARRIER_RELEASE 0 0 w;
               w = foldl (release_step hdr) w ns
           in Inr (wake BroadcastBarrier (w\<lparr>ctx := (ctx w)\<lparr>barrier := b\<rparr>\<rparr>))))"

section \<open>Initialisation\<close>

text \<open>One round of the loop over the locks: the fields, then the mutex and the condition variable.\<close>

definition lock_init :: "nat \<Rightarrow> dsm_lock \<Rightarrow> dsm_lock" where
  "lock_init i l = l\<lparr>lock_id := word_of_nat i, holder_id := 0, locked := False, waiter_count := 0\<rparr>"

fun init_locks :: "nat list \<Rightarrow> world \<Rightarrow> bool \<times> world" where
  "init_locks [] w = (True, w)"
| "init_locks (i # is) w =
     (let w = w\<lparr>ctx := (ctx w)\<lparr>locks := (locks (ctx w))[i := lock_init i (locks (ctx w) ! i)]\<rparr>\<rparr>;
          (ok, w) = sys_calls 2 w
      in if ok then init_locks is w else (False, w))"

definition dsm_sync_init :: "world \<Rightarrow> int \<times> world" where
  "dsm_sync_init w =
     (let (ok, w) = init_locks [0..<DSM_MAX_LOCKS] w in
      if \<not> ok then (-1, w)
      else let b = (barrier (ctx w))\<lparr>barrier_id := 0, total_nodes := 0, arrived_count := 0\<rparr>;
               (ok, w) = sys_calls 2 (w\<lparr>ctx := (ctx w)\<lparr>barrier := b\<rparr>\<rparr>)
        in (if ok then 0 else -1, w))"

text \<open>Only mutexes and condition variables are destroyed, which the model does not hold.\<close>

definition dsm_sync_shutdown :: "world \<Rightarrow> world" where
  "dsm_sync_shutdown w = w"

section \<open>The public operations\<close>

datatype progress = Returned | Blocked

text \<open>The socket of the master: the one of the context, else that of a master in the table.\<close>

definition is_master_at :: "world \<Rightarrow> nat \<Rightarrow> bool" where
  "is_master_at w i =
     (case dsm_node_table_get (word_of_nat i + 1) w of
        None \<Rightarrow> False
      | Some k \<Rightarrow> role (node_at k w) = DSM_ROLE_MASTER \<and> 0 \<le> tcp_fd (node_at k w))"

definition master_socket :: "world \<Rightarrow> int" where
  "master_socket w =
     (if 0 \<le> master_fd (ctx w) then master_fd (ctx w)
      else (case List.find (is_master_at w) [0..<unat (dsm_node_table_count w)] of
              None \<Rightarrow> master_fd (ctx w)
            | Some i \<Rightarrow> (case dsm_node_table_get (word_of_nat i + 1) w of
                           None \<Rightarrow> master_fd (ctx w) | Some k \<Rightarrow> tcp_fd (node_at k w))))"

text \<open>
  What a thread of \<^verbatim>\<open>dsm_lock\<close> does with the mutex each time it looks at the lock: on the master it waits
  (\<open>None\<close>) or takes the lock, on a worker it waits or returns. \<open>lock_granted\<close> is what the arrival of a
  \<^verbatim>\<open>LOCK_GRANT\<close> does to the record of a worker, \<open>lock_cleared\<close> what \<^verbatim>\<open>dsm_unlock\<close> does to it.
\<close>

definition master_test :: "u32 \<Rightarrow> dsm_lock \<Rightarrow> dsm_lock option" where
  "master_test me l =
     (if locked l \<and> holder_id l \<noteq> me then None else Some (l\<lparr>locked := True, holder_id := me\<rparr>))"

definition worker_test :: "u32 \<Rightarrow> dsm_lock \<Rightarrow> bool" where
  "worker_test me l \<longleftrightarrow> \<not> (\<not> locked l \<or> holder_id l \<noteq> me)"

definition lock_granted :: "u32 \<Rightarrow> dsm_lock \<Rightarrow> dsm_lock" where
  "lock_granted me l = l\<lparr>locked := True, holder_id := me\<rparr>"

definition lock_cleared :: "dsm_lock \<Rightarrow> dsm_lock" where
  "lock_cleared l = l\<lparr>locked := False, holder_id := 0\<rparr>"

definition dsm_lock_resume :: "u32 \<Rightarrow> world \<Rightarrow> progress \<times> world" where
  "dsm_lock_resume lid w =
     (if local_role (ctx w) = DSM_ROLE_MASTER
      then (case master_test (local_node_id (ctx w)) (lock_at lid w) of
              None \<Rightarrow> (Blocked, w)
            | Some l \<Rightarrow> (Returned, put_lock lid l w))
      else (if worker_test (local_node_id (ctx w)) (lock_at lid w) then Returned else Blocked, w))"

definition dsm_lock_call :: "int \<Rightarrow> world \<Rightarrow> progress \<times> world" where
  "dsm_lock_call k w =
     (if k < 0 \<or> int DSM_MAX_LOCKS \<le> k then (Returned, w)
      else let lid = word_of_int k in
        if local_role (ctx w) = DSM_ROLE_MASTER then dsm_lock_resume lid w
        else let (hdr, w) = dsm_create_header DSM_MSG_LOCK_REQUEST (master_id (ctx w)) sizeof_lock w;
                 fd = master_socket w
          in if fd < 0 then (Returned, w)
             else let (_, w) = dsm_tcp_send_raw fd (put_header hdr) w;
                      (_, w) = dsm_tcp_send_raw fd (put32 lid) w
               in dsm_lock_resume lid w)"

definition dsm_unlock :: "int \<Rightarrow> world \<Rightarrow> world" where
  "dsm_unlock k w =
     (if k < 0 \<or> int DSM_MAX_LOCKS \<le> k then w
      else let lid = word_of_int k in
        if local_role (ctx w) = DSM_ROLE_MASTER
        then wake (SignalLock (unat lid))
               (snd (dsm_sync_handle_lock_release (local_node_id (ctx w)) lid w))
        else let (hdr, w) = dsm_create_header DSM_MSG_LOCK_RELEASE (master_id (ctx w)) sizeof_lock w;
                 fd = master_socket w;
                 w = (if 0 \<le> fd
                      then let (_, w) = dsm_tcp_send_raw fd (put_header hdr) w
                           in snd (dsm_tcp_send_raw fd (put32 lid) w)
                      else w)
          in put_lock lid (lock_cleared (lock_at lid w)) w)"

text \<open>
  \<^verbatim>\<open>dsm_barrier\<close> up to the point where it takes the barrier's mutex to wait; then, with the mutex, the
  reading of the current id and the first test; then the test after each wake-up. The worker waits
  with no condition: once, and until it is woken.
\<close>

definition dsm_barrier_arrive :: "world \<Rightarrow> crash + world" where
  "dsm_barrier_arrive w =
     (if local_role (ctx w) = DSM_ROLE_MASTER
      then dsm_sync_handle_barrier_enter (local_node_id (ctx w)) w
      else let (hdr, w) = dsm_create_header DSM_MSG_BARRIER_ENTER (master_id (ctx w)) 0 w;
               fd = master_socket w
        in Inr (if 0 \<le> fd then snd (dsm_tcp_send_raw fd (put_header hdr) w) else w))"

definition barrier_blocked :: "u32 \<Rightarrow> dsm_barrier \<Rightarrow> bool" where
  "barrier_blocked current b \<longleftrightarrow> barrier_id b = current \<and> 0 < arrived_count b"

definition dsm_barrier_test :: "u32 \<Rightarrow> world \<Rightarrow> progress" where
  "dsm_barrier_test current w =
     (if local_role (ctx w) = DSM_ROLE_MASTER
      then (if barrier_blocked current (barrier (ctx w)) then Blocked else Returned)
      else Returned)"

definition dsm_barrier_wait :: "world \<Rightarrow> progress \<times> u32" where
  "dsm_barrier_wait w =
     (let current = barrier_id (barrier (ctx w)) in
      if local_role (ctx w) = DSM_ROLE_MASTER then (dsm_barrier_test current w, current)
      else (Blocked, current))"

section \<open>The contract of a queued lock\<close>

locale lock_manager =
  fixes inv :: "'s \<Rightarrow> bool"
    and holder :: "'s \<Rightarrow> 'n option"
    and queue :: "'s \<Rightarrow> 'n list"
    and request :: "'n \<Rightarrow> 's \<Rightarrow> 's \<times> 'n option"
    and release :: "'n \<Rightarrow> 's \<Rightarrow> ('s \<times> 'n option) option"
    and space :: nat
  assumes request_inv: "inv s \<Longrightarrow> inv (fst (request n s))"
    and release_inv: "inv s \<Longrightarrow> release n s = Some (s', g) \<Longrightarrow> inv s'"
    and free_empty: "inv s \<Longrightarrow> holder s = None \<Longrightarrow> queue s = []"
    and request_free: "inv s \<Longrightarrow> holder s = None \<Longrightarrow>
      snd (request n s) = Some n \<and> holder (fst (request n s)) = Some n \<and>
      queue (fst (request n s)) = queue s"
    and request_held: "inv s \<Longrightarrow> holder s = Some h \<Longrightarrow>
      snd (request n s) = None \<and> holder (fst (request n s)) = Some h \<and>
      queue (fst (request n s)) = (if length (queue s) < space then queue s @ [n] else queue s)"
    and release_refused: "inv s \<Longrightarrow> holder s \<noteq> Some n \<Longrightarrow> release n s = None"
    and release_last: "inv s \<Longrightarrow> holder s = Some n \<Longrightarrow> queue s = [] \<Longrightarrow>
      \<exists>s'. release n s = Some (s', None) \<and> holder s' = None \<and> queue s' = []"
    and release_next: "inv s \<Longrightarrow> holder s = Some n \<Longrightarrow> queue s = m # q \<Longrightarrow>
      \<exists>s'. release n s = Some (s', Some m) \<and> holder s' = Some m \<and> queue s' = q"
begin

text \<open>A grant always goes to the node that holds the lock afterwards.\<close>

lemma request_grant:
  assumes "inv s" "request n s = (s', Some m)"
  shows "m = n \<and> holder s = None \<and> holder s' = Some n"
  using assms request_free [of s n] request_held [of s _ n] by (cases "holder s") auto

lemma release_grant:
  assumes "inv s" "release n s = Some (s', g)"
  shows "holder s = Some n \<and> holder s' = g"
proof -
  have h: "holder s = Some n"
    using assms release_refused [of s n] by fastforce
  then show ?thesis
    using assms release_last [of s n] release_next [of s n] by (cases "queue s") fastforce+
qed

lemma release_queue:
  assumes "inv s" "release n s = Some (s', g)"
  shows "queue s' = tl (queue s) \<and> g = (case queue s of [] \<Rightarrow> None | m # q \<Rightarrow> Some m)"
  using assms release_grant [OF assms] release_last [of s n] release_next [of s n]
  by (cases "queue s") fastforce+

text \<open>
  First come, first served: after \<open>k + 1\<close> releases by whoever holds the lock, it is held by the node
  that was at position \<open>k\<close> of the queue.
\<close>

lemma hand_over:
  assumes "inv s" "holder s \<noteq> None" "k < length (queue s)"
  shows "inv (((\<lambda>s. fst (the (release (the (holder s)) s))) ^^ Suc k) s) \<and>
    holder (((\<lambda>s. fst (the (release (the (holder s)) s))) ^^ Suc k) s) = Some (queue s ! k) \<and>
    queue (((\<lambda>s. fst (the (release (the (holder s)) s))) ^^ Suc k) s) = drop (Suc k) (queue s)"
  using assms(3)
proof (induction k)
  case 0
  then obtain m q where q: "queue s = m # q"
    by (cases "queue s") auto
  from assms(2) obtain n where n: "holder s = Some n"
    by auto
  from release_next [OF assms(1) n q] obtain s' where
    "release n s = Some (s', Some m)" "holder s' = Some m" "queue s' = q" by blast
  then show ?case
    using release_inv [OF assms(1)] n q by auto
next
  case (Suc k)
  let ?s = "((\<lambda>s. fst (the (release (the (holder s)) s))) ^^ Suc k) s"
  have IH: "inv ?s" "holder ?s = Some (queue s ! k)" "queue ?s = drop (Suc k) (queue s)"
    using Suc by auto
  have q: "queue ?s = queue s ! Suc k # drop (Suc (Suc k)) (queue s)"
    using IH(3) Suc.prems by (simp add: Cons_nth_drop_Suc)
  from release_next [OF IH(1,2) q] obtain s' where
    s': "release (queue s ! k) ?s = Some (s', Some (queue s ! Suc k))"
      "holder s' = Some (queue s ! Suc k)" "queue s' = drop (Suc (Suc k)) (queue s)" by blast
  have "((\<lambda>s. fst (the (release (the (holder s)) s))) ^^ Suc (Suc k)) s = s'"
    using s'(1) IH(2) by simp
  then show ?case
    using s' release_inv [OF IH(1) s'(1)] by simp
qed

end

section \<open>The lock record as a queue\<close>

definition lock_ok :: "dsm_lock \<Rightarrow> bool" where
  "lock_ok l \<longleftrightarrow> length (waiters l) = DSM_MAX_NODES \<and> unat (waiter_count l) \<le> DSM_MAX_NODES \<and>
     (\<not> locked l \<longrightarrow> waiter_count l = 0)"

definition lock_holder :: "dsm_lock \<Rightarrow> u32 option" where
  "lock_holder l = (if locked l then Some (holder_id l) else None)"

definition lock_queue :: "dsm_lock \<Rightarrow> u32 list" where
  "lock_queue l = take (unat (waiter_count l)) (waiters l)"

lemma length_lock_queue: "lock_ok l \<Longrightarrow> length (lock_queue l) = unat (waiter_count l)"
  by (simp add: lock_ok_def lock_queue_def)

interpretation lm: lock_manager lock_ok lock_holder lock_queue lock_request lock_release DSM_MAX_NODES
proof (unfold_locales, goal_cases)
  case (1 s n)
  then show ?case
    by (auto simp: lock_request_def lock_ok_def unat_plus1_u32)
next
  case (2 s n s' g)
  then show ?case
    by (auto simp: lock_release_def lock_ok_def word_gt_0 unat_minus1 unat_gt_0 split: if_splits)
next
  case (3 s)
  then show ?case
    by (auto simp: lock_holder_def lock_queue_def lock_ok_def split: if_splits)
next
  case (4 s n)
  then show ?case
    by (auto simp: lock_request_def lock_holder_def lock_queue_def split: if_splits)
next
  case (5 s h n)
  then have "lock_queue (s\<lparr>waiters := (waiters s)[unat (waiter_count s) := n],
      waiter_count := waiter_count s + 1\<rparr>) = lock_queue s @ [n]"
    if "unat (waiter_count s) < DSM_MAX_NODES"
    using that by (simp add: lock_queue_def lock_ok_def unat_plus1_u32 take_Suc_conv_app_nth)
  with 5 show ?case
    by (auto simp: lock_request_def lock_holder_def length_lock_queue split: if_splits)
next
  case (6 s n)
  then show ?case
    by (auto simp: lock_release_def lock_holder_def split: if_splits)
next
  case (7 s n)
  then show ?case
    by (auto simp: lock_release_def lock_holder_def lock_queue_def lock_ok_def word_gt_0 unat_eq_zero
        split: if_splits)
next
  case (8 s n m q)
  then have pos: "0 < unat (waiter_count s)" and len: "length (waiters s) = DSM_MAX_NODES"
      "unat (waiter_count s) \<le> DSM_MAX_NODES"
    by (auto simp: lock_queue_def lock_ok_def)
  have "waiters s ! 0 = m"
    using 8(3) pos by (simp add: lock_queue_def) (metis nth_Cons_0 nth_take)
  moreover have "take (unat (waiter_count s) - 1) (shift_down (waiters s) 0 (unat (waiter_count s))) = q"
    using take_shift_down [of 0 "unat (waiter_count s)" "waiters s"] pos len 8(3)
    by (simp add: lock_queue_def)
  ultimately show ?case
    using 8 pos by (auto simp: lock_release_def lock_holder_def lock_queue_def word_gt_0 unat_gt_0
        unat_minus1 split: if_splits)
qed

section \<open>What the handlers do to the state\<close>

lemma send_grant_frame [simp, frame_simps]:
  "ctx (send_grant n lid w) = (ctx w)\<lparr>seq_num := seq_num (ctx w) + 1\<rparr>"
  "wakes (send_grant n lid w) = wakes w" "vm (send_grant n lid w) = vm w"
  "mem (send_grant n lid w) = mem w"
  by (simp_all add: send_grant_def case_prod_beta Let_def)

lemma put_lock_frame [simp, frame_simps]:
  "sent (put_lock k l w) = sent w" "wakes (put_lock k l w) = wakes w"
  "send_script (put_lock k l w) = send_script w"
  "locks (ctx (put_lock k l w)) = (locks (ctx w))[unat k := l]"
  "local_role (ctx (put_lock k l w)) = local_role (ctx w)"
  "local_node_id (ctx (put_lock k l w)) = local_node_id (ctx w)"
  "node_table (ctx (put_lock k l w)) = node_table (ctx w)"
  by (simp_all add: put_lock_def)

lemma lock_at_put_lock:
  "unat k < length (locks (ctx w)) \<Longrightarrow>
   lock_at k' (put_lock k l w) = (if k' = k then l else lock_at k' w)"
  by (cases "unat k' = unat k") (auto simp: lock_at_def put_lock_def word_unat_eq_iff)

lemma lock_at_send_grant [simp]: "lock_at k (send_grant n lid w) = lock_at k w"
  by (simp add: lock_at_def)

text \<open>The lock table of a node: 256 locks, each well formed.\<close>

definition locks_ok :: "world \<Rightarrow> bool" where
  "locks_ok w \<longleftrightarrow> length (locks (ctx w)) = DSM_MAX_LOCKS \<and> list_all lock_ok (locks (ctx w))"

lemma locks_ok_at: "locks_ok w \<Longrightarrow> unat k < DSM_MAX_LOCKS \<Longrightarrow> lock_ok (lock_at k w)"
  by (simp add: locks_ok_def lock_at_def list_all_length)

lemma locks_ok_put:
  assumes "locks_ok w" "lock_ok l"
  shows "locks_ok (put_lock k l w)"
proof -
  have "set ((locks (ctx w))[unat k := l]) \<subseteq> insert l (set (locks (ctx w)))"
    by (rule set_update_subset_insert)
  then show ?thesis
    using assms by (auto simp: locks_ok_def put_lock_def list_all_iff)
qed

lemma locks_ok_frame: "locks (ctx w') = locks (ctx w) \<Longrightarrow> locks_ok w' = locks_ok w"
  by (simp add: locks_ok_def)

lemma handle_request_eq:
  assumes "unat lid < DSM_MAX_LOCKS"
  shows "dsm_sync_handle_lock_request from lid w =
    (0, case snd (lock_request from (lock_at lid w)) of
          None \<Rightarrow> put_lock lid (fst (lock_request from (lock_at lid w))) w
        | Some n \<Rightarrow> send_grant n lid (put_lock lid (fst (lock_request from (lock_at lid w))) w))"
  using assms by (simp add: dsm_sync_handle_lock_request_def case_prod_beta Let_def)

lemma handle_request_locks:
  "locks (ctx (snd (dsm_sync_handle_lock_request from lid w))) =
     (if unat lid < DSM_MAX_LOCKS
      then (locks (ctx w))[unat lid := fst (lock_request from (lock_at lid w))] else locks (ctx w))"
  by (simp add: dsm_sync_handle_lock_request_def case_prod_beta Let_def put_lock_def split: option.splits)

lemma handle_release_locks:
  "locks (ctx (snd (dsm_sync_handle_lock_release from lid w))) =
     (if unat lid < DSM_MAX_LOCKS
      then (case lock_release from (lock_at lid w) of None \<Rightarrow> locks (ctx w)
            | Some (l, _) \<Rightarrow> (locks (ctx w))[unat lid := l])
      else locks (ctx w))"
  by (auto simp: dsm_sync_handle_lock_release_def Let_def put_lock_def split: option.splits)

lemma handle_release_wakes:
  "wakes (snd (dsm_sync_handle_lock_release from lid w)) = wakes w"
  by (auto simp: dsm_sync_handle_lock_release_def Let_def put_lock_def split: option.splits)

lemma handle_release_ctx:
  "local_role (ctx (snd (dsm_sync_handle_lock_release from lid w))) = local_role (ctx w)"
  "local_node_id (ctx (snd (dsm_sync_handle_lock_release from lid w))) = local_node_id (ctx w)"
  by (auto simp: dsm_sync_handle_lock_release_def Let_def put_lock_def split: option.splits)

text \<open>The bytes of a grant, and the sockets after it, when the sockets take what they are given.\<close>

definition grant_bytes :: "u32 \<Rightarrow> u32 \<Rightarrow> world \<Rightarrow> u8 list" where
  "grant_bytes n lid w =
     put_header \<lparr>magic = DSM_MAGIC, msg_type = msg_code DSM_MSG_LOCK_GRANT,
       src_node = local_node_id (ctx w), dst_node = n, hdr_seq_num = seq_num (ctx w),
       payload_len = 4\<rparr> @ put32 lid"

definition grant_sent :: "u32 option \<Rightarrow> u32 \<Rightarrow> world \<Rightarrow> int \<Rightarrow> u8 list" where
  "grant_sent g lid w =
     (case g of None \<Rightarrow> sent w
      | Some n \<Rightarrow> (case dsm_node_table_get n w of
          None \<Rightarrow> sent w
        | Some i \<Rightarrow> if tcp_fd (node_at i w) < 0 then sent w
                   else (sent w)(tcp_fd (node_at i w) :=
                          sent w (tcp_fd (node_at i w)) @ grant_bytes n lid w)))"

lemma send_grant_sent:
  assumes "\<And>fd. send_script w fd = []"
  shows "sent (send_grant n lid (put_lock k l w)) = grant_sent (Some n) lid w"
proof -
  let ?w = "snd (dsm_create_header DSM_MSG_LOCK_GRANT n sizeof_lock (put_lock k l w))"
  have tab: "node_table (ctx ?w) = node_table (ctx w)"
    by (simp add: put_lock_def)
  have script: "send_script ?w fd = []" for fd
    using assms by (simp add: put_lock_def)
  have sent: "sent ?w = sent w"
    by (simp add: put_lock_def)
  have hdr: "fst (dsm_create_header DSM_MSG_LOCK_GRANT n sizeof_lock (put_lock k l w)) =
      fst (dsm_create_header DSM_MSG_LOCK_GRANT n sizeof_lock w)"
    by (simp add: header_eq put_lock_def)
  show ?thesis
  proof (cases "dsm_node_table_get n w")
    case None
    then show ?thesis
      by (simp add: send_grant_def case_prod_beta Let_def dsm_tcp_send_def grant_sent_def
          node_get_frame(1) [OF tab] sent)
  next
    case (Some i)
    show ?thesis
    proof (cases "tcp_fd (node_at i w) < 0")
      case True
      with Some show ?thesis
        by (simp add: send_grant_def case_prod_beta Let_def dsm_tcp_send_def grant_sent_def
            node_get_frame [OF tab] sent)
    next
      case False
      with Some show ?thesis
        using tcp_send_clear [of n ?w i, OF _ _ script]
        by (simp add: send_grant_def case_prod_beta Let_def grant_sent_def grant_bytes_def
            node_get_frame [OF tab] sent hdr) (simp add: header_eq)
    qed
  qed
qed

lemma sys_calls_ctx:
  "ctx (snd (sys_calls n w)) = ctx w"
  by (induction n arbitrary: w) (auto simp: case_prod_beta)

text \<open>A lock held by node 2 with node 3 waiting, in a table of three nodes.\<close>

definition demo_lock :: dsm_lock where
  "demo_lock = zero_lock\<lparr>locked := True, holder_id := 2, waiters := (waiters zero_lock)[0 := 3],
     waiter_count := 1\<rparr>"

lemma demo_lock_facts [simp]:
  "lock_ok demo_lock" "lock_holder demo_lock = Some 2" "lock_queue demo_lock = [3]"
  "locked demo_lock" "holder_id demo_lock = 2"
  by (simp_all add: demo_lock_def zero_lock_def lock_ok_def lock_holder_def lock_queue_def take_Suc_conv_app_nth)

lemma demo_locks_ok [simp]: "locks_ok demo_nodes"
  by (simp add: locks_ok_def zero_lock_def lock_ok_def list_all_iff)

lemma demo_held [simp]:
  "locks_ok (put_lock 5 demo_lock demo_nodes)" "lock_at 5 (put_lock 5 demo_lock demo_nodes) = demo_lock"
  by (simp_all add: locks_ok_put lock_at_def)

section \<open>The barrier record\<close>

definition barrier_ok :: "dsm_barrier \<Rightarrow> bool" where
  "barrier_ok b \<longleftrightarrow> length (arrived b) = DSM_MAX_NODES \<and> unat (arrived_count b) < DSM_MAX_NODES"

definition barrier_arrivals :: "dsm_barrier \<Rightarrow> u32 list" where
  "barrier_arrivals b = take (unat (arrived_count b)) (arrived b)"

text \<open>What an arrival does, on the list of nodes that have arrived.\<close>

lemma barrier_enter_cases:
  assumes "barrier_ok b" "unat n \<le> DSM_MAX_NODES"
  shows "\<exists>b'. barrier_ok b' \<and>
    (if unat n \<le> Suc (unat (arrived_count b))
     then barrier_enter from n b = Inr (b', Some (barrier_arrivals b @ [from])) \<and>
       barrier_arrivals b' = [] \<and> arrived_count b' = 0 \<and> barrier_id b' = barrier_id b + 1
     else barrier_enter from n b = Inr (b', None) \<and> barrier_arrivals b' = barrier_arrivals b @ [from] \<and>
       unat (arrived_count b') = Suc (unat (arrived_count b)) \<and> barrier_id b' = barrier_id b)"
proof -
  let ?k = "unat (arrived_count b)"
  let ?b = "b\<lparr>arrived := (arrived b)[?k := from], arrived_count := arrived_count b + 1\<rparr>"
  have k: "?k < DSM_MAX_NODES" "length (arrived b) = DSM_MAX_NODES"
    using assms(1) by (simp_all add: barrier_ok_def)
  have c: "unat (arrived_count b + 1) = Suc ?k"
    using k by (simp add: unat_plus1_u32)
  have arr: "take (Suc ?k) ((arrived b)[?k := from]) = barrier_arrivals b @ [from]"
    using k by (simp add: barrier_arrivals_def take_Suc_conv_app_nth)
  have le: "n \<le> arrived_count b + 1 \<longleftrightarrow> unat n \<le> Suc ?k"
    by (simp add: word_le_nat_alt c)
  show ?thesis
  proof (cases "unat n \<le> Suc ?k")
    case True
    have "map (\<lambda>i. (arrived b)[?k := from] ! i) [0..<Suc ?k] = barrier_arrivals b @ [from]"
      unfolding arr [symmetric] using k by (intro nth_equalityI) (auto simp del: upt_Suc)
    with True k show ?thesis
      by (intro exI [of _ "?b\<lparr>arrived_count := 0, barrier_id := barrier_id b + 1\<rparr>"])
         (simp add: barrier_enter_def le c barrier_ok_def barrier_arrivals_def Let_def)
  next
    case False
    with k assms(2) show ?thesis
      by (intro exI [of _ ?b])
         (simp add: barrier_enter_def le c barrier_ok_def arr barrier_arrivals_def Let_def)
  qed
qed

text \<open>The releases, when the sockets take what they are given.\<close>

definition release_bytes :: "u32 \<Rightarrow> world \<Rightarrow> u8 list" where
  "release_bytes n w =
     put_header \<lparr>magic = DSM_MAGIC, msg_type = msg_code DSM_MSG_BARRIER_RELEASE,
       src_node = local_node_id (ctx w), dst_node = n, hdr_seq_num = seq_num (ctx w), payload_len = 0\<rparr>"

definition node_socket :: "u32 \<Rightarrow> world \<Rightarrow> int option" where
  "node_socket n w =
     (case dsm_node_table_get n w of
        None \<Rightarrow> None
      | Some i \<Rightarrow> if tcp_fd (node_at i w) < 0 then None else Some (tcp_fd (node_at i w)))"

lemma node_socket_frame:
  "node_table (ctx w') = node_table (ctx w) \<Longrightarrow> node_socket n w' = node_socket n w"
  unfolding node_socket_def by (simp only: node_get_frame [of w' w])

lemma tcp_send_header_clear:
  assumes "\<And>fd. send_script w fd = []"
  shows "snd (dsm_tcp_send n hdr None w) =
    (case node_socket n w of None \<Rightarrow> w
     | Some fd \<Rightarrow> w\<lparr>sent := (sent w)(fd := sent w fd @ put_header hdr)\<rparr>)"
proof (cases "dsm_node_table_get n w")
  case None
  then show ?thesis
    by (simp add: node_socket_def dsm_tcp_send_def)
next
  case (Some i)
  then show ?thesis
    using tcp_send_clear [OF Some _ assms, of hdr None]
    by (cases "tcp_fd (node_at i w) < 0") (simp_all add: node_socket_def dsm_tcp_send_def)
qed

lemma release_step_frame [simp, frame_simps]:
  "ctx (release_step hdr w n) = ctx w" "wakes (release_step hdr w n) = wakes w"
  by (simp_all add: release_step_def)

lemma release_steps_ctx [simp, frame_simps]:
  "ctx (foldl (release_step hdr) w ns) = ctx w"
  "wakes (foldl (release_step hdr) w ns) = wakes w"
  by (induction ns arbitrary: w) simp_all

lemma release_steps_sent:
  assumes "\<And>fd. send_script w fd = []"
  shows "sent (foldl (release_step hdr) w ns) fd = sent w fd @
    concat (map (\<lambda>n. if n \<noteq> local_node_id (ctx w) \<and> node_socket n w = Some fd
                    then put_header (hdr\<lparr>dst_node := n\<rparr>) else []) ns)"
  using assms
proof (induction ns arbitrary: w)
  case Nil
  then show ?case by simp
next
  case (Cons n ns)
  let ?w = "release_step hdr w n"
  have c: "ctx ?w = ctx w"
    by (simp add: release_step_def)
  have s: "send_script ?w f = []" for f
    using Cons.prems by (simp add: release_step_def tcp_send_header_clear split: option.splits)
  have "sent ?w fd = sent w fd @ (if n \<noteq> local_node_id (ctx w) \<and> node_socket n w = Some fd
      then put_header (hdr\<lparr>dst_node := n\<rparr>) else [])"
    using Cons.prems by (simp add: release_step_def tcp_send_header_clear split: option.splits)
  then show ?case
    using Cons.IH [OF s] node_socket_frame [of ?w w] by (simp add: c)
qed

text \<open>The arrival of one node, in the state of the master.\<close>

lemma handle_barrier_cases:
  assumes "barrier_ok (barrier (ctx w))" "unat (dsm_node_table_count w) \<le> DSM_MAX_NODES"
  shows "\<exists>w'. dsm_sync_handle_barrier_enter from w = Inr w' \<and> barrier_ok (barrier (ctx w')) \<and>
    node_table (ctx w') = node_table (ctx w) \<and> local_node_id (ctx w') = local_node_id (ctx w) \<and>
    local_role (ctx w') = local_role (ctx w) \<and>
    (if unat (dsm_node_table_count w) \<le> Suc (unat (arrived_count (barrier (ctx w))))
     then arrived_count (barrier (ctx w')) = 0 \<and> barrier_id (barrier (ctx w')) = barrier_id (barrier (ctx w)) + 1 \<and>
       wakes w' = wakes w @ [BroadcastBarrier] \<and>
       ((\<forall>fd. send_script w fd = []) \<longrightarrow> (\<forall>fd. sent w' fd = sent w fd @
          concat (map (\<lambda>n. if n \<noteq> local_node_id (ctx w) \<and> node_socket n w = Some fd
                        then release_bytes n w else []) (barrier_arrivals (barrier (ctx w)) @ [from]))))
     else unat (arrived_count (barrier (ctx w'))) = Suc (unat (arrived_count (barrier (ctx w)))) \<and>
       barrier_arrivals (barrier (ctx w')) = barrier_arrivals (barrier (ctx w)) @ [from] \<and>
       barrier_id (barrier (ctx w')) = barrier_id (barrier (ctx w)) \<and>
       wakes w' = wakes w \<and> sent w' = sent w \<and> send_script w' = send_script w \<and>
       seq_num (ctx w') = seq_num (ctx w))"
proof -
  let ?b = "barrier (ctx w)" and ?n = "dsm_node_table_count w"
  obtain b where b: "barrier_ok b"
    "if unat ?n \<le> Suc (unat (arrived_count ?b))
     then barrier_enter from ?n ?b = Inr (b, Some (barrier_arrivals ?b @ [from])) \<and>
       barrier_arrivals b = [] \<and> arrived_count b = 0 \<and> barrier_id b = barrier_id ?b + 1
     else barrier_enter from ?n ?b = Inr (b, None) \<and> barrier_arrivals b = barrier_arrivals ?b @ [from] \<and>
       unat (arrived_count b) = Suc (unat (arrived_count ?b)) \<and> barrier_id b = barrier_id ?b"
    using barrier_enter_cases [OF assms, of "from"] by blast
  show ?thesis
  proof (cases "unat ?n \<le> Suc (unat (arrived_count ?b))")
    case False
    with b show ?thesis
      by (intro exI [of _ "w\<lparr>ctx := (ctx w)\<lparr>barrier := b\<rparr>\<rparr>"])
         (simp add: dsm_sync_handle_barrier_enter_def)
  next
    case True
    let ?h = "fst (dsm_create_header DSM_MSG_BARRIER_RELEASE 0 0 w)"
    let ?w = "snd (dsm_create_header DSM_MSG_BARRIER_RELEASE 0 0 w)"
    let ?v = "foldl (release_step ?h) ?w (barrier_arrivals ?b @ [from])"
    have eq: "dsm_sync_handle_barrier_enter from w =
        Inr (wake BroadcastBarrier (?v\<lparr>ctx := (ctx ?v)\<lparr>barrier := b\<rparr>\<rparr>))"
      using b True by (simp add: dsm_sync_handle_barrier_enter_def case_prod_beta Let_def)
    have bytes: "put_header (?h\<lparr>dst_node := n\<rparr>) = release_bytes n w" for n
      by (simp add: header_eq release_bytes_def)
    have "sent ?v fd = sent w fd @
        concat (map (\<lambda>n. if n \<noteq> local_node_id (ctx w) \<and> node_socket n w = Some fd
                      then release_bytes n w else []) (barrier_arrivals ?b @ [from]))"
      if "\<forall>fd. send_script w fd = []" for fd
      using release_steps_sent [of ?w ?h "barrier_arrivals ?b @ [from]" fd] that
        node_socket_frame [of ?w w] unfolding bytes by (simp del: foldl_append map_append)
    then show ?thesis
      using b True
      by (intro exI [of _ "wake BroadcastBarrier (?v\<lparr>ctx := (ctx ?v)\<lparr>barrier := b\<rparr>\<rparr>)"])
         (simp add: eq del: foldl_append)
  qed
qed

text \<open>A list of arrivals, one after another.\<close>

fun barrier_run :: "u32 list \<Rightarrow> world \<Rightarrow> crash + world" where
  "barrier_run [] w = Inr w"
| "barrier_run (n # ns) w =
     (case dsm_sync_handle_barrier_enter n w of Inl e \<Rightarrow> Inl e | Inr w' \<Rightarrow> barrier_run ns w')"

lemma barrier_run_append:
  "barrier_run (ms @ ns) w = (case barrier_run ms w of Inl e \<Rightarrow> Inl e | Inr w' \<Rightarrow> barrier_run ns w')"
  by (induction ms arbitrary: w) (auto split: sum.splits)

lemma node_count_frame:
  "node_table (ctx w') = node_table (ctx w) \<Longrightarrow> dsm_node_table_count w' = dsm_node_table_count w"
  by (simp add: dsm_node_table_count_def)

text \<open>Nothing happens before the last arrival.\<close>

lemma barrier_run_partial:
  assumes "barrier_ok (barrier (ctx w))" "arrived_count (barrier (ctx w)) = 0"
    and "unat (dsm_node_table_count w) \<le> DSM_MAX_NODES" "k < unat (dsm_node_table_count w)" "k \<le> length fs"
  shows "\<exists>v. barrier_run (take k fs) w = Inr v \<and> barrier_ok (barrier (ctx v)) \<and>
    node_table (ctx v) = node_table (ctx w) \<and> local_node_id (ctx v) = local_node_id (ctx w) \<and>
    unat (arrived_count (barrier (ctx v))) = k \<and> barrier_arrivals (barrier (ctx v)) = take k fs \<and>
    barrier_id (barrier (ctx v)) = barrier_id (barrier (ctx w)) \<and> wakes v = wakes w \<and>
    sent v = sent w \<and> send_script v = send_script w \<and> seq_num (ctx v) = seq_num (ctx w)"
  using assms(4,5)
proof (induction k)
  case 0
  then show ?case
    using assms(1,2) by (simp add: barrier_arrivals_def)
next
  case (Suc k)
  then obtain v where v: "barrier_run (take k fs) w = Inr v" "barrier_ok (barrier (ctx v))"
    "node_table (ctx v) = node_table (ctx w)" "local_node_id (ctx v) = local_node_id (ctx w)"
    "unat (arrived_count (barrier (ctx v))) = k" "barrier_arrivals (barrier (ctx v)) = take k fs"
    "barrier_id (barrier (ctx v)) = barrier_id (barrier (ctx w))" "wakes v = wakes w"
    "sent v = sent w" "send_script v = send_script w" "seq_num (ctx v) = seq_num (ctx w)"
    by auto
  have t: "take (Suc k) fs = take k fs @ [fs ! k]"
    using Suc.prems by (simp add: take_Suc_conv_app_nth)
  have c: "dsm_node_table_count v = dsm_node_table_count w"
    by (rule node_count_frame) (rule v(3))
  have n: "unat (dsm_node_table_count v) \<le> DSM_MAX_NODES"
    "\<not> unat (dsm_node_table_count v) \<le> Suc (unat (arrived_count (barrier (ctx v))))"
    using assms(3) Suc.prems v(5) c by simp_all
  show ?case
    using handle_barrier_cases [OF v(2) n(1), of "fs ! k"] n(2) v
    by (auto simp: t barrier_run_append)
qed

text \<open>Worker and master calls.\<close>

lemma unat_lock_number:
  "0 \<le> k \<Longrightarrow> k < 256 \<Longrightarrow> unat (word_of_int k :: u32) = nat k"
  unfolding nat_uint_eq [symmetric] by (simp add: uint_word_of_int)

lemma sys_calls_locks: "locks (ctx (snd (sys_calls n w))) = locks (ctx w)"
  by (simp add: sys_calls_ctx)

text \<open>The loop of the initialisation, up to the first failure.\<close>

lemma init_locks_ok:
  assumes "init_locks is w = (True, w')" "\<forall>i \<in> set is. i < length (locks (ctx w))"
    and "list_all (\<lambda>l. length (waiters l) = DSM_MAX_NODES) (locks (ctx w))"
  shows "length (locks (ctx w')) = length (locks (ctx w)) \<and>
    list_all (\<lambda>l. length (waiters l) = DSM_MAX_NODES) (locks (ctx w')) \<and>
    barrier (ctx w') = barrier (ctx w) \<and>
    (\<forall>j < length (locks (ctx w)).
       (j \<in> set is \<longrightarrow> \<not> locked (locks (ctx w') ! j) \<and> waiter_count (locks (ctx w') ! j) = 0) \<and>
       (\<not> locked (locks (ctx w) ! j) \<and> waiter_count (locks (ctx w) ! j) = 0 \<longrightarrow>
        \<not> locked (locks (ctx w') ! j) \<and> waiter_count (locks (ctx w') ! j) = 0))"
  using assms
proof (induction "is" arbitrary: w)
  case Nil
  then show ?case by simp
next
  case (Cons i "is")
  let ?l = "lock_init i (locks (ctx w) ! i)"
  let ?w = "w\<lparr>ctx := (ctx w)\<lparr>locks := (locks (ctx w))[i := ?l]\<rparr>\<rparr>"
  let ?v = "snd (sys_calls 2 ?w)"
  have run: "init_locks is ?v = (True, w')"
    using Cons.prems(1) by (auto simp: Let_def case_prod_beta split: if_splits)
  have ls: "locks (ctx ?v) = (locks (ctx w))[i := ?l]" and b: "barrier (ctx ?v) = barrier (ctx w)"
    by (simp_all add: sys_calls_ctx)
  have i: "i < length (locks (ctx w))"
    using Cons.prems(2) by simp
  have l: "length (waiters ?l) = DSM_MAX_NODES" "\<not> locked ?l" "waiter_count ?l = 0"
    using Cons.prems(3) i by (simp_all add: lock_init_def list_all_length)
  have len: "list_all (\<lambda>l. length (waiters l) = DSM_MAX_NODES) (locks (ctx ?v))"
    using Cons.prems(3) l(1) set_update_subset_insert [of "locks (ctx w)" i ?l]
    unfolding ls list_all_iff by blast
  have in_set: "\<forall>i \<in> set is. i < length (locks (ctx ?v))"
    using Cons.prems(2) by (simp add: ls)
  have at: "locks (ctx ?v) ! j = (if j = i then ?l else locks (ctx w) ! j)" for j
    using i by (simp add: ls)
  show ?case
    using Cons.IH [OF run in_set len] l i unfolding at b by (auto simp: ls)
qed

text \<open>
  After an initialisation that returns 0 every lock is free with an empty queue, whatever it was before,
  and the barrier is empty with id 0.
\<close>

lemma sync_init_correct:
  assumes "dsm_sync_init w = (0, w')" "length (locks (ctx w)) = DSM_MAX_LOCKS"
    and "list_all (\<lambda>l. length (waiters l) = DSM_MAX_NODES) (locks (ctx w))"
    and "length (arrived (barrier (ctx w))) = DSM_MAX_NODES"
  shows "locks_ok w' \<and> (\<forall>k. unat k < DSM_MAX_LOCKS \<longrightarrow>
      lock_holder (lock_at k w') = None \<and> lock_queue (lock_at k w') = []) \<and>
    barrier_ok (barrier (ctx w')) \<and> barrier_id (barrier (ctx w')) = 0 \<and> arrived_count (barrier (ctx w')) = 0"
proof -
  let ?r = "init_locks [0..<DSM_MAX_LOCKS] w"
  have run: "init_locks [0..<DSM_MAX_LOCKS] w = (True, snd ?r)"
    using assms(1) by (cases ?r) (auto simp: dsm_sync_init_def split: if_splits)
  have w': "ctx w' = (ctx (snd ?r))\<lparr>barrier := (barrier (ctx (snd ?r)))
      \<lparr>barrier_id := 0, total_nodes := 0, arrived_count := 0\<rparr>\<rparr>"
    using assms(1) run
    by (auto simp: dsm_sync_init_def Let_def case_prod_beta sys_calls_ctx split: if_splits)
  have f: "length (locks (ctx (snd ?r))) = DSM_MAX_LOCKS"
    "list_all (\<lambda>l. length (waiters l) = DSM_MAX_NODES) (locks (ctx (snd ?r)))"
    "barrier (ctx (snd ?r)) = barrier (ctx w)"
    "\<forall>j < DSM_MAX_LOCKS. \<not> locked (locks (ctx (snd ?r)) ! j) \<and> waiter_count (locks (ctx (snd ?r)) ! j) = 0"
    using init_locks_ok [OF run] assms(2,3) by simp_all
  have "list_all lock_ok (locks (ctx (snd ?r)))"
    using f(1,2,4) by (simp add: list_all_length lock_ok_def)
  then show ?thesis
    using f assms(4) by (simp add: w' locks_ok_def lock_at_def lock_holder_def lock_queue_def barrier_ok_def)
qed

section \<open>Properties\<close>

text \<open>
  C18. A lock request on the master: a free lock goes to the requester, who is sent one
  \<^verbatim>\<open>LOCK_GRANT\<close>; a held lock keeps its holder and the requester joins the end of the queue, unless
  64 nodes are waiting already, in which case the request is lost; no message is sent then. No other
  lock changes and all locks stay well formed.
\<close>

theorem lock_request_correct:
  assumes "locks_ok w" "unat lid < DSM_MAX_LOCKS" "\<And>fd. send_script w fd = []"
  shows "case dsm_sync_handle_lock_request from lid w of (r, w') \<Rightarrow>
    r = 0 \<and> locks_ok w' \<and> (\<forall>k. k \<noteq> lid \<longrightarrow> lock_at k w' = lock_at k w) \<and>
    (case lock_holder (lock_at lid w) of
       None \<Rightarrow> lock_holder (lock_at lid w') = Some from \<and> lock_queue (lock_at lid w') = [] \<and>
               sent w' = grant_sent (Some from) lid w
     | Some h \<Rightarrow> lock_holder (lock_at lid w') = Some h \<and> sent w' = sent w \<and>
         lock_queue (lock_at lid w') =
           (if length (lock_queue (lock_at lid w)) < DSM_MAX_NODES
            then lock_queue (lock_at lid w) @ [from] else lock_queue (lock_at lid w)))"
proof -
  let ?l = "lock_at lid w" and ?r = "lock_request from (lock_at lid w)"
  let ?w = "put_lock lid (fst ?r) w" and ?h = "dsm_sync_handle_lock_request from lid w"
  have ok: "lock_ok ?l"
    using assms(1,2) by (rule locks_ok_at)
  have len: "unat lid < length (locks (ctx w))"
    using assms(1,2) by (simp add: locks_ok_def)
  have at: "lock_at k (snd ?h) = (if k = lid then fst ?r else lock_at k w)" for k
    by (simp add: handle_request_eq [OF assms(2)] lock_at_put_lock [OF len] split: option.splits)
  have "locks_ok (snd ?h)"
    using locks_ok_put [OF assms(1) lm.request_inv [OF ok], of lid "from"]
    by (simp add: locks_ok_def handle_request_locks assms(2))
  moreover have "sent (snd ?h) = grant_sent (snd ?r) lid w"
    using send_grant_sent [OF assms(3)]
    by (simp add: handle_request_eq [OF assms(2)] split: option.splits) (simp add: grant_sent_def)
  moreover have "fst ?h = 0"
    by (simp add: handle_request_eq [OF assms(2)])
  ultimately show ?thesis
    using lm.request_free [OF ok, of "from"] lm.request_held [OF ok, of _ "from"] lm.free_empty [OF ok]
    by (simp add: case_prod_beta at grant_sent_def split: option.splits)
qed

theorem lock_request_correct_witness:
  "lock_holder (lock_at 5 (snd (dsm_sync_handle_lock_request 2 5 demo_nodes))) = Some 2"
proof -
  have "lock_holder (lock_at 5 demo_nodes) = None"
    by (simp add: lock_at_def zero_lock_def lock_holder_def)
  then show ?thesis
    using lock_request_correct [OF demo_locks_ok, of 5 2] by (simp add: case_prod_beta)
qed

text \<open>
  C19. A lock release on the master: only the holder is obeyed; the lock passes to the first waiter,
  who is sent one \<^verbatim>\<open>LOCK_GRANT\<close>, the others keeping their order, or becomes free when none waits. A
  release by anyone else returns -1 and changes nothing.
\<close>

theorem lock_release_correct:
  assumes "locks_ok w" "unat lid < DSM_MAX_LOCKS" "\<And>fd. send_script w fd = []"
  shows "case dsm_sync_handle_lock_release from lid w of (r, w') \<Rightarrow>
    if lock_holder (lock_at lid w) = Some from
    then r = 0 \<and> locks_ok w' \<and> (\<forall>k. k \<noteq> lid \<longrightarrow> lock_at k w' = lock_at k w) \<and>
      lock_queue (lock_at lid w') = tl (lock_queue (lock_at lid w)) \<and>
      lock_holder (lock_at lid w') =
        (case lock_queue (lock_at lid w) of [] \<Rightarrow> None | m # q \<Rightarrow> Some m) \<and>
      sent w' = grant_sent (lock_holder (lock_at lid w')) lid w
    else r = -1 \<and> w' = w"
proof -
  let ?l = "lock_at lid w" and ?h = "dsm_sync_handle_lock_release from lid w"
  have ok: "lock_ok ?l"
    using assms(1,2) by (rule locks_ok_at)
  have len: "unat lid < length (locks (ctx w))"
    using assms(1,2) by (simp add: locks_ok_def)
  show ?thesis
  proof (cases "lock_release from ?l")
    case None
    then have "lock_holder ?l \<noteq> Some from"
      using lm.release_last [OF ok, of "from"] lm.release_next [OF ok, of "from"] by (cases "lock_queue ?l") auto
    with None assms(2) show ?thesis
      by (simp add: dsm_sync_handle_lock_release_def)
  next
    case (Some p)
    obtain l g where p: "lock_release from ?l = Some (l, g)"
      using Some by (cases p) auto
    have h: "?h = (0, case g of None \<Rightarrow> put_lock lid l w | Some n \<Rightarrow> send_grant n lid (put_lock lid l w))"
      using p assms(2) by (simp add: dsm_sync_handle_lock_release_def Let_def)
    have "lock_at k (snd ?h) = (if k = lid then l else lock_at k w)" for k
      by (simp add: h lock_at_put_lock [OF len] split: option.splits)
    moreover have "locks_ok (snd ?h)"
      using locks_ok_put [OF assms(1) lm.release_inv [OF ok p], of lid]
      by (simp add: locks_ok_def h split: option.splits)
    moreover have "sent (snd ?h) = grant_sent g lid w"
      using send_grant_sent [OF assms(3)] by (simp add: h split: option.splits) (simp add: grant_sent_def)
    ultimately show ?thesis
      using lm.release_grant [OF ok p] lm.release_queue [OF ok p] by (simp add: h)
  qed
qed

theorem lock_release_correct_witness:
  "lock_holder (lock_at 5 (snd (dsm_sync_handle_lock_release 2 5 (put_lock 5 demo_lock demo_nodes))))
     = Some 3"
  using lock_release_correct [of "put_lock 5 demo_lock demo_nodes" 5 2] by (simp add: case_prod_beta)

text \<open>
  C20. Waiting is first come, first served: from a well-formed held lock, after \<open>k + 1\<close> releases, each
  by the holder of the moment, the lock is held by the node that was at position \<open>k\<close> of the queue, and
  the queue is what was behind it.
\<close>

theorem lock_bounded_waiting:
  assumes "lock_ok l" "locked l" "k < unat (waiter_count l)"
  shows "lock_holder (((\<lambda>l. fst (the (lock_release (the (lock_holder l)) l))) ^^ Suc k) l) =
      Some (waiters l ! k) \<and>
    lock_queue (((\<lambda>l. fst (the (lock_release (the (lock_holder l)) l))) ^^ Suc k) l) =
      drop (Suc k) (lock_queue l)"
proof -
  have "lock_holder l \<noteq> None" "k < length (lock_queue l)" "lock_queue l ! k = waiters l ! k"
    using assms by (simp_all add: lock_holder_def length_lock_queue lock_queue_def lock_ok_def)
  then show ?thesis
    using lm.hand_over [OF assms(1)] by simp
qed

theorem lock_bounded_waiting_witness:
  "lock_holder (fst (the (lock_release (the (lock_holder demo_lock)) demo_lock))) = Some 3"
proof -
  have "0 < unat (waiter_count demo_lock)" "waiters demo_lock ! 0 = 3"
    by (simp_all add: demo_lock_def zero_lock_def)
  then show ?thesis
    using lock_bounded_waiting [of demo_lock 0] by simp
qed

text \<open>
  C30. A waiting thread of the master is not woken when a worker gives the lock back: before the
  release the master's \<^verbatim>\<open>dsm_lock\<close> waits on the lock's condition variable, after it the lock is free and the
  test of the wait would succeed, but the handler signals no one.
\<close>

theorem master_waiter_not_woken:
  assumes "locks_ok w" "unat lid < DSM_MAX_LOCKS" "local_role (ctx w) = DSM_ROLE_MASTER"
    and "lock_holder (lock_at lid w) = Some n" "n \<noteq> local_node_id (ctx w)"
    and "lock_queue (lock_at lid w) = []"
  shows "fst (dsm_lock_resume lid w) = Blocked \<and>
    fst (dsm_lock_resume lid (snd (dsm_sync_handle_lock_release n lid w))) = Returned \<and>
    wakes (snd (dsm_sync_handle_lock_release n lid w)) = wakes w"
proof -
  have ok: "lock_ok (lock_at lid w)"
    using assms(1,2) by (rule locks_ok_at)
  have len: "unat lid < length (locks (ctx w))"
    using assms(1,2) by (simp add: locks_ok_def)
  obtain l where l: "lock_release n (lock_at lid w) = Some (l, None)" "lock_holder l = None"
    using lm.release_last [OF ok assms(4,6)] by blast
  have "snd (dsm_sync_handle_lock_release n lid w) = put_lock lid l w"
    using l(1) assms(2) by (simp add: dsm_sync_handle_lock_release_def Let_def)
  moreover have "lock_at lid (put_lock lid l w) = l"
    by (simp add: lock_at_put_lock [OF len])
  moreover have "\<not> locked l"
    using l(2) by (simp add: lock_holder_def split: if_splits)
  moreover have "locked (lock_at lid w)" "holder_id (lock_at lid w) = n"
    using assms(4) by (simp_all add: lock_holder_def split: if_splits)
  ultimately show ?thesis
    using assms(3,5) by (simp add: dsm_lock_resume_def master_test_def)
qed

text \<open>The same three nodes, seen from the master itself, lock 5 held by node 2 with no one waiting.\<close>

definition demo_master :: world where
  "demo_master = put_lock 5 (zero_lock\<lparr>locked := True, holder_id := 2\<rparr>)
     (demo_nodes\<lparr>ctx := (ctx demo_nodes)\<lparr>local_role := DSM_ROLE_MASTER, local_node_id := 1\<rparr>\<rparr>)"

lemma demo_master_facts [simp]:
  "local_role (ctx demo_master) = DSM_ROLE_MASTER" "local_node_id (ctx demo_master) = 1"
  "locks_ok demo_master" "lock_at 5 demo_master = zero_lock\<lparr>locked := True, holder_id := 2\<rparr>"
  "barrier (ctx demo_master) = zero_barrier" "node_table (ctx demo_master) = node_table (ctx demo_nodes)"
  "send_script demo_master fd = []"
  by (simp_all add: demo_master_def lock_at_def locks_ok_put locks_ok_frame [of _ demo_nodes] lock_ok_def zero_lock_def)
     (simp_all add: put_lock_def)

theorem master_waiter_not_woken_witness:
  "fst (dsm_lock_resume 5 demo_master) = Blocked \<and>
   fst (dsm_lock_resume 5 (snd (dsm_sync_handle_lock_release 2 5 demo_master))) = Returned"
proof -
  have "lock_holder (lock_at 5 demo_master) = Some 2" "lock_queue (lock_at 5 demo_master) = []"
    by (simp_all add: lock_holder_def lock_queue_def zero_lock_def)
  then show ?thesis
    using master_waiter_not_woken [of demo_master 5 2] by simp
qed

text \<open>
  A barrier round: from an empty barrier, with as many arrivals as the node table has nodes,
  nothing is sent and nobody is woken before the last one; the last one sends one
  \<^verbatim>\<open>BARRIER_RELEASE\<close> to every arrival but the local node, in order of arrival, empties the barrier,
  advances its id and wakes the local waiters once.
\<close>

lemma barrier_round:
  assumes "barrier_ok (barrier (ctx w))" "arrived_count (barrier (ctx w)) = 0"
    and "length fs = unat (dsm_node_table_count w)" "fs \<noteq> []" "length fs \<le> DSM_MAX_NODES"
    and "\<And>fd. send_script w fd = []"
  shows "(\<forall>k < length fs. \<exists>v. barrier_run (take k fs) w = Inr v \<and> sent v = sent w \<and>
      wakes v = wakes w \<and> barrier_id (barrier (ctx v)) = barrier_id (barrier (ctx w)) \<and>
      barrier_arrivals (barrier (ctx v)) = take k fs) \<and>
    (\<exists>w'. barrier_run fs w = Inr w' \<and> arrived_count (barrier (ctx w')) = 0 \<and>
      barrier_id (barrier (ctx w')) = barrier_id (barrier (ctx w)) + 1 \<and>
      wakes w' = wakes w @ [BroadcastBarrier] \<and>
      (\<forall>fd. sent w' fd = sent w fd @ concat (map (\<lambda>n.
         if n \<noteq> local_node_id (ctx w) \<and> node_socket n w = Some fd then release_bytes n w else []) fs)))"
proof
  have n: "unat (dsm_node_table_count w) \<le> DSM_MAX_NODES"
    using assms(3,5) by simp
  note partial = barrier_run_partial [OF assms(1,2) n]
  show "\<forall>k < length fs. \<exists>v. barrier_run (take k fs) w = Inr v \<and> sent v = sent w \<and>
      wakes v = wakes w \<and> barrier_id (barrier (ctx v)) = barrier_id (barrier (ctx w)) \<and>
      barrier_arrivals (barrier (ctx v)) = take k fs"
  proof (intro allI impI)
    fix k assume k: "k < length fs"
    have "k < unat (dsm_node_table_count w)" "k \<le> length fs"
      using k assms(3) by simp_all
    from partial [OF this] show "\<exists>v. barrier_run (take k fs) w = Inr v \<and> sent v = sent w \<and>
      wakes v = wakes w \<and> barrier_id (barrier (ctx v)) = barrier_id (barrier (ctx w)) \<and>
      barrier_arrivals (barrier (ctx v)) = take k fs"
      by blast
  qed
  let ?k = "length fs - 1"
  have k: "?k < unat (dsm_node_table_count w)" "?k \<le> length fs" "Suc ?k = length fs"
    using assms(3,4) by (auto simp flip: assms(3))
  have fs: "fs = take ?k fs @ [fs ! ?k]"
    using k by (simp add: take_Suc_conv_app_nth [symmetric])
  obtain v where v: "barrier_run (take ?k fs) w = Inr v" "barrier_ok (barrier (ctx v))"
    "node_table (ctx v) = node_table (ctx w)" "local_node_id (ctx v) = local_node_id (ctx w)"
    "unat (arrived_count (barrier (ctx v))) = ?k" "barrier_arrivals (barrier (ctx v)) = take ?k fs"
    "barrier_id (barrier (ctx v)) = barrier_id (barrier (ctx w))" "wakes v = wakes w"
    "sent v = sent w" "send_script v = send_script w" "seq_num (ctx v) = seq_num (ctx w)"
    using partial [OF k(1,2)] by blast
  have c: "dsm_node_table_count v = dsm_node_table_count w"
    by (rule node_count_frame) (rule v(3))
  have full: "unat (dsm_node_table_count v) \<le> Suc (unat (arrived_count (barrier (ctx v))))"
    using c k assms(3) v(5) by simp
  have bytes: "release_bytes m v = release_bytes m w" "node_socket m v = node_socket m w" for m
    using v(4,11) node_socket_frame [OF v(3)] by (simp_all add: release_bytes_def)
  have nv: "unat (dsm_node_table_count v) \<le> DSM_MAX_NODES"
    using n c by simp
  obtain w' where w': "dsm_sync_handle_barrier_enter (fs ! ?k) v = Inr w'"
    "arrived_count (barrier (ctx w')) = 0" "barrier_id (barrier (ctx w')) = barrier_id (barrier (ctx v)) + 1"
    "wakes w' = wakes v @ [BroadcastBarrier]"
    "(\<forall>fd. send_script v fd = []) \<longrightarrow> (\<forall>fd. sent w' fd = sent v fd @
          concat (map (\<lambda>n. if n \<noteq> local_node_id (ctx v) \<and> node_socket n v = Some fd
                        then release_bytes n v else []) (barrier_arrivals (barrier (ctx v)) @ [fs ! ?k])))"
    using handle_barrier_cases [OF v(2) nv, of "fs ! ?k"] full by auto
  have "barrier_run fs w = Inr w'"
    using v(1) w'(1) by (subst fs) (simp add: barrier_run_append)
  moreover have "sent w' fd = sent w fd @ concat (map (\<lambda>n.
      if n \<noteq> local_node_id (ctx w) \<and> node_socket n w = Some fd then release_bytes n w else []) fs)" for fd
    using w'(5) assms(6) unfolding v(4,6,9,10) bytes fs [symmetric] by blast
  ultimately show "\<exists>w'. barrier_run fs w = Inr w' \<and> arrived_count (barrier (ctx w')) = 0 \<and>
      barrier_id (barrier (ctx w')) = barrier_id (barrier (ctx w)) + 1 \<and>
      wakes w' = wakes w @ [BroadcastBarrier] \<and>
      (\<forall>fd. sent w' fd = sent w fd @ concat (map (\<lambda>n.
         if n \<noteq> local_node_id (ctx w) \<and> node_socket n w = Some fd then release_bytes n w else []) fs))"
    using w'(2-4) unfolding v(7,8) by blast
qed

text \<open>
  The unchecked write of an arrival stays inside the array of 64: with a node table of at most
  64 nodes every arrival succeeds and leaves the barrier ready for the next one.
\<close>

lemma barrier_never_overflows:
  assumes "nodes_ok w" "barrier_ok (barrier (ctx w))"
  shows "\<exists>w'. dsm_sync_handle_barrier_enter from w = Inr w' \<and> nodes_ok w' \<and> barrier_ok (barrier (ctx w'))"
proof -
  have "unat (dsm_node_table_count w) \<le> DSM_MAX_NODES"
    using assms(1) by (auto simp: nodes_ok_def table_ok_def dsm_node_table_count_def split: option.splits)
  from handle_barrier_cases [OF assms(2) this, of "from"] obtain w' where
    "dsm_sync_handle_barrier_enter from w = Inr w'" "barrier_ok (barrier (ctx w'))"
    "node_table (ctx w') = node_table (ctx w)" by blast
  with assms(1) show ?thesis
    by (auto simp: nodes_ok_def)
qed

text \<open>
  The worker's side of a lock. \<^verbatim>\<open>dsm_lock\<close> puts one \<^verbatim>\<open>LOCK_REQUEST\<close> with the lock's number on the
  socket of the master and returns only when the local record says that this node holds the lock;
  \<^verbatim>\<open>dsm_unlock\<close> puts one \<^verbatim>\<open>LOCK_RELEASE\<close> there and marks the local record free.
\<close>

lemma worker_lock_protocol:
  assumes "local_role (ctx w) \<noteq> DSM_ROLE_MASTER" "0 \<le> k" "k < 256" "0 \<le> master_fd (ctx w)"
    and "length (locks (ctx w)) = DSM_MAX_LOCKS" "\<And>fd. send_script w fd = []"
  shows "sent (snd (dsm_lock_call k w)) (master_fd (ctx w)) = sent w (master_fd (ctx w)) @
      put_header \<lparr>magic = DSM_MAGIC, msg_type = msg_code DSM_MSG_LOCK_REQUEST,
        src_node = local_node_id (ctx w), dst_node = master_id (ctx w), hdr_seq_num = seq_num (ctx w),
        payload_len = 4\<rparr> @ put32 (word_of_int k) \<and>
    (fst (dsm_lock_call k w) = Returned \<longleftrightarrow>
      lock_holder (lock_at (word_of_int k) w) = Some (local_node_id (ctx w))) \<and>
    sent (dsm_unlock k w) (master_fd (ctx w)) = sent w (master_fd (ctx w)) @
      put_header \<lparr>magic = DSM_MAGIC, msg_type = msg_code DSM_MSG_LOCK_RELEASE,
        src_node = local_node_id (ctx w), dst_node = master_id (ctx w), hdr_seq_num = seq_num (ctx w),
        payload_len = 4\<rparr> @ put32 (word_of_int k) \<and>
    lock_holder (lock_at (word_of_int k) (dsm_unlock k w)) = None"
proof -
  have u: "unat (word_of_int k :: u32) = nat k"
    using assms(2,3) by (rule unat_lock_number)
  have script: "send_script (snd (dsm_create_header t d n w)) fd = []" for t d n fd
    by (simp add: assms(6))
  have sock: "master_socket (snd (dsm_create_header t d n w)) = master_fd (ctx w)" for t d n
    using assms(4) by (simp add: master_socket_def)
  show ?thesis
    using assms u
    by (auto simp: dsm_lock_call_def dsm_unlock_def dsm_lock_resume_def worker_test_def lock_cleared_def
        lock_holder_def case_prod_beta Let_def sock send_raw_clear script header_eq lock_at_def put_lock_def)
qed

end
