(* ===== verification/DsmCluster.thy ===== *)
theory DsmCluster
  imports DsmSync
begin

text \<open>
  One lock across the machines: the master's record, the record each worker keeps, the phase of the
  application thread of each node, and the messages in flight. TCP keeps the messages of a connection
  in order, so each worker has a queue towards the master; the other way only grants travel. Every
  step runs the code of one node: it is made of the operations of \<open>DsmSync\<close> on \<^verbatim>\<open>dsm_lock_t\<close>. One
  application thread per node uses the lock and connections stay up.
\<close>

section \<open>The state and its steps\<close>

datatype phase = Idle | Waiting | Critical | Releasing

datatype lock_msg = Request | Release

record cluster =
  mlock :: dsm_lock
  wlock :: "u32 \<Rightarrow> dsm_lock"
  phase :: "u32 \<Rightarrow> phase"
  up :: "u32 \<Rightarrow> lock_msg list"
  down :: "u32 \<Rightarrow> nat"

definition hand_grant :: "u32 option \<Rightarrow> cluster \<Rightarrow> cluster" where
  "hand_grant g s =
     (case g of None \<Rightarrow> s | Some n \<Rightarrow> s\<lparr>down := (down s)(n := Suc (down s n))\<rparr>)"

definition set_phase :: "u32 \<Rightarrow> phase \<Rightarrow> cluster \<Rightarrow> cluster" where
  "set_phase n p s = s\<lparr>phase := (phase s)(n := p)\<rparr>"

text \<open>The release of a node at the master, refused or obeyed.\<close>

definition master_release :: "u32 \<Rightarrow> cluster \<Rightarrow> cluster" where
  "master_release n s =
     (case lock_release n (mlock s) of
        None \<Rightarrow> s
      | Some (l, g) \<Rightarrow> hand_grant g (s\<lparr>mlock := l\<rparr>))"

definition master_request :: "u32 \<Rightarrow> cluster \<Rightarrow> cluster" where
  "master_request n s =
     (case lock_request n (mlock s) of (l, g) \<Rightarrow> hand_grant g (s\<lparr>mlock := l\<rparr>))"

text \<open>The steps, for a master \<open>m\<close> and workers \<open>ws\<close>.\<close>

inductive cluster_step :: "u32 \<Rightarrow> u32 list \<Rightarrow> cluster \<Rightarrow> cluster \<Rightarrow> bool" for m ws where
  lock_call: "n \<in> set ws \<Longrightarrow> phase s n = Idle \<Longrightarrow>
    cluster_step m ws s (set_phase n Waiting (s\<lparr>up := (up s)(n := up s n @ [Request])\<rparr>))"
| lock_return: "n \<in> set ws \<Longrightarrow> phase s n = Waiting \<Longrightarrow> worker_test n (wlock s n) \<Longrightarrow>
    cluster_step m ws s (set_phase n Critical s)"
| unlock_send: "n \<in> set ws \<Longrightarrow> phase s n = Critical \<Longrightarrow>
    cluster_step m ws s (set_phase n Releasing (s\<lparr>up := (up s)(n := up s n @ [Release])\<rparr>))"
| unlock_clear: "n \<in> set ws \<Longrightarrow> phase s n = Releasing \<Longrightarrow>
    cluster_step m ws s (set_phase n Idle (s\<lparr>wlock := (wlock s)(n := lock_cleared (wlock s n))\<rparr>))"
| request_arrives: "n \<in> set ws \<Longrightarrow> up s n = Request # q \<Longrightarrow>
    cluster_step m ws s (master_request n (s\<lparr>up := (up s)(n := q)\<rparr>))"
| release_arrives: "n \<in> set ws \<Longrightarrow> up s n = Release # q \<Longrightarrow>
    cluster_step m ws s (master_release n (s\<lparr>up := (up s)(n := q)\<rparr>))"
| grant_arrives: "n \<in> set ws \<Longrightarrow> down s n = Suc k \<Longrightarrow>
    cluster_step m ws s (s\<lparr>down := (down s)(n := k),
                           wlock := (wlock s)(n := lock_granted n (wlock s n))\<rparr>)"
| master_call: "phase s m = Idle \<Longrightarrow> cluster_step m ws s (set_phase m Waiting s)"
| master_return: "phase s m = Waiting \<Longrightarrow> master_test m (mlock s) = Some l \<Longrightarrow>
    cluster_step m ws s (set_phase m Critical (s\<lparr>mlock := l\<rparr>))"
| master_unlock: "phase s m = Critical \<Longrightarrow>
    cluster_step m ws s (set_phase m Idle (master_release m s))"

definition cluster_start :: "cluster \<Rightarrow> bool" where
  "cluster_start s \<longleftrightarrow> lock_ok (mlock s) \<and> \<not> locked (mlock s) \<and> (\<forall>n. \<not> locked (wlock s n)) \<and>
     (\<forall>n. phase s n = Idle \<and> up s n = [] \<and> down s n = 0)"

abbreviation cluster_reach :: "u32 \<Rightarrow> u32 list \<Rightarrow> cluster \<Rightarrow> bool" where
  "cluster_reach m ws \<equiv> reachable cluster_start (cluster_step m ws)"

inductive_cases cluster_stepE: "cluster_step m ws s s'"

section \<open>The invariant\<close>

text \<open>
  The lock travels as a token: a grant in flight, a release in flight, or a worker that has the
  lock. A worker the master counts as the holder has exactly one token, any other none. What a
  worker has asked for and not got is one request in flight or one place in the queue.
\<close>

definition tokens :: "cluster \<Rightarrow> u32 \<Rightarrow> nat" where
  "tokens s n = down s n + count_list (up s n) Release +
     (if phase s n = Critical \<or> phase s n = Waiting \<and> locked (wlock s n) then 1 else 0)"

definition asking :: "cluster \<Rightarrow> u32 \<Rightarrow> nat" where
  "asking s n = count_list (up s n) Request + count_list (lock_queue (mlock s)) n"

definition worker_inv :: "cluster \<Rightarrow> u32 \<Rightarrow> bool" where
  "worker_inv s n \<longleftrightarrow>
     tokens s n = (if lock_holder (mlock s) = Some n then 1 else 0) \<and>
     asking s n \<le> (if phase s n = Waiting \<and> \<not> locked (wlock s n) \<and> down s n = 0 then 1 else 0) \<and>
     (0 < down s n \<longrightarrow> phase s n = Waiting \<and> \<not> locked (wlock s n)) \<and>
     (phase s n = Idle \<longrightarrow> \<not> locked (wlock s n)) \<and>
     (phase s n = Critical \<or> phase s n = Releasing \<longrightarrow> locked (wlock s n)) \<and>
     (locked (wlock s n) \<longrightarrow> holder_id (wlock s n) = n)"

definition cluster_inv :: "u32 \<Rightarrow> u32 list \<Rightarrow> cluster \<Rightarrow> bool" where
  "cluster_inv m ws s \<longleftrightarrow> lock_ok (mlock s) \<and> (\<forall>n \<in> set ws. worker_inv s n) \<and>
     (phase s m = Critical \<longleftrightarrow> lock_holder (mlock s) = Some m) \<and>
     (\<forall>n. lock_holder (mlock s) = Some n \<longrightarrow> n = m \<or> n \<in> set ws) \<and>
     set (lock_queue (mlock s)) \<subseteq> set ws \<and>
     (\<forall>n. n \<notin> set ws \<and> n \<noteq> m \<longrightarrow> phase s n = Idle)"

lemma worker_inv_same:
  assumes "worker_inv s n" "phase s' n = phase s n" "wlock s' n = wlock s n" "up s' n = up s n"
    "down s' n = down s n" "lock_holder (mlock s') = Some n \<longleftrightarrow> lock_holder (mlock s) = Some n"
    "count_list (lock_queue (mlock s')) n \<le> count_list (lock_queue (mlock s)) n"
  shows "worker_inv s' n"
  using assms unfolding worker_inv_def tokens_def asking_def by auto

lemma count_list_tl: "count_list (tl xs) x \<le> count_list xs x"
  by (cases xs) auto

lemma set_tl_subset: "set (tl xs) \<subseteq> set xs"
  by (cases xs) auto

lemma cluster_invD:
  "cluster_inv m ws s \<Longrightarrow> n \<in> set ws \<Longrightarrow> worker_inv s n"
  by (simp add: cluster_inv_def)

text \<open>A step of one worker that leaves the master's record alone.\<close>

lemma cluster_inv_local:
  assumes "cluster_inv m ws s" "m \<notin> set ws" "n \<in> set ws" "mlock s' = mlock s" "worker_inv s' n"
    and "\<And>k. k \<noteq> n \<Longrightarrow> phase s' k = phase s k \<and> wlock s' k = wlock s k \<and> up s' k = up s k \<and> down s' k = down s k"
  shows "cluster_inv m ws s'"
proof -
  have "worker_inv s' k" if "k \<in> set ws" for k
  proof (cases "k = n")
    case True
    with assms(5) show ?thesis by simp
  next
    case False
    then show ?thesis
      using assms(1,4,6) that by (intro worker_inv_same [of s k s']) (auto simp: cluster_inv_def)
  qed
  moreover have "m \<noteq> n"
    using assms(2,3) by auto
  moreover have "phase s' k = Idle" if "k \<notin> set ws" "k \<noteq> m" for k
  proof -
    have "k \<noteq> n"
      using that(1) assms(3) by auto
    then show ?thesis
      using that assms(1,6) by (simp add: cluster_inv_def)
  qed
  ultimately show ?thesis
    using assms(1,3,4,6) unfolding cluster_inv_def by auto
qed

text \<open>The master takes a request: the record changes, and at most the requester gets a token.\<close>

lemma worker_inv_request_arrives:
  assumes "worker_inv s n" "lock_ok (mlock s)" "up s n = Request # q"
  shows "worker_inv (master_request n (s\<lparr>up := (up s)(n := q)\<rparr>)) n"
proof (cases "lock_holder (mlock s)")
  case None
  then show ?thesis
    using assms lm.request_free [OF assms(2) None, of n]
    by (cases "lock_request n (mlock s)")
       (auto simp: worker_inv_def tokens_def asking_def master_request_def hand_grant_def split: if_splits)
next
  case (Some h)
  then show ?thesis
    using assms lm.request_held [OF assms(2) Some, of n]
    by (cases "lock_request n (mlock s)")
       (auto simp: worker_inv_def tokens_def asking_def master_request_def hand_grant_def split: if_splits)
qed

lemma cluster_inv_request_arrives:
  assumes inv: "cluster_inv m ws s" and m: "m \<notin> set ws" and n: "n \<in> set ws" and u: "up s n = Request # q"
  shows "cluster_inv m ws (master_request n (s\<lparr>up := (up s)(n := q)\<rparr>))" (is "cluster_inv m ws ?s")
proof -
  have ok: "lock_ok (mlock s)" and wn: "worker_inv s n"
    using inv n by (auto simp: cluster_inv_def)
  obtain l g where r: "lock_request n (mlock s) = (l, g)"
    by (cases "lock_request n (mlock s)")
  have ml: "mlock ?s = l" "phase ?s = phase s" "wlock ?s = wlock s"
    by (auto simp: master_request_def r hand_grant_def split: option.splits)
  have okl: "lock_ok l"
    using lm.request_inv [OF ok, of n] r by simp
  have cases: "lock_holder (mlock s) = None \<and> g = Some n \<and> lock_holder l = Some n \<and> lock_queue l = [] \<or>
    (\<exists>h. lock_holder (mlock s) = Some h \<and> g = None \<and> lock_holder l = Some h \<and>
       (lock_queue l = lock_queue (mlock s) @ [n] \<or> lock_queue l = lock_queue (mlock s)))"
    using lm.request_free [OF ok, of n] lm.request_held [OF ok, of _ n] lm.free_empty [OF ok] r
    by (cases "lock_holder (mlock s)") (auto split: if_splits)
  have "worker_inv ?s k" if "k \<in> set ws" for k
  proof (cases "k = n")
    case True
    with worker_inv_request_arrives [OF wn ok u] show ?thesis by simp
  next
    case False
    have same: "up ?s k = up s k" "down ?s k = down s k"
      using False cases by (auto simp: master_request_def r hand_grant_def)
    show ?thesis
      using inv that cases False
      by (intro worker_inv_same [of s k ?s]) (auto simp: cluster_inv_def ml same)
  qed
  moreover have "n \<noteq> m"
    using m n by auto
  ultimately show ?thesis
    using inv cases okl n unfolding cluster_inv_def ml by auto
qed

text \<open>
  The master obeys a release of the holder: the token goes to the head of the queue, who is waiting
  for it.
\<close>

lemma release_effect:
  assumes "lock_ok l" "lock_holder l = Some n"
  shows "\<exists>l'. lock_ok l' \<and> lock_release n l = Some (l', lock_holder l') \<and>
    lock_queue l' = tl (lock_queue l) \<and>
    lock_holder l' = (case lock_queue l of [] \<Rightarrow> None | k # q \<Rightarrow> Some k)"
proof -
  obtain l' g where r: "lock_release n l = Some (l', g)"
    using lm.release_last [OF assms] lm.release_next [OF assms] by (cases "lock_queue l") auto
  then show ?thesis
    using lm.release_inv [OF assms(1) r] lm.release_grant [OF assms(1) r] lm.release_queue [OF assms(1) r]
    by auto
qed

lemma master_release_eq:
  assumes "lock_release n (mlock s) = Some (l, g)"
  shows "mlock (master_release n s) = l" "phase (master_release n s) = phase s"
    "wlock (master_release n s) = wlock s" "up (master_release n s) = up s"
    "down (master_release n s) k = down s k + (if g = Some k then 1 else 0)"
  using assms by (auto simp: master_release_def hand_grant_def split: option.splits)

text \<open>
  After a release every worker is as before, but for the loss of the releaser's token, which
  \<open>drop_token\<close> states, and for the new holder.
\<close>

lemma worker_inv_granted:
  assumes "worker_inv s k" "lock_ok (mlock s)" "lock_ok l" "lock_holder (mlock s) = Some n"
    and "lock_queue l = tl (lock_queue (mlock s))"
    and "lock_holder l = (case lock_queue (mlock s) of [] \<Rightarrow> None | j # q \<Rightarrow> Some j)"
    and "mlock s' = l" "wlock s' k = wlock s k" "phase s' k = phase s k"
    and "down s' k = down s k + (if lock_holder l = Some k then 1 else 0)"
    and "count_list (up s' k) Release = count_list (up s k) Release - (if k = n then 1 else 0)"
    and "count_list (up s' k) Request = count_list (up s k) Request"
    and "k = n \<Longrightarrow> 0 < count_list (up s k) Release"
  shows "worker_inv s' k"
proof (cases "lock_queue (mlock s)")
  case Nil
  then show ?thesis
    using assms by (auto simp: worker_inv_def tokens_def asking_def split: if_splits)
next
  case (Cons j q)
  then show ?thesis
    using assms by (cases "k = j"; cases "k = n") (auto simp: worker_inv_def tokens_def asking_def split: if_splits)
qed

lemma cluster_inv_release_arrives:
  assumes inv: "cluster_inv m ws s" and m: "m \<notin> set ws" and n: "n \<in> set ws" and u: "up s n = Release # q"
  shows "cluster_inv m ws (master_release n (s\<lparr>up := (up s)(n := q)\<rparr>))" (is "cluster_inv m ws ?s")
proof -
  have ok: "lock_ok (mlock s)" and wn: "worker_inv s n"
    using inv n by (auto simp: cluster_inv_def)
  have h: "lock_holder (mlock s) = Some n"
    using wn u by (auto simp: worker_inv_def tokens_def split: if_splits)
  obtain l where l: "lock_ok l" "lock_release n (mlock s) = Some (l, lock_holder l)"
    "lock_queue l = tl (lock_queue (mlock s))"
    "lock_holder l = (case lock_queue (mlock s) of [] \<Rightarrow> None | k # q \<Rightarrow> Some k)"
    using release_effect [OF ok h] by blast
  have "lock_release n (mlock (s\<lparr>up := (up s)(n := q)\<rparr>)) = Some (l, lock_holder l)"
    using l(2) by simp
  note eq = master_release_eq [OF this, simplified]
  have "worker_inv ?s k" if "k \<in> set ws" for k
    by (intro worker_inv_granted [OF cluster_invD [OF inv that] ok l(1) h l(3,4)])
       (auto simp: eq u)
  moreover have "set (lock_queue l) \<subseteq> set ws"
    using inv l(3) set_tl_subset [of "lock_queue (mlock s)"] by (auto simp: cluster_inv_def)
  moreover have "lock_holder l = Some k \<Longrightarrow> k \<in> set ws" for k
    using inv l(4) by (auto simp: cluster_inv_def split: list.splits)
  moreover have "n \<noteq> m"
    using m n by auto
  ultimately show ?thesis
    using inv l(1) h m n unfolding cluster_inv_def eq by auto
qed

lemma cluster_inv_master_unlock:
  assumes inv: "cluster_inv m ws s" and m: "m \<notin> set ws" and c: "phase s m = Critical"
  shows "cluster_inv m ws (set_phase m Idle (master_release m s))" (is "cluster_inv m ws ?s")
proof -
  have ok: "lock_ok (mlock s)" and h: "lock_holder (mlock s) = Some m"
    using inv c by (auto simp: cluster_inv_def)
  obtain l where l: "lock_ok l" "lock_release m (mlock s) = Some (l, lock_holder l)"
    "lock_queue l = tl (lock_queue (mlock s))"
    "lock_holder l = (case lock_queue (mlock s) of [] \<Rightarrow> None | k # q \<Rightarrow> Some k)"
    using release_effect [OF ok h] by blast
  note eq = master_release_eq [OF l(2)]
  have "worker_inv ?s k" if "k \<in> set ws" for k
  proof -
    have "k \<noteq> m"
      using m that by auto
    then show ?thesis
      by (intro worker_inv_granted [OF cluster_invD [OF inv that] ok l(1) h l(3,4)])
         (simp_all add: set_phase_def eq)
  qed
  moreover have "set (lock_queue l) \<subseteq> set ws"
    using inv l(3) set_tl_subset [of "lock_queue (mlock s)"] by (auto simp: cluster_inv_def)
  moreover have "lock_holder l = Some k \<Longrightarrow> k \<in> set ws" for k
    using inv l(4) by (auto simp: cluster_inv_def split: list.splits)
  ultimately show ?thesis
    using inv l(1) m unfolding cluster_inv_def by (auto simp: set_phase_def eq)
qed

lemma cluster_inv_master_return:
  assumes inv: "cluster_inv m ws s" and m: "m \<notin> set ws" and w: "phase s m = Waiting"
    and l: "master_test m (mlock s) = Some l"
  shows "cluster_inv m ws (set_phase m Critical (s\<lparr>mlock := l\<rparr>))" (is "cluster_inv m ws ?s")
proof -
  have ok: "lock_ok (mlock s)" and h: "lock_holder (mlock s) \<noteq> Some m"
    using inv w by (auto simp: cluster_inv_def)
  then have free: "lock_holder (mlock s) = None"
    using l by (auto simp: master_test_def lock_holder_def split: if_splits)
  have l': "lock_ok l" "lock_holder l = Some m" "lock_queue l = lock_queue (mlock s)"
    using l ok by (auto simp: master_test_def lock_ok_def lock_holder_def lock_queue_def split: if_splits)
  have "worker_inv ?s k" if "k \<in> set ws" for k
  proof -
    have "k \<noteq> m"
      using m that by auto
    then show ?thesis
      using inv that free l'
      by (intro worker_inv_same [of s k ?s]) (auto simp: cluster_inv_def set_phase_def)
  qed
  then show ?thesis
    using inv l' unfolding cluster_inv_def by (auto simp: set_phase_def)
qed

lemma cluster_inv_master_call:
  assumes inv: "cluster_inv m ws s" and m: "m \<notin> set ws" and w: "phase s m = Idle"
  shows "cluster_inv m ws (set_phase m Waiting s)" (is "cluster_inv m ws ?s")
proof -
  have "worker_inv ?s k" if "k \<in> set ws" for k
  proof -
    have "k \<noteq> m"
      using m that by auto
    then show ?thesis
      using inv that by (intro worker_inv_same [of s k ?s]) (auto simp: cluster_inv_def set_phase_def)
  qed
  then show ?thesis
    using inv w unfolding cluster_inv_def by (auto simp: set_phase_def)
qed

text \<open>Every step keeps the invariant.\<close>

lemma cluster_inv_step:
  assumes "cluster_step m ws s s'" "m \<notin> set ws" "cluster_inv m ws s"
  shows "cluster_inv m ws s'"
  using assms
proof (cases rule: cluster_step.cases)
  case (lock_call n)
  then have "worker_inv s' n"
    using cluster_invD [OF assms(3), of n] by (auto simp: worker_inv_def tokens_def asking_def set_phase_def split: if_splits)
  with lock_call assms(2,3) show ?thesis
    by (intro cluster_inv_local [of m ws s n s']) (auto simp: set_phase_def)
next
  case (lock_return n)
  then have "worker_inv s' n"
    using cluster_invD [OF assms(3), of n] by (auto simp: worker_inv_def tokens_def asking_def set_phase_def
        worker_test_def split: if_splits)
  with lock_return assms(2,3) show ?thesis
    by (intro cluster_inv_local [of m ws s n s']) (auto simp: set_phase_def)
next
  case (unlock_send n)
  then have "worker_inv s' n"
    using cluster_invD [OF assms(3), of n] by (auto simp: worker_inv_def tokens_def asking_def set_phase_def split: if_splits)
  with unlock_send assms(2,3) show ?thesis
    by (intro cluster_inv_local [of m ws s n s']) (auto simp: set_phase_def)
next
  case (unlock_clear n)
  then have "worker_inv s' n"
    using cluster_invD [OF assms(3), of n] by (auto simp: worker_inv_def tokens_def asking_def set_phase_def
        lock_cleared_def split: if_splits)
  with unlock_clear assms(2,3) show ?thesis
    by (intro cluster_inv_local [of m ws s n s']) (auto simp: set_phase_def)
next
  case (grant_arrives n k)
  then have "worker_inv s' n"
    using cluster_invD [OF assms(3), of n] by (auto simp: worker_inv_def tokens_def asking_def
        lock_granted_def split: if_splits)
  with grant_arrives assms(2,3) show ?thesis
    by (intro cluster_inv_local [of m ws s n s']) auto
qed (simp_all add: cluster_inv_request_arrives cluster_inv_release_arrives cluster_inv_master_call
    cluster_inv_master_return cluster_inv_master_unlock)

lemma cluster_inv_start: "cluster_start s \<Longrightarrow> cluster_inv m ws s"
  using lm.free_empty [of "mlock s"]
  by (auto simp: cluster_start_def cluster_inv_def worker_inv_def tokens_def asking_def lock_holder_def)

section \<open>No request is lost\<close>

text \<open>A waiting worker has the lock, or its request is somewhere on the way to it.\<close>

definition served :: "cluster \<Rightarrow> u32 \<Rightarrow> bool" where
  "served s n \<longleftrightarrow> (phase s n = Waiting \<longrightarrow>
     locked (wlock s n) \<or> 0 < down s n \<or> Request \<in> set (up s n) \<or> n \<in> set (lock_queue (mlock s)))"

text \<open>The queue never holds all workers while one of them is still asking.\<close>

lemma queue_has_room:
  assumes inv: "cluster_inv m ws s" and n: "n \<in> set ws" and u: "Request \<in> set (up s n)"
    and ws: "length ws \<le> DSM_MAX_NODES"
  shows "length (lock_queue (mlock s)) < DSM_MAX_NODES"
proof -
  have sub: "set (lock_queue (mlock s)) \<subseteq> set ws"
    using inv by (simp add: cluster_inv_def)
  have "count_list (lock_queue (mlock s)) k \<le> 1" if "k \<in> set ws" for k
    using cluster_invD [OF inv that] by (auto simp: worker_inv_def asking_def split: if_splits)
  then have dist: "distinct (lock_queue (mlock s))"
    using sub by (intro distinct_if_count_le_1) auto
  have "0 < count_list (up s n) Request"
    using u count_list_0_iff [of "up s n" Request] by simp
  then have "count_list (lock_queue (mlock s)) n = 0"
    using cluster_invD [OF inv n] by (auto simp: worker_inv_def asking_def split: if_splits)
  then have "set (lock_queue (mlock s)) \<subseteq> set ws - {n}"
    using sub by (auto simp: count_list_0_iff)
  then have "card (set (lock_queue (mlock s))) \<le> card (set ws - {n})"
    by (intro card_mono) auto
  also have "\<dots> < card (set ws)"
    using n by (intro psubset_card_mono) auto
  also have "\<dots> \<le> length ws"
    by (rule card_length)
  finally show ?thesis
    using dist ws by (simp add: distinct_card)
qed

lemma served_master_release:
  assumes "served s k" "lock_ok (mlock s)" "lock_holder (mlock s) = Some n"
  shows "served (master_release n s) k"
proof -
  obtain l where l: "lock_release n (mlock s) = Some (l, lock_holder l)"
    "lock_queue l = tl (lock_queue (mlock s))"
    "lock_holder l = (case lock_queue (mlock s) of [] \<Rightarrow> None | k # q \<Rightarrow> Some k)"
    using release_effect [OF assms(2,3)] by blast
  note eq = master_release_eq [OF l(1)]
  show ?thesis
    using assms(1) l(2,3) by (cases "lock_queue (mlock s)") (auto simp: served_def eq)
qed

lemma served_request_arrives:
  assumes inv: "cluster_inv m ws s" and n: "n \<in> set ws" and u: "up s n = Request # q"
    and ws: "length ws \<le> DSM_MAX_NODES" and k: "served s k"
  shows "served (master_request n (s\<lparr>up := (up s)(n := q)\<rparr>)) k"
proof -
  have ok: "lock_ok (mlock s)"
    using inv by (simp add: cluster_inv_def)
  have room: "length (lock_queue (mlock s)) < DSM_MAX_NODES"
    using queue_has_room [OF inv n _ ws] u by simp
  obtain l g where r: "lock_request n (mlock s) = (l, g)"
    by (cases "lock_request n (mlock s)")
  have "g = Some n \<and> lock_queue l = [] \<and> lock_queue (mlock s) = [] \<or>
      g = None \<and> lock_queue l = lock_queue (mlock s) @ [n]"
    using lm.request_free [OF ok, of n] lm.request_held [OF ok, of _ n] lm.free_empty [OF ok] r room
    by (cases "lock_holder (mlock s)") auto
  then show ?thesis
    using k u by (auto simp: served_def master_request_def r hand_grant_def)
qed

lemma served_step:
  assumes "cluster_step m ws s s'" "m \<notin> set ws" "cluster_inv m ws s" "length ws \<le> DSM_MAX_NODES"
    and "\<forall>k \<in> set ws. served s k" "j \<in> set ws"
  shows "served s' j"
  using assms(1)
proof (cases rule: cluster_step.cases)
  case (request_arrives n q)
  then show ?thesis
    using served_request_arrives [OF assms(3) _ _ assms(4)] assms(5,6) by simp
next
  case (release_arrives n q)
  have ok: "lock_ok (mlock s)"
    using assms(3) by (simp add: cluster_inv_def)
  have "lock_holder (mlock s) = Some n"
    using cluster_invD [OF assms(3) release_arrives(2)] release_arrives(3)
    by (auto simp: worker_inv_def tokens_def split: if_splits)
  moreover have "served (s\<lparr>up := (up s)(n := q)\<rparr>) j"
    using assms(5,6) release_arrives(3) by (auto simp: served_def)
  ultimately show ?thesis
    using served_master_release [of "s\<lparr>up := (up s)(n := q)\<rparr>" j n] ok release_arrives(1) by simp
next
  case master_unlock
  have "lock_ok (mlock s)" "lock_holder (mlock s) = Some m"
    using assms(3) master_unlock by (auto simp: cluster_inv_def)
  then have "served (master_release m s) j"
    using served_master_release assms(5,6) by blast
  moreover have "j \<noteq> m"
    using assms(2,6) by auto
  ultimately show ?thesis
    using master_unlock(1) by (auto simp: served_def set_phase_def)
next
  case (master_return l)
  then have "lock_queue l = lock_queue (mlock s)"
    by (auto simp: master_test_def lock_queue_def split: if_splits)
  moreover have "j \<noteq> m"
    using assms(2,6) by auto
  ultimately show ?thesis
    using master_return(1) assms(5,6) by (auto simp: served_def set_phase_def)
qed (use assms(2,5,6) in \<open>auto simp: served_def set_phase_def lock_granted_def split: if_splits\<close>)

lemma served_start: "cluster_start s \<Longrightarrow> served s k"
  by (simp add: served_def cluster_start_def)

text \<open>Both invariants together, for every reachable state.\<close>

interpretation lock_inv: inductive_invariant cluster_start "cluster_step m ws"
  "\<lambda>s. m \<notin> set ws \<longrightarrow>
     cluster_inv m ws s \<and> (length ws \<le> DSM_MAX_NODES \<longrightarrow> (\<forall>k \<in> set ws. served s k))"
  by unfold_locales (auto simp: cluster_inv_start served_start cluster_inv_step intro: served_step)

lemma cluster_inv_reach: "cluster_reach m ws s \<Longrightarrow> m \<notin> set ws \<Longrightarrow> cluster_inv m ws s"
  by (drule lock_inv.inv_reach) simp

lemma served_reach:
  "cluster_reach m ws s \<Longrightarrow> m \<notin> set ws \<Longrightarrow> length ws \<le> DSM_MAX_NODES \<Longrightarrow> \<forall>k \<in> set ws. served s k"
  by (drule lock_inv.inv_reach) simp

section \<open>Mutual exclusion and progress\<close>

text \<open>
  A node in the critical section, the master included, is the one the master's record names: so no two
  nodes are there at once, whatever the order in which messages are delivered and threads run.
\<close>

lemma cluster_holder:
  assumes "cluster_reach m ws s" "m \<notin> set ws" "phase s n = Critical"
  shows "lock_holder (mlock s) = Some n"
proof -
  have inv: "cluster_inv m ws s"
    using assms(1,2) by (rule cluster_inv_reach)
  show ?thesis
  proof (cases "n \<in> set ws")
    case True
    then show ?thesis
      using cluster_invD [OF inv True] assms(3) by (auto simp: worker_inv_def tokens_def split: if_splits)
  next
    case False
    then show ?thesis
      using inv assms(3) by (cases "n = m") (auto simp: cluster_inv_def)
  qed
qed

text \<open>
  With at most 64 workers, when no message is in flight, no node is inside or leaving the critical
  section and no waiting worker could return, no worker is waiting at all.
\<close>

lemma cluster_no_deadlock:
  assumes "cluster_reach m ws s" "m \<notin> set ws" "length ws \<le> DSM_MAX_NODES"
    and "\<forall>n \<in> set ws. up s n = [] \<and> down s n = 0 \<and> phase s n \<noteq> Critical \<and> phase s n \<noteq> Releasing"
    and "\<forall>n \<in> set ws. phase s n = Waiting \<longrightarrow> \<not> worker_test n (wlock s n)" "phase s m \<noteq> Critical"
  shows "\<forall>n \<in> set ws. phase s n = Idle"
proof
  fix n assume n: "n \<in> set ws"
  have inv: "cluster_inv m ws s"
    using assms(1,2) by (rule cluster_inv_reach)
  have ok: "lock_ok (mlock s)"
    using inv by (simp add: cluster_inv_def)
  show "phase s n = Idle"
  proof (rule ccontr)
    assume "phase s n \<noteq> Idle"
    then have w: "phase s n = Waiting"
      using assms(4) n by (cases "phase s n") auto
    have "\<not> locked (wlock s n)"
      using cluster_invD [OF inv n] assms(5) n w by (auto simp: worker_inv_def worker_test_def)
    then have "n \<in> set (lock_queue (mlock s))"
      using served_reach [OF assms(1-3)] assms(4) n w by (auto simp: served_def)
    then obtain h where h: "lock_holder (mlock s) = Some h"
      using lm.free_empty [OF ok] by (cases "lock_holder (mlock s)") auto
    have hw: "h \<in> set ws"
      using inv h assms(6) by (auto simp: cluster_inv_def)
    then have "phase s h = Waiting \<and> worker_test h (wlock s h)"
      using cluster_invD [OF inv hw] assms(4) h
      by (auto simp: worker_inv_def tokens_def worker_test_def split: if_splits)
    with assms(5) hw show False by blast
  qed
qed

end
