(* ===== verification/DsmOwnership.thy ===== *)
theory DsmOwnership
  imports DsmTcp
begin

text \<open>
  The hash table of allocations of \<^verbatim>\<open>src/dsm_memory.c\<close>. Each bucket is a linked list with the newest
  entry first; an allocation is one entry, in the bucket of its first page. \<open>owner_of\<close> is the table's
  abstraction: the owner an address is found under, if any.
\<close>

section \<open>Operations\<close>

abbreviation (input) OWNERSHIP_TABLE_SIZE :: nat where "OWNERSHIP_TABLE_SIZE \<equiv> 4096"

definition ownership_hash :: "u64 \<Rightarrow> nat" where
  "ownership_hash a = unat (drop_bit 12 a) mod OWNERSHIP_TABLE_SIZE"

text \<open>\<^verbatim>\<open>global_addr >= entry->global_addr && global_addr < entry->global_addr + entry->size\<close>\<close>

definition entry_covers :: "u64 \<Rightarrow> ownership_entry \<Rightarrow> bool" where
  "entry_covers a e \<longleftrightarrow> oe_global_addr e \<le> a \<and> a < oe_global_addr e + oe_size e"

definition dsm_ownership_register :: "u64 \<Rightarrow> u64 \<Rightarrow> u32 \<Rightarrow> world \<Rightarrow> int \<times> world" where
  "dsm_ownership_register a n owner w =
     (let (ok, w) = sys_call w in
      if \<not> ok then (-1, w)
      else let e = \<lparr>oe_global_addr = a, oe_size = n, oe_owner_id = owner\<rparr>; h = ownership_hash a in
        (0, w\<lparr>g_ownership_table := (g_ownership_table w)(h := e # g_ownership_table w h)\<rparr>))"

text \<open>The owner comes back as an \<^verbatim>\<open>int\<close>.\<close>

definition dsm_ownership_get :: "u64 \<Rightarrow> world \<Rightarrow> int" where
  "dsm_ownership_get a w =
     (case List.find (entry_covers a) (g_ownership_table w (ownership_hash a)) of
        None \<Rightarrow> -1
      | Some e \<Rightarrow> sint (oe_owner_id e))"

definition dsm_ownership_set :: "u64 \<Rightarrow> u32 \<Rightarrow> world \<Rightarrow> int \<times> world" where
  "dsm_ownership_set a owner w =
     (let h = ownership_hash a; es = g_ownership_table w h in
      case List.find (entry_covers a) es of
        None \<Rightarrow> (-1, w)
      | Some _ \<Rightarrow>
          (0, w\<lparr>g_ownership_table := (g_ownership_table w)
                (h := update_first (entry_covers a) (\<lambda>e. e\<lparr>oe_owner_id := owner\<rparr>) es)\<rparr>))"

definition ownership_table_init :: "world \<Rightarrow> world" where
  "ownership_table_init w = w\<lparr>g_ownership_table := (\<lambda>_. [])\<rparr>"

definition ownership_table_destroy :: "world \<Rightarrow> world" where
  "ownership_table_destroy w = w\<lparr>g_ownership_table := (\<lambda>_. [])\<rparr>"

section \<open>The owner of an address\<close>

definition owner_of :: "u64 \<Rightarrow> world \<Rightarrow> u32 option" where
  "owner_of a w = map_option oe_owner_id
     (List.find (entry_covers a) (g_ownership_table w (ownership_hash a)))"

lemma ownership_get_owner_of:
  "dsm_ownership_get a w = (case owner_of a w of None \<Rightarrow> -1 | Some n \<Rightarrow> sint n)"
  by (simp add: dsm_ownership_get_def owner_of_def split: option.splits)

lemma register_frame [simp, frame_simps]:
  "ctx (snd (dsm_ownership_register a n o' w)) = ctx w"
  "vm (snd (dsm_ownership_register a n o' w)) = vm w"
  "mem (snd (dsm_ownership_register a n o' w)) = mem w"
  "sent (snd (dsm_ownership_register a n o' w)) = sent w"
  "wakes (snd (dsm_ownership_register a n o' w)) = wakes w"
  "next_region_ptr (snd (dsm_ownership_register a n o' w)) = next_region_ptr w"
  by (simp_all add: dsm_ownership_register_def case_prod_beta Let_def)

lemma register_owner_of:
  assumes "fst (dsm_ownership_register a n k w) = 0"
  shows "owner_of x (snd (dsm_ownership_register a n k w)) =
    (if ownership_hash x = ownership_hash a \<and> a \<le> x \<and> x < a + n then Some k else owner_of x w)"
  using assms
  by (auto simp: dsm_ownership_register_def owner_of_def entry_covers_def case_prod_beta Let_def
      split: if_splits)

text \<open>Setting the owner changes the first entry that covers the address, and so its whole range.\<close>

lemma find_update_first_self:
  assumes "\<And>e. P (f e) = P e"
  shows "List.find P (update_first P f es) = map_option f (List.find P es)"
  using assms by (induction es) auto

lemma find_update_first_other:
  assumes "\<And>e. Q (f e) = Q e" "\<forall>e \<in> set es. P e \<longrightarrow> \<not> Q e"
  shows "List.find Q (update_first P f es) = List.find Q es"
  using assms by (induction es) auto

text \<open>Addresses of one page share a bucket, and the next 4095 pages have others.\<close>

lemma page_number: "unat (drop_bit 12 (a :: u64)) = unat a div 4096"
  by (simp add: drop_bit_eq_div unat_div_distrib)

lemma ownership_hash_eq: "ownership_hash a = unat a div 4096 mod 4096"
  by (simp add: ownership_hash_def page_number)

lemma hash_same_page: "unat a div 4096 = unat b div 4096 \<Longrightarrow> ownership_hash a = ownership_hash b"
  by (simp add: ownership_hash_eq)

lemma hash_other_page:
  assumes "unat a div 4096 < unat b div 4096" "unat b div 4096 < unat a div 4096 + 4096"
  shows "ownership_hash a \<noteq> ownership_hash b"
proof
  assume "ownership_hash a = ownership_hash b"
  then have "unat b div 4096 mod 4096 = unat a div 4096 mod 4096"
    by (simp add: ownership_hash_eq)
  then have "4096 dvd unat b div 4096 - unat a div 4096"
    using assms(1) by (subst (asm) mod_eq_dvd_iff_nat) auto
  then have "4096 \<le> unat b div 4096 - unat a div 4096"
    using assms(1) by (intro dvd_imp_le) auto
  with assms(2) show False
    by simp
qed

section \<open>Properties\<close>

text \<open>
  Registering an allocation makes its node the owner of every address of the allocation that
  lies on its first page, and changes the owner of no address outside the allocation.
\<close>

lemma ownership_register_correct:
  assumes "fst (dsm_ownership_register a n k w) = 0"
  shows "(\<forall>x. a \<le> x \<and> x < a + n \<and> unat x div 4096 = unat a div 4096 \<longrightarrow>
      owner_of x (snd (dsm_ownership_register a n k w)) = Some k) \<and>
    (\<forall>x. \<not> (a \<le> x \<and> x < a + n) \<longrightarrow>
      owner_of x (snd (dsm_ownership_register a n k w)) = owner_of x w)"
proof (intro conjI allI impI)
  fix x assume "a \<le> x \<and> x < a + n \<and> unat x div 4096 = unat a div 4096"
  then show "owner_of x (snd (dsm_ownership_register a n k w)) = Some k"
    using hash_same_page [of x a] by (simp add: register_owner_of [OF assms])
next
  fix x assume "\<not> (a \<le> x \<and> x < a + n)"
  then have "\<not> (ownership_hash x = ownership_hash a \<and> a \<le> x \<and> x < a + n)"
    by blast
  then show "owner_of x (snd (dsm_ownership_register a n k w)) = owner_of x w"
    by (simp only: register_owner_of [OF assms] if_False)
qed

text \<open>
  C38. The later pages of an allocation are not found: for an address of the allocation on one of the
  4095 pages after the first, registering changes nothing, so in a table that had no owner for it
  \<^verbatim>\<open>dsm_ownership_get\<close> still answers -1.
\<close>

theorem ownership_misses_later_pages:
  assumes "a \<le> x" "x < a + n" "unat a div 4096 < unat x div 4096" "unat x div 4096 < unat a div 4096 + 4096"
    and "owner_of x w = None"
  shows "dsm_ownership_get x (snd (dsm_ownership_register a n k w)) = -1"
proof (cases "fst (dsm_ownership_register a n k w) = 0")
  case True
  then have "owner_of x (snd (dsm_ownership_register a n k w)) = owner_of x w"
    using register_owner_of [OF True, of x] hash_other_page [OF assms(3,4)] by simp
  with assms(5) show ?thesis
    by (simp add: ownership_get_owner_of)
next
  case False
  then have "g_ownership_table (snd (dsm_ownership_register a n k w)) = g_ownership_table w"
    by (simp add: dsm_ownership_register_def case_prod_beta Let_def split: if_splits)
  with assms(5) show ?thesis
    by (simp add: ownership_get_owner_of owner_of_def)
qed

theorem ownership_misses_later_pages_witness:
  "dsm_ownership_get 0x1001000 (snd (dsm_ownership_register 0x1000000 8192 2 boot_world)) = -1"
  by (rule ownership_misses_later_pages) (simp_all add: owner_of_def boot_world_def)

text \<open>
  \<^verbatim>\<open>dsm_ownership_set\<close> succeeds exactly when the address has an owner, which it then replaces, and
  it leaves the owner of every address that no entry shares with it; when it fails nothing changes.
\<close>

lemma ownership_set_correct:
  "case dsm_ownership_set a k w of (r, w') \<Rightarrow>
     (if owner_of a w = None then r = -1 \<and> w' = w
      else r = 0 \<and> owner_of a w' = Some k \<and>
        (\<forall>x. (\<forall>e \<in> set (g_ownership_table w (ownership_hash a)). entry_covers a e \<longrightarrow> \<not> entry_covers x e)
           \<longrightarrow> owner_of x w' = owner_of x w))"
proof (cases "List.find (entry_covers a) (g_ownership_table w (ownership_hash a))")
  case None
  then show ?thesis
    by (simp add: dsm_ownership_set_def owner_of_def Let_def)
next
  case (Some e)
  let ?f = "\<lambda>e. e\<lparr>oe_owner_id := k\<rparr>"
  have cov: "entry_covers x (?f e) = entry_covers x e" for x e
    by (simp add: entry_covers_def)
  have "owner_of x (w\<lparr>g_ownership_table := (g_ownership_table w)(ownership_hash a :=
      update_first (entry_covers a) ?f (g_ownership_table w (ownership_hash a)))\<rparr>) = owner_of x w"
    if "\<forall>e \<in> set (g_ownership_table w (ownership_hash a)). entry_covers a e \<longrightarrow> \<not> entry_covers x e" for x
    using find_update_first_other [of "entry_covers x" ?f, OF cov that] by (simp add: owner_of_def)
  with Some show ?thesis
    by (simp add: dsm_ownership_set_def owner_of_def Let_def find_update_first_self cov)
qed

end
