(* ===== verification/DsmPages.thy ===== *)
theory DsmPages
  imports DsmOwnership
begin

text \<open>
  The page table of \<^verbatim>\<open>src/dsm_memory.c\<close> and the transfer of pages between nodes. A page is known by its
  index in the table, which stands for the \<^verbatim>\<open>dsm_page_t*\<close> of the code: pages are only ever added, and
  freed all at once with the table.
\<close>

section \<open>The table\<close>

abbreviation (input) PAGE_TABLE_INITIAL_CAPACITY :: nat where "PAGE_TABLE_INITIAL_CAPACITY \<equiv> 1024"

definition put_pages :: "dsm_page_table \<Rightarrow> world \<Rightarrow> world" where
  "put_pages t w = w\<lparr>ctx := (ctx w)\<lparr>page_table := Some t\<rparr>\<rparr>"

definition dsm_page_table_init :: "world \<Rightarrow> int \<times> world" where
  "dsm_page_table_init w =
     (let (ok, w) = sys_calls 3 w in
      if \<not> ok then (-1, w\<lparr>ctx := (ctx w)\<lparr>page_table := None\<rparr>\<rparr>)
      else (0, put_pages \<lparr>pages = [], capacity = PAGE_TABLE_INITIAL_CAPACITY\<rparr> w))"

definition dsm_page_table_destroy :: "world \<Rightarrow> world" where
  "dsm_page_table_destroy w =
     (if page_table (ctx w) = None then w else w\<lparr>ctx := (ctx w)\<lparr>page_table := None\<rparr>\<rparr>)"

definition new_page :: "u64 \<Rightarrow> u64 \<Rightarrow> u32 \<Rightarrow> world \<Rightarrow> dsm_page" where
  "new_page ga la owner w =
     \<lparr>local_addr = la, global_addr = ga, psize = DSM_PAGE_SIZE,
      pstate = (if owner = local_node_id (ctx w) then DSM_PAGE_MODIFIED else DSM_PAGE_INVALID),
      owner_id = owner, version = 1, dirty = False\<rparr>"

definition dsm_page_register :: "u64 \<Rightarrow> u64 \<Rightarrow> u32 \<Rightarrow> world \<Rightarrow> int \<times> world" where
  "dsm_page_register ga la owner w =
     (case page_table (ctx w) of
        None \<Rightarrow> (-1, w)
      | Some t \<Rightarrow>
          (let (ok, w) = sys_call w in
           if \<not> ok then (-1, w)
           else let page = new_page ga la owner w in
             if capacity t \<le> length (pages t)
             then let (ok, w) = sys_call w in
               if \<not> ok then (-1, w)
               else (0, put_pages \<lparr>pages = pages t @ [page], capacity = capacity t * 2\<rparr> w)
             else (0, put_pages (t\<lparr>pages := pages t @ [page]\<rparr>) w)))"

definition dsm_page_lookup :: "u64 \<Rightarrow> world \<Rightarrow> nat option" where
  "dsm_page_lookup a w =
     (case page_table (ctx w) of
        None \<Rightarrow> None
      | Some t \<Rightarrow> first_index (\<lambda>p. global_addr p = page_base a) (pages t) 0 (length (pages t)))"

definition dsm_page_lookup_local :: "u64 \<Rightarrow> world \<Rightarrow> nat option" where
  "dsm_page_lookup_local a w =
     (case page_table (ctx w) of
        None \<Rightarrow> None
      | Some t \<Rightarrow> first_index (\<lambda>p. local_addr p = page_base a) (pages t) 0 (length (pages t)))"

text \<open>Reading and writing through a page pointer.\<close>

definition page_list :: "world \<Rightarrow> dsm_page list" where
  "page_list w = (case page_table (ctx w) of None \<Rightarrow> [] | Some t \<Rightarrow> pages t)"

definition page_at :: "nat \<Rightarrow> world \<Rightarrow> dsm_page" where
  "page_at i w = page_list w ! i"

definition update_page :: "nat \<Rightarrow> (dsm_page \<Rightarrow> dsm_page) \<Rightarrow> world \<Rightarrow> world" where
  "update_page i f w =
     (case page_table (ctx w) of
        None \<Rightarrow> w
      | Some t \<Rightarrow> put_pages (t\<lparr>pages := (pages t)[i := f (pages t ! i)]\<rparr>) w)"

section \<open>Asking for a page\<close>

text \<open>
  \<^verbatim>\<open>dsm_page_request\<close> sends the request and then waits while the page is pending or invalid. The wait
  is over the list of what each \<^verbatim>\<open>pthread_cond_timedwait\<close> brings: a timeout (\<open>None\<close>), or the state the
  other threads have made of the world. \<open>None\<close> as a result: still waiting at the end of the list.
\<close>

fun page_wait :: "nat \<Rightarrow> world option list \<Rightarrow> world \<Rightarrow> (int \<times> world) option" where
  "page_wait i es w =
     (if pstate (page_at i w) = DSM_PAGE_PENDING \<or> pstate (page_at i w) = DSM_PAGE_INVALID
      then (case es of
              [] \<Rightarrow> None
            | None # es' \<Rightarrow> Some (-1, w)
            | Some w' # es' \<Rightarrow> page_wait i es' w')
      else Some (0, w))"

definition send_page_request :: "nat \<Rightarrow> u32 \<Rightarrow> world \<Rightarrow> int \<times> world" where
  "send_page_request i access w =
     (let p = page_at i w;
          req = put_page_request \<lparr>pr_global_addr = global_addr p, pr_access_type = access\<rparr>;
          (hdr, w) = dsm_create_header DSM_MSG_PAGE_REQUEST (owner_id p) sizeof_page_request w
      in dsm_tcp_send (owner_id p) hdr (Some req) w)"

definition dsm_page_request ::
  "nat option \<Rightarrow> u32 \<Rightarrow> world option list \<Rightarrow> world \<Rightarrow> (int \<times> world) option" where
  "dsm_page_request page access es w =
     (case page of
        None \<Rightarrow> Some (-1, w)
      | Some i \<Rightarrow>
          (let (r, w) = send_page_request i access w
           in if r \<noteq> 0 then Some (-1, w) else page_wait i es w))"

section \<open>Sending and installing a page\<close>

definition dsm_page_send :: "u32 \<Rightarrow> u64 \<Rightarrow> world \<Rightarrow> crash + (int \<times> world)" where
  "dsm_page_send nid ga w =
     (case dsm_page_lookup ga w of
        None \<Rightarrow> Inr (-1, w)
      | Some i \<Rightarrow>
          if local_addr (page_at i w) = 0 then Inr (-1, w)
          else let (ok, w) = sys_call w in
            if \<not> ok then Inr (-1, w)
            else (case memcpy_out (local_addr (page_at i w)) DSM_PAGE_SIZE w of
                    Inl e \<Rightarrow> Inl e
                  | Inr bs \<Rightarrow>
                      (let buf = put_page_data \<lparr>pd_global_addr = ga, pd_size = 4096,
                                                pd_version = version (page_at i w)\<rparr> @ bs;
                           (hdr, w) = dsm_create_header DSM_MSG_PAGE_DATA nid
                                        (sizeof_page_data + DSM_PAGE_SIZE) w
                       in Inr (dsm_tcp_send nid hdr (Some buf) w))))"

text \<open>
  \<open>data\<close> is the buffer from the message's flexible array on. The code copies \<open>n\<close> bytes of it whatever
  the size of a page.
\<close>

definition dsm_page_install :: "u64 \<Rightarrow> u8 list \<Rightarrow> nat \<Rightarrow> u64 \<Rightarrow> world \<Rightarrow> crash + (int \<times> world)" where
  "dsm_page_install ga data n ver w =
     (case dsm_page_lookup ga w of
        None \<Rightarrow> Inr (-1, w)
      | Some i \<Rightarrow>
          (let la = local_addr (page_at i w);
               finish = (\<lambda>w. let w = update_page i (\<lambda>p. p\<lparr>pstate := DSM_PAGE_SHARED, version := ver\<rparr>) w
                             in Inr (0, wake BroadcastFault (w\<lparr>ctx := (ctx w)\<lparr>fault_handled := True\<rparr>\<rparr>)))
           in if la = 0 then finish w
              else let (ok, w) = mprotect la DSM_PAGE_SIZE ProtRW w in
                if \<not> ok then Inr (-1, w)
                else if length data < n then Inl OutOfBounds
                else (case memcpy_in la (take n data) w of
                        Inl e \<Rightarrow> Inl e
                      | Inr w \<Rightarrow>
                          (let (ok, w) = mprotect la DSM_PAGE_SIZE ProtRead w in
                           if \<not> ok then Inr (-1, w) else finish w))))"

definition dsm_page_invalidate :: "u64 \<Rightarrow> world \<Rightarrow> int \<times> world" where
  "dsm_page_invalidate ga w =
     (case dsm_page_lookup ga w of
        None \<Rightarrow> (-1, w)
      | Some i \<Rightarrow>
          (let la = local_addr (page_at i w);
               w = (if la = 0 then w else snd (mprotect la DSM_PAGE_SIZE ProtNone w))
           in (0, update_page i (\<lambda>p. p\<lparr>pstate := DSM_PAGE_INVALID\<rparr>) w)))"

definition dsm_page_mark_modified :: "u64 \<Rightarrow> world \<Rightarrow> int \<times> world" where
  "dsm_page_mark_modified ga w =
     (case dsm_page_lookup ga w of
        None \<Rightarrow> (-1, w)
      | Some i \<Rightarrow>
          (0, update_page i (\<lambda>p. p\<lparr>pstate := DSM_PAGE_MODIFIED, dirty := True,
                                  version := version p + 1\<rparr>) w))"

section \<open>Lookups\<close>

definition has_pages :: "world \<Rightarrow> bool" where
  "has_pages w \<longleftrightarrow> page_table (ctx w) \<noteq> None"

interpretation by_global: first_match_table has_pages page_list dsm_page_lookup
  "\<lambda>a p. global_addr p = page_base a"
  by unfold_locales (auto simp: has_pages_def page_list_def dsm_page_lookup_def)

interpretation by_local: first_match_table has_pages page_list dsm_page_lookup_local
  "\<lambda>a p. local_addr p = page_base a"
  by unfold_locales (auto simp: has_pages_def page_list_def dsm_page_lookup_local_def)

lemma page_lookup_None: "\<not> has_pages w \<Longrightarrow> dsm_page_lookup a w = None"
  by (simp add: has_pages_def dsm_page_lookup_def)

lemma page_lookup_has: "dsm_page_lookup a w = Some i \<Longrightarrow> has_pages w"
  using page_lookup_None by fastforce

lemma page_lookup_frame:
  "page_list w' = page_list w \<Longrightarrow> has_pages w' = has_pages w \<Longrightarrow> dsm_page_lookup a w' = dsm_page_lookup a w"
  by (simp add: has_pages_def page_list_def dsm_page_lookup_def split: option.splits)

lemma put_pages_frame [simp, frame_simps]:
  "vm (put_pages t w) = vm w" "mem (put_pages t w) = mem w" "sent (put_pages t w) = sent w"
  "wakes (put_pages t w) = wakes w" "g_ownership_table (put_pages t w) = g_ownership_table w"
  "next_region_ptr (put_pages t w) = next_region_ptr w"
  "regions (ctx (put_pages t w)) = regions (ctx w)"
  "local_node_id (ctx (put_pages t w)) = local_node_id (ctx w)"
  "node_table (ctx (put_pages t w)) = node_table (ctx w)"
  "page_list (put_pages t w) = pages t" "has_pages (put_pages t w)"
  by (simp_all add: put_pages_def page_list_def has_pages_def)

lemma update_page_frame [simp, frame_simps]:
  "vm (update_page i f w) = vm w" "mem (update_page i f w) = mem w"
  "sent (update_page i f w) = sent w" "wakes (update_page i f w) = wakes w"
  "g_ownership_table (update_page i f w) = g_ownership_table w"
  "next_region_ptr (update_page i f w) = next_region_ptr w"
  "regions (ctx (update_page i f w)) = regions (ctx w)"
  "local_node_id (ctx (update_page i f w)) = local_node_id (ctx w)"
  "node_table (ctx (update_page i f w)) = node_table (ctx w)"
  "has_pages (update_page i f w) = has_pages w"
  "page_list (update_page i f w) = (page_list w)[i := f (page_at i w)]"
  by (auto simp: update_page_def page_list_def has_pages_def page_at_def put_pages_def split: option.splits)

lemma page_list_frame [simp]:
  "page_list (wake e w) = page_list w"
  "page_list (w\<lparr>ctx := (ctx w)\<lparr>fault_handled := b\<rparr>\<rparr>) = page_list w"
  "page_list (w\<lparr>vm := v\<rparr>) = page_list w" "page_list (w\<lparr>mem := m\<rparr>) = page_list w"
  by (simp_all add: page_list_def)

lemma page_frame_ctx:
  "ctx w' = ctx w \<Longrightarrow> page_list w' = page_list w" "ctx w' = ctx w \<Longrightarrow> has_pages w' = has_pages w"
  by (simp_all add: page_list_def has_pages_def)

section \<open>Memory of one page\<close>

lemma pages_spanned_within:
  "a AND 4095 = 0 \<Longrightarrow> 0 < n \<Longrightarrow> n \<le> DSM_PAGE_SIZE \<Longrightarrow> pages_spanned a n = [a]"
proof -
  assume a: "a AND 4095 = 0" "0 < n" "n \<le> DSM_PAGE_SIZE"
  then have "(n + 4095) div 4096 = 1"
    by (simp add: div_nat_eqI)
  with a show ?thesis
    by (simp add: pages_spanned_def page_base_aligned)
qed

lemma mprotect_page:
  "res_script w = [] \<Longrightarrow> a AND 4095 = 0 \<Longrightarrow> vm w a \<noteq> Unmapped \<Longrightarrow>
   mprotect a DSM_PAGE_SIZE p w = (True, w\<lparr>vm := (vm w)(a := p)\<rparr>)"
  by (auto simp: mprotect_def sys_call_ok pages_spanned_within set_prot_def fun_eq_iff)

lemma page_at_update:
  "i < length (page_list w) \<Longrightarrow>
   page_at j (update_page i f w) = (if j = i then f (page_at i w) else page_at j w)"
  by (simp add: page_at_def)

text \<open>A page that can be filled: mapped, aligned, registered.\<close>

definition install_target :: "u64 \<Rightarrow> nat \<Rightarrow> world \<Rightarrow> bool" where
  "install_target ga i w \<longleftrightarrow> dsm_page_lookup ga w = Some i \<and> local_addr (page_at i w) \<noteq> 0 \<and>
     local_addr (page_at i w) AND 4095 = 0 \<and> vm w (local_addr (page_at i w)) \<noteq> Unmapped"

definition finish_install :: "nat \<Rightarrow> u64 \<Rightarrow> world \<Rightarrow> world" where
  "finish_install i ver w =
     (let w = update_page i (\<lambda>p. p\<lparr>pstate := DSM_PAGE_SHARED, version := ver\<rparr>) w
      in wake BroadcastFault (w\<lparr>ctx := (ctx w)\<lparr>fault_handled := True\<rparr>\<rparr>))"

lemma finish_install_frame [simp]:
  "vm (finish_install i ver w) = vm w" "mem (finish_install i ver w) = mem w"
  "fault_handled (ctx (finish_install i ver w))"
  "wakes (finish_install i ver w) = wakes w @ [BroadcastFault]"
  "page_list (finish_install i ver w) =
     (page_list w)[i := (page_at i w)\<lparr>pstate := DSM_PAGE_SHARED, version := ver\<rparr>]"
  "regions (ctx (finish_install i ver w)) = regions (ctx w)"
  by (simp_all add: finish_install_def Let_def)

lemma page_install_eq:
  assumes "install_target ga i w" "res_script w = []" "n \<le> length data"
  shows "dsm_page_install ga data n ver w =
    (let la = local_addr (page_at i w); v = w\<lparr>vm := (vm w)(la := ProtRW)\<rparr> in
     if writable la n v
     then Inr (0, finish_install i ver (w\<lparr>vm := (vm w)(la := ProtRead), mem := mem_set la (take n data) (mem w)\<rparr>))
     else Inl SegFault)"
proof -
  let ?la = "local_addr (page_at i w)" and ?v = "w\<lparr>vm := (vm w)(local_addr (page_at i w) := ProtRW)\<rparr>"
  have t: "dsm_page_lookup ga w = Some i" "?la \<noteq> 0" "?la AND 4095 = 0" "vm w ?la \<noteq> Unmapped"
    using assms(1) by (simp_all add: install_target_def)
  have "mprotect ?la DSM_PAGE_SIZE ProtRW w = (True, ?v)"
    using assms(2) t(3,4) by (rule mprotect_page)
  moreover have "mprotect ?la DSM_PAGE_SIZE ProtRead (?v\<lparr>mem := m\<rparr>) =
      (True, w\<lparr>vm := (vm w)(?la := ProtRead), mem := m\<rparr>)" for m
    using mprotect_page [of "?v\<lparr>mem := m\<rparr>" ?la ProtRead] assms(2) t(3) by simp
  ultimately show ?thesis
    using t(1,2) assms(3)
    by (simp add: dsm_page_install_def Let_def memcpy_in_def finish_install_def min_absorb2)
qed

lemma mem_set_nth: "mem_set a bs m x = (if unat (x - a) < length bs then bs ! unat (x - a) else m x)"
  by (simp add: mem_set_def Let_def)

lemma unat_offset: "k < 4096 \<Longrightarrow> unat (a + word_of_nat k - a :: u64) = k"
  by (simp add: unat_of_nat)

text \<open>
  Installing a page of at most 4096 bytes into a registered, mapped page: the bytes are in its
  memory and no other byte of memory has changed, the page is readable and no other page's protection
  has changed, its entry is \<^verbatim>\<open>SHARED\<close> with the version of the message and no other entry has changed,
  and the threads waiting for a fault are woken.
\<close>

lemma page_install_correct:
  assumes "install_target ga i w" "res_script w = []" "n \<le> DSM_PAGE_SIZE" "n \<le> length data"
  shows "\<exists>w'. dsm_page_install ga data n ver w = Inr (0, w') \<and>
    (\<forall>x. mem w' x = (if unat (x - local_addr (page_at i w)) < n
       then data ! unat (x - local_addr (page_at i w)) else mem w x)) \<and>
    vm w' = (vm w)(local_addr (page_at i w) := ProtRead) \<and>
    page_list w' = (page_list w)[i := (page_at i w)\<lparr>pstate := DSM_PAGE_SHARED, version := ver\<rparr>] \<and>
    fault_handled (ctx w') \<and> wakes w' = wakes w @ [BroadcastFault]"
proof -
  let ?la = "local_addr (page_at i w)"
  let ?w = "w\<lparr>vm := (vm w)(?la := ProtRead), mem := mem_set ?la (take n data) (mem w)\<rparr>"
  have "writable ?la n (w\<lparr>vm := (vm w)(?la := ProtRW)\<rparr>)"
    using assms(1,3) pages_spanned_within [of ?la n]
    by (cases "n = 0") (simp_all add: writable_def install_target_def pages_spanned_def)
  then have "dsm_page_install ga data n ver w = Inr (0, finish_install i ver ?w)"
    using page_install_eq [OF assms(1,2,4)] by (simp add: Let_def)
  moreover have "page_list ?w = page_list w" "page_at i ?w = page_at i w"
    by (simp_all add: page_list_def page_at_def)
  ultimately show ?thesis
    using assms(4) by (auto simp: mem_set_nth)
qed

text \<open>The array has room for the pages counted.\<close>

definition page_table_ok :: "world \<Rightarrow> bool" where
  "page_table_ok w \<longleftrightarrow> (case page_table (ctx w) of
     None \<Rightarrow> True | Some t \<Rightarrow> 0 < capacity t \<and> length (pages t) \<le> capacity t)"

lemma page_register_effect:
  assumes "page_table_ok w"
  shows "case dsm_page_register ga la k w of (r, w') \<Rightarrow> page_table_ok w' \<and>
    has_pages w' = has_pages w \<and>
    (r = 0 \<and> has_pages w \<and> page_list w' = page_list w @ [new_page ga la k w] \<or>
     r = -1 \<and> page_list w' = page_list w)"
proof (cases "page_table (ctx w)")
  case None
  with assms show ?thesis
    by (simp add: dsm_page_register_def)
next
  case (Some t)
  have same: "page_table (ctx (snd (sys_call v))) = page_table (ctx v)"
    "new_page ga la k (snd (sys_call v)) = new_page ga la k v" for v
    by (simp_all add: new_page_def)
  show ?thesis
    using assms Some
    by (auto simp: dsm_page_register_def case_prod_beta Let_def page_table_ok_def has_pages_def
        page_list_def same put_pages_def)
qed

text \<open>A wait that ends without a timeout ends on a valid page.\<close>

lemma page_wait_result:
  "page_wait i es w = Some (r, w') \<Longrightarrow>
     (r = 0 \<longrightarrow> pstate (page_at i w') = DSM_PAGE_SHARED \<or> pstate (page_at i w') = DSM_PAGE_MODIFIED) \<and>
     (r = 0 \<or> r = -1 \<and> None \<in> set es)"
proof (induction i es w rule: page_wait.induct)
  case (1 i es w)
  show ?case
  proof (cases "pstate (page_at i w) = DSM_PAGE_PENDING \<or> pstate (page_at i w) = DSM_PAGE_INVALID")
    case True
    then show ?thesis
      using 1 by (cases es) (auto simp: page_wait.simps [of i es w] split: option.splits)
  next
    case False
    then show ?thesis
      using 1(2) by (cases "pstate (page_at i w)") (auto simp: page_wait.simps [of i es w])
  qed
qed

text \<open>The answer to a request for page \<open>i\<close>, and what its reader finds in it.\<close>

definition page_answer :: "nat \<Rightarrow> u64 \<Rightarrow> world \<Rightarrow> u8 list" where
  "page_answer i ga w =
     put_page_data \<lparr>pd_global_addr = ga, pd_size = 4096, pd_version = version (page_at i w)\<rparr> @
     map (\<lambda>x. mem w (local_addr (page_at i w) + word_of_nat x)) [0..<DSM_PAGE_SIZE]"

lemma page_answer_read [simp]:
  "length (page_answer i ga w) = 4116"
  "get_page_data (page_answer i ga w @ rest) =
     \<lparr>pd_global_addr = ga, pd_size = 4096, pd_version = version (page_at i w)\<rparr>"
  "drop sizeof_page_data (page_answer i ga w) =
     map (\<lambda>x. mem w (local_addr (page_at i w) + word_of_nat x)) [0..<DSM_PAGE_SIZE]"
  using page_data_codec.length_put
  by (simp_all add: page_answer_def page_data_codec.get_put)

lemma page_send_clear:
  assumes owner: "dsm_page_lookup ga w = Some i" "local_addr (page_at i w) \<noteq> 0"
      "readable (local_addr (page_at i w)) DSM_PAGE_SIZE w" "res_script w = []"
    and conn: "dsm_node_table_get nid w = Some k" "0 \<le> tcp_fd (node_at k w)"
      "send_script w (tcp_fd (node_at k w)) = []"
  defines "h \<equiv> dsm_create_header DSM_MSG_PAGE_DATA nid (sizeof_page_data + DSM_PAGE_SIZE) w"
  shows "dsm_page_send nid ga w = Inr (0, (snd h)\<lparr>sent := (sent w)(tcp_fd (node_at k w) :=
    sent w (tcp_fd (node_at k w)) @ put_header (fst h) @ page_answer i ga w)\<rparr>)"
proof -
  have tab: "node_table (ctx (snd h)) = node_table (ctx w)" and
    same: "sent (snd h) = sent w" "send_script (snd h) = send_script w"
    by (simp_all add: h_def)
  have full: "take (unat (payload_len (fst h))) (page_answer i ga w) = page_answer i ga w"
    by (simp add: h_def)
  have "dsm_tcp_send nid (fst h) (Some (page_answer i ga w)) (snd h) =
      (0, (snd h)\<lparr>sent := (sent w)(tcp_fd (node_at k w) :=
         sent w (tcp_fd (node_at k w)) @ put_header (fst h) @ page_answer i ga w)\<rparr>)"
    using tcp_send_clear [of nid "snd h" k "fst h" "Some (page_answer i ga w)"] conn
    unfolding option.case full node_get_frame [OF tab] same by blast
  then show ?thesis
    using owner by (simp add: dsm_page_send_def sys_call_ok memcpy_out_def case_prod_beta Let_def
        h_def page_answer_def)
qed

text \<open>The answer, with whatever follows it in the receive buffer, installed by another machine.\<close>

lemma page_answer_installs:
  fixes i :: nat and wa :: world and rest :: "u8 list"
  assumes reader: "install_target ga j wb" "res_script wb = []"
  defines "bs \<equiv> page_answer i ga wa @ rest"
  shows "\<exists>wb'. dsm_page_install (pd_global_addr (get_page_data bs)) (drop sizeof_page_data bs)
      (unat (pd_size (get_page_data bs))) (pd_version (get_page_data bs)) wb = Inr (0, wb') \<and>
    (\<forall>x < DSM_PAGE_SIZE. mem wb' (local_addr (page_at j wb) + word_of_nat x) =
       mem wa (local_addr (page_at i wa) + word_of_nat x)) \<and>
    (\<forall>x. DSM_PAGE_SIZE \<le> unat (x - local_addr (page_at j wb)) \<longrightarrow> mem wb' x = mem wb x) \<and>
    vm wb' = (vm wb)(local_addr (page_at j wb) := ProtRead) \<and>
    page_at j wb' = (page_at j wb)\<lparr>pstate := DSM_PAGE_SHARED, version := version (page_at i wa)\<rparr> \<and>
    fault_handled (ctx wb') \<and> wakes wb' = wakes wb @ [BroadcastFault]"
proof -
  let ?la = "local_addr (page_at i wa)" and ?lb = "local_addr (page_at j wb)"
  let ?bs = "map (\<lambda>x. mem wa (?la + word_of_nat x)) [0..<DSM_PAGE_SIZE] @ rest"
  have bs: "get_page_data bs = \<lparr>pd_global_addr = ga, pd_size = 4096, pd_version = version (page_at i wa)\<rparr>"
    "drop sizeof_page_data bs = ?bs"
    by (simp_all add: bs_def)
  obtain wb' where wb': "dsm_page_install ga ?bs 4096 (version (page_at i wa)) wb = Inr (0, wb')"
    "\<forall>x. mem wb' x = (if unat (x - ?lb) < 4096 then ?bs ! unat (x - ?lb) else mem wb x)"
    "vm wb' = (vm wb)(?lb := ProtRead)"
    "page_list wb' = (page_list wb)[j := (page_at j wb)\<lparr>pstate := DSM_PAGE_SHARED,
       version := version (page_at i wa)\<rparr>]"
    "fault_handled (ctx wb')" "wakes wb' = wakes wb @ [BroadcastFault]"
    using page_install_correct [OF reader, of 4096 ?bs "version (page_at i wa)"] by auto
  have "j < length (page_list wb)"
    using reader by_global.lookup_SomeD [of wb ga j] page_lookup_has by (auto simp: install_target_def)
  then have "page_at j wb' = (page_at j wb)\<lparr>pstate := DSM_PAGE_SHARED, version := version (page_at i wa)\<rparr>"
    by (simp add: page_at_def wb'(4))
  moreover have "mem wb' (?lb + word_of_nat x) = mem wa (?la + word_of_nat x)" if "x < 4096" for x
    using that wb'(2) unat_offset [OF that, of ?lb] by (simp add: nth_append)
  ultimately show ?thesis
    using wb' unfolding bs by (intro exI [of _ wb']) simp
qed

section \<open>Properties\<close>

text \<open>Two machines that share the page at global address 0x2000000, the first its owner.\<close>

definition demo_page :: "u64 \<Rightarrow> u32 \<Rightarrow> dsm_page_state \<Rightarrow> dsm_page" where
  "demo_page la owner st = \<lparr>local_addr = la, global_addr = 0x2000000, psize = 4096, pstate = st,
     owner_id = owner, version = 1, dirty = False\<rparr>"

definition demo_owner :: world where
  "demo_owner = put_pages \<lparr>pages = [demo_page 0x7000000 1 DSM_PAGE_SHARED], capacity = 1024\<rparr>
     (demo_nodes\<lparr>res_script := [], vm := (\<lambda>a. if a = 0x7000000 then ProtRW else Unmapped),
                 mem := (\<lambda>a. if a = 0x7000002 then 42 else 0)\<rparr>)"

definition demo_reader :: world where
  "demo_reader = put_pages \<lparr>pages = [demo_page 0x9000000 1 DSM_PAGE_PENDING], capacity = 1024\<rparr>
     (boot_world\<lparr>vm := (\<lambda>a. if a = 0x9000000 then ProtNone else Unmapped)\<rparr>)"

lemma demo_page_lookups [simp]:
  "dsm_page_lookup 0x2000000 demo_owner = Some 0" "dsm_page_lookup 0x2000000 demo_reader = Some 0"
proof -
  have "page_base 0x2000000 = 0x2000000"
    by code_simp
  then show "dsm_page_lookup 0x2000000 demo_owner = Some 0" "dsm_page_lookup 0x2000000 demo_reader = Some 0"
    by (simp_all add: dsm_page_lookup_def demo_owner_def demo_reader_def put_pages_def demo_page_def
        first_index_step)
qed

lemma demo_page_facts [simp]:
  "page_at 0 demo_owner = demo_page 0x7000000 1 DSM_PAGE_SHARED"
  "page_at 0 demo_reader = demo_page 0x9000000 1 DSM_PAGE_PENDING"
  "vm demo_owner a = (if a = 0x7000000 then ProtRW else Unmapped)"
  "vm demo_reader a = (if a = 0x9000000 then ProtNone else Unmapped)"
  "mem demo_owner a = (if a = 0x7000002 then 42 else 0)"
  "res_script demo_reader = []" "res_script demo_owner = []" "send_script demo_owner fd = []"
  by (simp_all add: page_at_def demo_owner_def demo_reader_def)
     (simp_all add: put_pages_def boot_world_def)

lemma demo_page_targets [simp]:
  "install_target 0x2000000 0 demo_owner" "install_target 0x2000000 0 demo_reader"
  by (simp_all add: install_target_def demo_page_def)

lemma demo_owner_node:
  "dsm_node_table_get 2 demo_owner = Some 1" "0 \<le> tcp_fd (node_at 1 demo_owner)"
proof -
  have "dsm_node_table_get 2 demo_nodes = Some 1 \<and> 0 \<le> tcp_fd (node_at 1 demo_nodes)"
    by code_simp
  moreover have "node_table (ctx demo_owner) = node_table (ctx demo_nodes)"
    by (simp add: demo_owner_def)
  ultimately show "dsm_node_table_get 2 demo_owner = Some 1" "0 \<le> tcp_fd (node_at 1 demo_owner)"
    by (simp_all add: node_get_frame [of demo_owner demo_nodes])
qed

text \<open>
  C11. Fetching a page: the owner's answer, read back by the message handler's cast and installed by
  another machine, gives that machine the 4096 bytes the owner had, in state \<^verbatim>\<open>SHARED\<close>, readable, with the
  owner's version.
\<close>

theorem page_transfer_correct:
  assumes owner: "dsm_page_lookup ga wa = Some i" "local_addr (page_at i wa) \<noteq> 0"
      "readable (local_addr (page_at i wa)) DSM_PAGE_SIZE wa" "res_script wa = []"
    and conn: "dsm_node_table_get nid wa = Some k" "0 \<le> tcp_fd (node_at k wa)"
      "send_script wa (tcp_fd (node_at k wa)) = []"
    and reader: "install_target ga j wb" "res_script wb = []"
  shows "\<exists>wa' hdr msg. dsm_page_send nid ga wa = Inr (0, wa') \<and>
    sent wa' (tcp_fd (node_at k wa)) = sent wa (tcp_fd (node_at k wa)) @ put_header hdr @ msg \<and>
    msg_type hdr = msg_code DSM_MSG_PAGE_DATA \<and> length msg = unat (payload_len hdr) \<and>
    (let d = get_page_data msg in \<exists>wb'.
       dsm_page_install (pd_global_addr d) (drop sizeof_page_data msg) (unat (pd_size d)) (pd_version d) wb =
         Inr (0, wb') \<and>
       (\<forall>x < DSM_PAGE_SIZE. mem wb' (local_addr (page_at j wb) + word_of_nat x) =
          mem wa (local_addr (page_at i wa) + word_of_nat x)) \<and>
       vm wb' (local_addr (page_at j wb)) = ProtRead \<and>
       page_at j wb' = (page_at j wb)\<lparr>pstate := DSM_PAGE_SHARED, version := version (page_at i wa)\<rparr>)"
proof -
  let ?h = "dsm_create_header DSM_MSG_PAGE_DATA nid (sizeof_page_data + DSM_PAGE_SIZE) wa"
  have send: "dsm_page_send nid ga wa = Inr (0, (snd ?h)\<lparr>sent := (sent wa)(tcp_fd (node_at k wa) :=
      sent wa (tcp_fd (node_at k wa)) @ put_header (fst ?h) @ page_answer i ga wa)\<rparr>)"
    using owner conn by (rule page_send_clear)
  show ?thesis
    using page_answer_installs [OF reader, of i wa "[]"] unfolding append_Nil2
    by (intro exI [of _ "(snd ?h)\<lparr>sent := (sent wa)(tcp_fd (node_at k wa) :=
         sent wa (tcp_fd (node_at k wa)) @ put_header (fst ?h) @ page_answer i ga wa)\<rparr>"]
         exI [of _ "fst ?h"] exI [of _ "page_answer i ga wa"] conjI send) (auto simp: Let_def)
qed

theorem page_transfer_correct_witness:
  "\<exists>wa' (d :: dsm_msg_page_data) data wb'. dsm_page_send 2 0x2000000 demo_owner = Inr (0, wa') \<and>
     dsm_page_install (pd_global_addr d) data (unat (pd_size d)) (pd_version d) demo_reader = Inr (0, wb') \<and>
     mem wb' 0x9000002 = 42"
proof -
  have la: "local_addr (page_at 0 demo_owner) = 0x7000000" "local_addr (page_at 0 demo_reader) = 0x9000000"
    by (simp_all add: demo_page_def)
  have "local_addr (page_at 0 demo_owner) \<noteq> 0" "readable (local_addr (page_at 0 demo_owner)) DSM_PAGE_SIZE demo_owner"
    unfolding la by (simp_all add: readable_def pages_spanned_within)
  from page_transfer_correct [OF demo_page_lookups(1) this demo_page_facts(7) demo_owner_node demo_page_facts(8)
      demo_page_targets(2) demo_page_facts(6)]
  obtain wa' msg where send: "dsm_page_send 2 0x2000000 demo_owner = Inr (0, wa')"
    and inst: "let d = get_page_data msg in \<exists>wb'.
       dsm_page_install (pd_global_addr d) (drop sizeof_page_data msg) (unat (pd_size d)) (pd_version d)
         demo_reader = Inr (0, wb') \<and>
       (\<forall>x < DSM_PAGE_SIZE. mem wb' (local_addr (page_at 0 demo_reader) + word_of_nat x) =
          mem demo_owner (local_addr (page_at 0 demo_owner) + word_of_nat x)) \<and>
       vm wb' (local_addr (page_at 0 demo_reader)) = ProtRead \<and>
       page_at 0 wb' = (page_at 0 demo_reader)\<lparr>pstate := DSM_PAGE_SHARED,
         version := version (page_at 0 demo_owner)\<rparr>"
    by blast
  from inst obtain wb' where
    i: "dsm_page_install (pd_global_addr (get_page_data msg)) (drop sizeof_page_data msg)
         (unat (pd_size (get_page_data msg))) (pd_version (get_page_data msg)) demo_reader = Inr (0, wb')"
    and m: "\<forall>x < DSM_PAGE_SIZE. mem wb' (0x9000000 + word_of_nat x) = mem demo_owner (0x7000000 + word_of_nat x)"
    unfolding Let_def la by blast
  have "mem wb' 0x9000002 = 42"
    using m [rule_format, of 2] by simp
  with send i show ?thesis by blast
qed

text \<open>
  C36. A page message that claims more than 4096 bytes is copied in full: when the memory behind the
  page is writable all its bytes land there, those after the first 4096 behind the page, nothing else
  changes, and the call reports success; when it is not writable, the copy faults.
\<close>

theorem page_install_overflows:
  assumes "install_target ga i w" "res_script w = []" "DSM_PAGE_SIZE < n" "n \<le> length data"
  shows "if writable (local_addr (page_at i w)) n (w\<lparr>vm := (vm w)(local_addr (page_at i w) := ProtRW)\<rparr>)
    then \<exists>w'. dsm_page_install ga data n ver w = Inr (0, w') \<and>
      (\<forall>x. mem w' x = (if unat (x - local_addr (page_at i w)) < n
         then data ! unat (x - local_addr (page_at i w)) else mem w x))
    else dsm_page_install ga data n ver w = Inl SegFault"
  using assms(3,4) by (simp add: page_install_eq [OF assms(1,2,4)] Let_def mem_set_def)

text \<open>Behind the page of \<open>demo_reader\<close> nothing is mapped; here there is a page that can be written.\<close>

definition demo_reader_two :: world where
  "demo_reader_two = demo_reader\<lparr>vm := (vm demo_reader)(0x9001000 := ProtRW)\<rparr>"

lemma demo_reader_two_target:
  "install_target 0x2000000 0 demo_reader_two" "res_script demo_reader_two = []"
  "local_addr (page_at 0 demo_reader_two) = 0x9000000" "mem demo_reader_two x = 0"
proof -
  have look: "dsm_page_lookup a demo_reader_two = dsm_page_lookup a demo_reader" for a
    by (rule page_lookup_frame) (simp_all add: demo_reader_two_def has_pages_def)
  have at: "page_at 0 demo_reader_two = page_at 0 demo_reader"
    by (simp add: page_at_def demo_reader_two_def)
  show "install_target 0x2000000 0 demo_reader_two"
    using demo_page_targets(2) unfolding install_target_def look at
    by (simp add: demo_reader_two_def demo_page_def)
  show "local_addr (page_at 0 demo_reader_two) = 0x9000000"
    unfolding at demo_page_facts by (simp add: demo_page_def)
  show "res_script demo_reader_two = []" "mem demo_reader_two x = 0"
    by (simp_all add: demo_reader_two_def demo_reader_def put_pages_def boot_world_def)
qed

theorem page_install_overflows_witness:
  "dsm_page_install 0x2000000 (replicate 5000 0) 5000 2 demo_reader = Inl SegFault \<and>
   (\<exists>w'. dsm_page_install 0x2000000 (replicate 4096 1 @ [7, 8]) 4098 2 demo_reader_two = Inr (0, w') \<and>
      mem w' 0x9000FFF = 1 \<and> mem w' 0x9001000 = 7 \<and> mem w' 0x9001001 = 8 \<and> mem w' 0x9001002 = 0)"
proof
  have "\<not> writable 0x9000000 5000 (demo_reader\<lparr>vm := (vm demo_reader)(0x9000000 := ProtRW)\<rparr>)"
    by (simp add: writable_def pages_spanned_def page_base_def upt_rec)
  then show "dsm_page_install 0x2000000 (replicate 5000 0) 5000 2 demo_reader = Inl SegFault"
    using page_install_overflows [of "0x2000000" 0 demo_reader 5000 "replicate 5000 0" 2]
    by (simp add: demo_page_def)
  let ?data = "replicate 4096 1 @ [7, 8] :: u8 list"
  have len: "length ?data = 4098"
    by simp
  have "writable 0x9000000 4098 (demo_reader_two\<lparr>vm := (vm demo_reader_two)(0x9000000 := ProtRW)\<rparr>)"
    by (simp add: writable_def pages_spanned_def page_base_def upt_rec demo_reader_two_def)
  with page_install_overflows [OF demo_reader_two_target(1,2), of 4098 ?data 2] len obtain w' where
    w': "dsm_page_install 0x2000000 ?data 4098 2 demo_reader_two = Inr (0, w')"
    "\<forall>x. mem w' x = (if unat (x - 0x9000000) < 4098 then ?data ! unat (x - 0x9000000) else 0)"
    unfolding demo_reader_two_target(3,4) by auto
  then show "\<exists>w'. dsm_page_install 0x2000000 ?data 4098 2 demo_reader_two = Inr (0, w') \<and>
      mem w' 0x9000FFF = 1 \<and> mem w' 0x9001000 = 7 \<and> mem w' 0x9001001 = 8 \<and> mem w' 0x9001002 = 0"
    by (intro exI [of _ w'] conjI w'(1)) (simp_all add: nth_append)
qed

text \<open>
  Registering a page: on success the page is added behind the others, valid and modified for its
  owner and invalid for any other node, and the array, doubled when full, has room for it; on failure
  the table is as before. A lookup that found a page before still finds the same one.
\<close>

lemma page_register_correct:
  assumes "page_table_ok w"
  shows "case dsm_page_register ga la k w of (r, w') \<Rightarrow> page_table_ok w' \<and>
    (r = 0 \<or> r = -1) \<and>
    page_list w' = (if r = 0 then page_list w @ [new_page ga la k w] else page_list w) \<and>
    (\<forall>a i. dsm_page_lookup a w = Some i \<longrightarrow> dsm_page_lookup a w' = Some i) \<and>
    (r = 0 \<longrightarrow> dsm_page_lookup ga w = None \<and> page_base ga = ga \<longrightarrow>
      dsm_page_lookup ga w' = Some (length (page_list w)))"
proof (cases "dsm_page_register ga la k w")
  case (Pair r w')
  then have eff: "page_table_ok w'" "has_pages w' = has_pages w"
    "r = 0 \<and> has_pages w \<and> page_list w' = page_list w @ [new_page ga la k w] \<or>
     r = -1 \<and> page_list w' = page_list w"
    using page_register_effect [OF assms, of ga la k] by simp_all
  show ?thesis
  proof (cases "r = 0")
    case True
    with eff have has: "has_pages w" "has_pages w'" "page_list w' = page_list w @ [new_page ga la k w]"
      by simp_all
    show ?thesis
      using True Pair eff(1) has(3) by_global.lookup_append [OF has]
      by (simp add: new_page_def split: option.splits)
  next
    case False
    with eff have same: "page_list w' = page_list w"
      by simp
    then have "dsm_page_lookup a w' = dsm_page_lookup a w" for a
      using eff(2) by (rule page_lookup_frame)
    with False eff same Pair show ?thesis by simp
  qed
qed

text \<open>
  A page request that returns 0 has found the page valid, shared or modified, in the state it
  leaves; it returns -1 only without a page, when the request cannot be sent, or after a timeout.
\<close>

lemma page_request_sound:
  assumes "dsm_page_request page access es w = Some (r, w')"
  shows "(r = 0 \<longrightarrow> (\<exists>i. page = Some i \<and>
      (pstate (page_at i w') = DSM_PAGE_SHARED \<or> pstate (page_at i w') = DSM_PAGE_MODIFIED))) \<and>
    (r = 0 \<or> r = -1) \<and>
    (r = -1 \<longrightarrow> page = None \<or> None \<in> set es \<or>
      (\<exists>i. page = Some i \<and> fst (send_page_request i access w) \<noteq> 0))"
proof (cases page)
  case None
  with assms show ?thesis
    by (simp add: dsm_page_request_def)
next
  case (Some i)
  show ?thesis
  proof (cases "fst (send_page_request i access w) = 0")
    case True
    then have "page_wait i es (snd (send_page_request i access w)) = Some (r, w')"
      using assms Some by (simp add: dsm_page_request_def case_prod_beta del: page_wait.simps)
    from page_wait_result [OF this] Some show ?thesis by auto
  next
    case False
    then show ?thesis
      using assms Some by (simp add: dsm_page_request_def case_prod_beta)
  qed
qed

end
