(* ===== verification/DsmRegions.thy ===== *)
theory DsmRegions
  imports DsmPages
begin

text \<open>
  Regions of mapped memory, the translation between local and global addresses, and the allocator:
  the rest of \<^verbatim>\<open>src/dsm_memory.c\<close>. What \<^verbatim>\<open>mmap\<close> returns is an argument of the operations that call it:
  the address of the new mapping, or \<open>None\<close> for \<^verbatim>\<open>MAP_FAILED\<close>. A \<^verbatim>\<open>dsm_region_t*\<close> is the record, which
  carries the number of its allocation in \<open>region_ptr\<close>; \<^verbatim>\<open>ctx->regions\<close> is the linked list from its
  head.
\<close>

section \<open>Regions\<close>

text \<open>\<^verbatim>\<open>((size + DSM_PAGE_SIZE - 1) / DSM_PAGE_SIZE) * DSM_PAGE_SIZE\<close> in 64 bits.\<close>

definition page_align :: "u64 \<Rightarrow> u64" where
  "page_align n = (n + 4095) div 4096 * 4096"

definition register_pages :: "u64 \<Rightarrow> u64 \<Rightarrow> u32 \<Rightarrow> nat \<Rightarrow> world \<Rightarrow> world" where
  "register_pages gbase a owner n w =
     foldl (\<lambda>w i. snd (dsm_page_register (gbase + word_of_nat i * 4096) (a + word_of_nat i * 4096) owner w))
       w [0..<n]"

definition add_region :: "dsm_region \<Rightarrow> world \<Rightarrow> world" where
  "add_region r w = w\<lparr>next_region_ptr := Suc (next_region_ptr w),
     ctx := (ctx w)\<lparr>regions := regions (ctx w) @ [r]\<rparr>\<rparr>"

definition dsm_region_create ::
  "u64 \<Rightarrow> u32 \<Rightarrow> u64 \<Rightarrow> u64 option \<Rightarrow> world \<Rightarrow> crash + (dsm_region option \<times> world)" where
  "dsm_region_create n owner gbase addr w =
     (let aligned = page_align n in
      case (if aligned = 0 then None else addr) of
        None \<Rightarrow> Inr (None, w)
      | Some a \<Rightarrow>
          (let w = mmap_none a (unat aligned) w;
               rest = (\<lambda>w. let (ok, w) = sys_call w in
                  if \<not> ok then Inr (None, munmap a (unat aligned) w)
                  else let r = \<lparr>region_ptr = next_region_ptr w, base_addr = a, total_size = aligned,
                                page_count = aligned div 4096, region_owner_id = owner,
                                global_base = gbase\<rparr>
                    in Inr (Some r, register_pages gbase a owner (unat (page_count r)) (add_region r w)))
           in if owner = local_node_id (ctx w)
              then let (ok, w) = mprotect a (unat aligned) ProtRW w in
                if \<not> ok then Inr (None, munmap a (unat aligned) w)
                else (case memset_zero a (unat aligned) w of Inl e \<Rightarrow> Inl e | Inr w \<Rightarrow> rest w)
              else rest w))"

definition dsm_region_destroy :: "dsm_region option \<Rightarrow> world \<Rightarrow> world" where
  "dsm_region_destroy region w =
     (case region of
        None \<Rightarrow> w
      | Some r \<Rightarrow>
          (let w = w\<lparr>ctx := (ctx w)\<lparr>regions :=
                      remove_first (\<lambda>s. region_ptr s = region_ptr r) (regions (ctx w))\<rparr>\<rparr>
           in if base_addr r \<noteq> 0 then munmap (base_addr r) (unat (total_size r)) w else w))"

definition global_covers :: "u64 \<Rightarrow> dsm_region \<Rightarrow> bool" where
  "global_covers a r \<longleftrightarrow> global_base r \<le> a \<and> a < global_base r + total_size r"

definition local_covers :: "u64 \<Rightarrow> dsm_region \<Rightarrow> bool" where
  "local_covers a r \<longleftrightarrow> base_addr r \<le> a \<and> a < base_addr r + total_size r"

definition dsm_region_find :: "u64 \<Rightarrow> world \<Rightarrow> dsm_region option" where
  "dsm_region_find a w = List.find (global_covers a) (regions (ctx w))"

definition dsm_global_to_local :: "u64 \<Rightarrow> world \<Rightarrow> u64 option" where
  "dsm_global_to_local a w =
     (case dsm_region_find a w of
        None \<Rightarrow> None | Some r \<Rightarrow> Some (base_addr r + (a - global_base r)))"

definition dsm_local_to_global :: "u64 \<Rightarrow> world \<Rightarrow> u64" where
  "dsm_local_to_global a w =
     (case List.find (local_covers a) (regions (ctx w)) of
        None \<Rightarrow> 0 | Some r \<Rightarrow> global_base r + (a - base_addr r))"

section \<open>Initialisation and shutdown\<close>

text \<open>\<^verbatim>\<open>chunks * DSM_PAGE_SIZE\<close> is a product of 32-bit integers, widened afterwards.\<close>

definition region_size_of :: "u32 \<Rightarrow> u64" where
  "region_size_of c = ucast (c * 4096)"

definition dsm_mem_init :: "u32 \<Rightarrow> u64 option \<Rightarrow> world \<Rightarrow> crash + (int \<times> world)" where
  "dsm_mem_init c addr w =
     (let (r, w) = dsm_page_table_init w in
      if r \<noteq> 0 then Inr (-1, w)
      else let w = ownership_table_init w; rs = region_size_of c; next = next_global_addr (ctx w);
               master = (local_role (ctx w) = DSM_ROLE_MASTER);
               gbase = (if master then next else next + ucast (local_node_id (ctx w)) * rs);
               w = (if master then w\<lparr>ctx := (ctx w)\<lparr>next_global_addr := next + rs\<rparr>\<rparr> else w)
        in case dsm_region_create rs (local_node_id (ctx w)) gbase addr w of
             Inl e \<Rightarrow> Inl e
           | Inr (None, w) \<Rightarrow>
               Inr (-1, dsm_page_table_destroy (w\<lparr>ctx := (ctx w)\<lparr>local_region := None\<rparr>\<rparr>))
           | Inr (Some r, w) \<Rightarrow>
               (let w = w\<lparr>ctx := (ctx w)\<lparr>local_region := Some (region_ptr r)\<rparr>\<rparr>
                in Inr (0, if master
                           then snd (dsm_ownership_register gbase rs (local_node_id (ctx w)) w) else w)))"

definition unmap_region :: "world \<Rightarrow> dsm_region \<Rightarrow> world" where
  "unmap_region w r = (if base_addr r \<noteq> 0 then munmap (base_addr r) (unat (total_size r)) w else w)"

definition dsm_mem_shutdown :: "world \<Rightarrow> world" where
  "dsm_mem_shutdown w =
     (let w = foldl unmap_region w (regions (ctx w));
          w = w\<lparr>ctx := (ctx w)\<lparr>regions := [], local_region := None\<rparr>\<rparr>
      in ownership_table_destroy (dsm_page_table_destroy w))"

section \<open>Allocation\<close>

text \<open>The results are the local address, \<open>0\<close> for \<^verbatim>\<open>NULL\<close>. Only the master registers the owner.\<close>

definition dsm_mem_alloc :: "u64 \<Rightarrow> u64 option \<Rightarrow> world \<Rightarrow> crash + (u64 \<times> world)" where
  "dsm_mem_alloc n addr w =
     (if n = 0 then Inr (0, w)
      else let aligned = page_align n; ga = next_global_addr (ctx w);
               w = w\<lparr>ctx := (ctx w)\<lparr>next_global_addr := ga + aligned\<rparr>\<rparr>;
               w = (if local_role (ctx w) = DSM_ROLE_MASTER
                    then snd (dsm_ownership_register ga aligned (local_node_id (ctx w)) w) else w)
        in case dsm_region_create aligned (local_node_id (ctx w)) ga addr w of
             Inl e \<Rightarrow> Inl e
           | Inr (None, w) \<Rightarrow> Inr (0, w)
           | Inr (Some r, w) \<Rightarrow> Inr (base_addr r, w))"

definition dsm_mem_free :: "u64 \<Rightarrow> world \<Rightarrow> world" where
  "dsm_mem_free a w =
     (if a = 0 then w
      else let ga = dsm_local_to_global a w in
        if ga = 0 then w else dsm_region_destroy (dsm_region_find ga w) w)"

definition dsm_malloc :: "u64 \<Rightarrow> u64 option \<Rightarrow> world \<Rightarrow> crash + (u64 \<times> world)" where
  "dsm_malloc n addr w = dsm_mem_alloc n addr w"

definition dsm_free :: "u64 \<Rightarrow> world \<Rightarrow> world" where
  "dsm_free a w = dsm_mem_free a w"

definition share_page :: "u64 \<Rightarrow> world \<Rightarrow> world" where
  "share_page a w =
     (case dsm_page_lookup a w of
        None \<Rightarrow> w | Some i \<Rightarrow> update_page i (\<lambda>p. p\<lparr>pstate := DSM_PAGE_SHARED\<rparr>) w)"

definition dsm_malloc_at :: "u64 \<Rightarrow> u64 \<Rightarrow> u64 option \<Rightarrow> world \<Rightarrow> crash + (u64 \<times> world)" where
  "dsm_malloc_at ga n addr w =
     (if n = 0 then Inr (0, w)
      else let aligned = page_align n;
               w = snd (dsm_ownership_register ga aligned (local_node_id (ctx w)) w)
        in case dsm_region_create aligned (local_node_id (ctx w)) ga addr w of
             Inl e \<Rightarrow> Inl e
           | Inr (None, w) \<Rightarrow> Inr (0, w)
           | Inr (Some r, w) \<Rightarrow>
               (let (ok, w) = mprotect (base_addr r) (unat aligned) ProtRW w in
                if \<not> ok then Inr (0, w)
                else Inr (base_addr r, foldl (\<lambda>w i. share_page (ga + word_of_nat i * 4096) w) w
                       [0..<unat (aligned div 4096)])))"

definition dsm_map_remote :: "u64 \<Rightarrow> u64 \<Rightarrow> u64 option \<Rightarrow> world \<Rightarrow> crash + (u64 \<times> world)" where
  "dsm_map_remote ga n addr w =
     (if n = 0 then Inr (0, w)
      else let aligned = page_align n; w = snd (dsm_ownership_register ga aligned 1 w)
        in case dsm_region_create aligned 1 ga addr w of
             Inl e \<Rightarrow> Inl e
           | Inr (None, w) \<Rightarrow> Inr (0, w)
           | Inr (Some r, w) \<Rightarrow> Inr (base_addr r, w))"

section \<open>Creating a region\<close>

lemma page_register_frame [simp, frame_simps]:
  "vm (snd (dsm_page_register ga la k w)) = vm w" "mem (snd (dsm_page_register ga la k w)) = mem w"
  "g_ownership_table (snd (dsm_page_register ga la k w)) = g_ownership_table w"
  "next_region_ptr (snd (dsm_page_register ga la k w)) = next_region_ptr w"
  "regions (ctx (snd (dsm_page_register ga la k w))) = regions (ctx w)"
  "next_global_addr (ctx (snd (dsm_page_register ga la k w))) = next_global_addr (ctx w)"
  "local_node_id (ctx (snd (dsm_page_register ga la k w))) = local_node_id (ctx w)"
  "local_role (ctx (snd (dsm_page_register ga la k w))) = local_role (ctx w)"
  "sent (snd (dsm_page_register ga la k w)) = sent w"
  by (simp_all add: dsm_page_register_def case_prod_beta Let_def put_pages_def split: option.splits)

lemma register_pages_frame [simp, frame_simps]:
  "vm (register_pages g a k n w) = vm w" "mem (register_pages g a k n w) = mem w"
  "g_ownership_table (register_pages g a k n w) = g_ownership_table w"
  "next_region_ptr (register_pages g a k n w) = next_region_ptr w"
  "regions (ctx (register_pages g a k n w)) = regions (ctx w)"
  "next_global_addr (ctx (register_pages g a k n w)) = next_global_addr (ctx w)"
  "local_node_id (ctx (register_pages g a k n w)) = local_node_id (ctx w)"
  "local_role (ctx (register_pages g a k n w)) = local_role (ctx w)"
  "sent (register_pages g a k n w) = sent w"
proof -
  have "vm (register_pages g a k n w) = vm w \<and> mem (register_pages g a k n w) = mem w \<and>
    g_ownership_table (register_pages g a k n w) = g_ownership_table w \<and>
    next_region_ptr (register_pages g a k n w) = next_region_ptr w \<and>
    regions (ctx (register_pages g a k n w)) = regions (ctx w) \<and>
    next_global_addr (ctx (register_pages g a k n w)) = next_global_addr (ctx w) \<and>
    local_node_id (ctx (register_pages g a k n w)) = local_node_id (ctx w) \<and>
    local_role (ctx (register_pages g a k n w)) = local_role (ctx w) \<and>
    sent (register_pages g a k n w) = sent w"
    by (induction n) (simp_all add: register_pages_def)
  then show "vm (register_pages g a k n w) = vm w" "mem (register_pages g a k n w) = mem w"
    "g_ownership_table (register_pages g a k n w) = g_ownership_table w"
    "next_region_ptr (register_pages g a k n w) = next_region_ptr w"
    "regions (ctx (register_pages g a k n w)) = regions (ctx w)"
    "next_global_addr (ctx (register_pages g a k n w)) = next_global_addr (ctx w)"
    "local_node_id (ctx (register_pages g a k n w)) = local_node_id (ctx w)"
    "local_role (ctx (register_pages g a k n w)) = local_role (ctx w)"
    "sent (register_pages g a k n w) = sent w"
    by simp_all
qed

lemma register_pages_script:
  "res_script w = [] \<Longrightarrow> res_script (register_pages g a k n w) = []"
proof (induction n)
  case (Suc n)
  have "res_script (snd (dsm_page_register ga la k v)) = []" if "res_script v = []" for ga la v
    using that by (simp add: dsm_page_register_def sys_call_ok Let_def put_pages_def split: option.splits)
  with Suc show ?case
    by (simp add: register_pages_def)
qed (simp add: register_pages_def)

lemma add_region_frame [simp, frame_simps]:
  "vm (add_region r w) = vm w" "mem (add_region r w) = mem w"
  "g_ownership_table (add_region r w) = g_ownership_table w"
  "next_region_ptr (add_region r w) = Suc (next_region_ptr w)"
  "regions (ctx (add_region r w)) = regions (ctx w) @ [r]"
  "next_global_addr (ctx (add_region r w)) = next_global_addr (ctx w)"
  "local_node_id (ctx (add_region r w)) = local_node_id (ctx w)"
  "local_role (ctx (add_region r w)) = local_role (ctx w)"
  by (simp_all add: add_region_def)

lemma mmap_frame [simp, frame_simps]:
  "ctx (mmap_none a n w) = ctx w" "res_script (mmap_none a n w) = res_script w"
  "next_region_ptr (mmap_none a n w) = next_region_ptr w"
  "g_ownership_table (mmap_none a n w) = g_ownership_table w"
  "vm (mmap_none a n w) x = (if x \<in> set (pages_spanned a n) then ProtNone else vm w x)"
  "mem (mmap_none a n w) x = (if unat (x - a) < n then 0 else mem w x)"
  by (simp_all add: mmap_none_def set_prot_vm)

lemma mprotect_writable: "mprotect a n ProtRW w = (True, w') \<Longrightarrow> writable a n w'"
  by (simp add: writable_def mprotect_True list_all_iff)

text \<open>The memory a region's owner gets is writable when it is zeroed, so nothing can fault.\<close>

lemma region_create_no_crash: "dsm_region_create n k g addr w \<noteq> Inl e"
proof -
  have "memset_zero a m (snd (mprotect a m ProtRW v)) \<noteq> Inl e" if "fst (mprotect a m ProtRW v)" for a m v
    using mprotect_writable [of a m v "snd (mprotect a m ProtRW v)"] that
    by (cases "mprotect a m ProtRW v") (simp add: memset_zero_def)
  then show ?thesis
    by (auto simp: dsm_region_create_def case_prod_beta Let_def split: option.splits sum.splits)
qed

definition made_region :: "u64 \<Rightarrow> u32 \<Rightarrow> u64 \<Rightarrow> u64 \<Rightarrow> world \<Rightarrow> dsm_region" where
  "made_region n k g a w = \<lparr>region_ptr = next_region_ptr w, base_addr = a, total_size = page_align n,
     page_count = page_align n div 4096, region_owner_id = k, global_base = g\<rparr>"

text \<open>A region made for the local node, when the system refuses nothing.\<close>

lemma region_create_local:
  assumes "res_script w = []" "page_align n \<noteq> 0"
  shows "\<exists>w'. dsm_region_create n (local_node_id (ctx w)) g (Some a) w =
      Inr (Some (made_region n (local_node_id (ctx w)) g a w), w') \<and>
    regions (ctx w') = regions (ctx w) @ [made_region n (local_node_id (ctx w)) g a w] \<and>
    next_region_ptr w' = Suc (next_region_ptr w) \<and> next_global_addr (ctx w') = next_global_addr (ctx w) \<and>
    local_role (ctx w') = local_role (ctx w) \<and> local_node_id (ctx w') = local_node_id (ctx w) \<and>
    (\<forall>x. vm w' x = (if x \<in> set (pages_spanned a (unat (page_align n))) then ProtRW else vm w x)) \<and>
    (\<forall>x. mem w' x = (if unat (x - a) < unat (page_align n) then 0 else mem w x)) \<and> res_script w' = []"
proof -
  let ?n = "unat (page_align n)" and ?k = "local_node_id (ctx w)"
  let ?m = "mmap_none a ?n w"
  let ?p = "set_prot a ?n ProtRW ?m"
  have mp: "mprotect a ?n ProtRW ?m = (True, ?p)"
    using assms(1) by (simp add: mprotect_def sys_call_ok list_all_iff)
  let ?z = "?p\<lparr>mem := (\<lambda>x. if unat (x - a) < ?n then 0 else mem ?p x)\<rparr>"
  have mz: "memset_zero a ?n ?p = Inr ?z"
    using mprotect_writable [OF mp] by (simp add: memset_zero_def)
  have calls: "sys_call ?z = (True, ?z)"
    using assms(1) by (simp add: sys_call_ok)
  let ?r = "made_region n ?k g a w"
  let ?w = "register_pages g a ?k (unat (page_align n div 4096)) (add_region ?r ?z)"
  have "dsm_region_create n ?k g (Some a) w = Inr (Some ?r, ?w)"
    using assms(2) mp mz calls by (simp add: dsm_region_create_def Let_def made_region_def)
  moreover have "regions (ctx ?w) = regions (ctx w) @ [?r]" "next_region_ptr ?w = Suc (next_region_ptr w)"
    "next_global_addr (ctx ?w) = next_global_addr (ctx w)" "local_role (ctx ?w) = local_role (ctx w)"
    "local_node_id (ctx ?w) = local_node_id (ctx w)"
    by simp_all
  moreover have "vm ?w x = (if x \<in> set (pages_spanned a ?n) then ProtRW else vm w x)" for x
    by (simp add: set_prot_vm)
  moreover have "mem ?w x = (if unat (x - a) < ?n then 0 else mem w x)" for x
    by simp
  moreover have "res_script ?w = []"
    using assms(1) by (intro register_pages_script) (simp add: add_region_def)
  ultimately show ?thesis
    by blast
qed

lemma region_create_aligned:
  assumes "res_script w = []" "page_align m = m" "m \<noteq> 0" "local_node_id (ctx w) = k"
  shows "\<exists>w'. dsm_region_create m k g (Some a) w = Inr (Some (made_region m k g a w), w') \<and>
    regions (ctx w') = regions (ctx w) @ [made_region m k g a w] \<and>
    next_region_ptr w' = Suc (next_region_ptr w) \<and> next_global_addr (ctx w') = next_global_addr (ctx w) \<and>
    (\<forall>x. vm w' x = (if x \<in> set (pages_spanned a (unat m)) then ProtRW else vm w x)) \<and>
    (\<forall>x. mem w' x = (if unat (x - a) < unat m then 0 else mem w x)) \<and>
    res_script w' = [] \<and> local_role (ctx w') = local_role (ctx w) \<and> local_node_id (ctx w') = k"
proof -
  have "page_align m \<noteq> 0"
    using assms(2,3) by simp
  from region_create_local [OF assms(1) this, of g a] show ?thesis
    unfolding assms(2,4) by blast
qed

section \<open>Well-formed regions\<close>

text \<open>No region is empty or wraps around, none is at address 0.\<close>

definition region_ok :: "dsm_region \<Rightarrow> bool" where
  "region_ok r \<longleftrightarrow> 0 < total_size r \<and> base_addr r \<noteq> 0 \<and> global_base r \<noteq> 0 \<and>
     unat (base_addr r) + unat (total_size r) < 2 ^ 64 \<and> unat (global_base r) + unat (total_size r) < 2 ^ 64"

definition apart :: "dsm_region \<Rightarrow> dsm_region \<Rightarrow> bool" where
  "apart r s \<longleftrightarrow> (\<forall>x. \<not> (local_covers x r \<and> local_covers x s)) \<and>
     (\<forall>x. \<not> (global_covers x r \<and> global_covers x s))"

text \<open>
  The regions of a node: well formed, with different numbers, apart from each other, and below the
  next global address to be given out.
\<close>

definition regions_ok :: "world \<Rightarrow> bool" where
  "regions_ok w \<longleftrightarrow> (\<forall>r \<in> set (regions (ctx w)). region_ok r \<and> region_ptr r < next_region_ptr w \<and>
       unat (global_base r) + unat (total_size r) \<le> unat (next_global_addr (ctx w))) \<and>
     distinct (map region_ptr (regions (ctx w))) \<and>
     (\<forall>r \<in> set (regions (ctx w)). \<forall>s \<in> set (regions (ctx w)). r \<noteq> s \<longrightarrow> apart r s)"

lemma covers_range:
  assumes "unat b + unat n < 2 ^ 64"
  shows "b \<le> x \<and> x < b + n \<longleftrightarrow> unat b \<le> unat x \<and> unat x < unat b + unat (n :: u64)"
proof -
  have "unat (b + n) = unat b + unat n"
    using assms by (intro unat_add_lem [THEN iffD1]) simp
  then show ?thesis
    by (simp add: word_le_nat_alt word_less_nat_alt)
qed

lemma global_covers_range:
  "region_ok r \<Longrightarrow> global_covers x r \<longleftrightarrow>
     unat (global_base r) \<le> unat x \<and> unat x < unat (global_base r) + unat (total_size r)"
  unfolding global_covers_def by (rule covers_range) (simp add: region_ok_def)

lemma local_covers_range:
  "region_ok r \<Longrightarrow> local_covers x r \<longleftrightarrow>
     unat (base_addr r) \<le> unat x \<and> unat x < unat (base_addr r) + unat (total_size r)"
  unfolding local_covers_def by (rule covers_range) (simp add: region_ok_def)

text \<open>An offset within a range of the same length elsewhere.\<close>

lemma unat_shift:
  assumes "unat b \<le> unat x" "unat x < unat b + n" "unat (c :: u64) + n < 2 ^ 64"
  shows "unat (c + (x - b)) = unat c + (unat x - unat b)"
proof -
  have "unat (x - b) = unat x - unat b"
    using assms(1) by (simp add: unat_sub word_le_nat_alt)
  moreover have "unat (c + (x - b)) = unat c + unat (x - b)"
    using assms calculation by (intro unat_add_lem [THEN iffD1]) simp
  ultimately show ?thesis by simp
qed

lemma global_of_local:
  assumes "region_ok r" "local_covers x r"
  shows "global_covers (global_base r + (x - base_addr r)) r"
proof -
  have range: "unat (base_addr r) \<le> unat x" "unat x < unat (base_addr r) + unat (total_size r)"
    using assms by (simp_all add: local_covers_range)
  then have "unat (global_base r + (x - base_addr r)) = unat (global_base r) + (unat x - unat (base_addr r))"
    using assms(1) by (intro unat_shift) (auto simp: region_ok_def)
  with range show ?thesis
    unfolding global_covers_range [OF assms(1)] by linarith
qed

lemma local_of_global:
  assumes "region_ok r" "global_covers x r"
  shows "local_covers (base_addr r + (x - global_base r)) r"
proof -
  have range: "unat (global_base r) \<le> unat x" "unat x < unat (global_base r) + unat (total_size r)"
    using assms by (simp_all add: global_covers_range)
  then have "unat (base_addr r + (x - global_base r)) = unat (base_addr r) + (unat x - unat (global_base r))"
    using assms(1) by (intro unat_shift) (auto simp: region_ok_def)
  with range show ?thesis
    unfolding local_covers_range [OF assms(1)] by linarith
qed

lemma find_unique:
  assumes "r \<in> set rs" "P r" "\<And>s. s \<in> set rs \<Longrightarrow> P s \<Longrightarrow> s = r"
  shows "List.find P rs = Some r"
  using assms
proof (induction rs)
  case (Cons s rs)
  show ?case
  proof (cases "P s")
    case True
    then have "s = r"
      using Cons.prems(3) [of s] by simp
    with True show ?thesis by simp
  next
    case False
    then have "r \<in> set rs"
      using Cons.prems(1,2) by auto
    then have "List.find P rs = Some r"
      by (rule Cons.IH) (rule Cons.prems(2), rule Cons.prems(3), simp_all)
    with False show ?thesis by simp
  qed
qed simp

lemma regions_apart:
  "regions_ok w \<Longrightarrow> r \<in> set (regions (ctx w)) \<Longrightarrow> s \<in> set (regions (ctx w)) \<Longrightarrow> apart s r \<or> s = r"
  by (auto simp: regions_ok_def)

lemma find_local:
  assumes "regions_ok w" "r \<in> set (regions (ctx w))" "local_covers x r"
  shows "List.find (local_covers x) (regions (ctx w)) = Some r"
proof (rule find_unique)
  fix s assume "s \<in> set (regions (ctx w))" "local_covers x s"
  then show "s = r"
    using regions_apart [OF assms(1,2)] assms(3) by (auto simp: apart_def)
qed (use assms in simp_all)

lemma find_global:
  assumes "regions_ok w" "r \<in> set (regions (ctx w))" "global_covers x r"
  shows "dsm_region_find x w = Some r"
  unfolding dsm_region_find_def
proof (rule find_unique)
  fix s assume "s \<in> set (regions (ctx w))" "global_covers x s"
  then show "s = r"
    using regions_apart [OF assms(1,2)] assms(3) by (auto simp: apart_def)
qed (use assms in simp_all)

lemma global_not_zero: "region_ok r \<Longrightarrow> global_covers x r \<Longrightarrow> x \<noteq> 0"
  by (auto simp: global_covers_range region_ok_def unat_eq_zero)

text \<open>A new region behind the others.\<close>

lemma regions_ok_add:
  assumes "regions_ok w" "region_ok r" "region_ptr r = next_region_ptr w"
    and "global_base r = next_global_addr (ctx w)"
    and "\<And>x s. s \<in> set (regions (ctx w)) \<Longrightarrow> \<not> (local_covers x s \<and> local_covers x r)"
    and "regions (ctx w') = regions (ctx w) @ [r]" "next_region_ptr w' = Suc (next_region_ptr w)"
    and "next_global_addr (ctx w') = next_global_addr (ctx w) + total_size r"
  shows "regions_ok w'"
proof -
  have n: "unat (next_global_addr (ctx w')) = unat (next_global_addr (ctx w)) + unat (total_size r)"
    unfolding assms(8) using assms(2,4) by (intro unat_add_lem [THEN iffD1]) (simp add: region_ok_def)
  have sep: "apart s r \<and> apart r s" if "s \<in> set (regions (ctx w))" for s
  proof -
    have "region_ok s" "unat (global_base s) + unat (total_size s) \<le> unat (global_base r)"
      using assms(1,4) that by (auto simp: regions_ok_def)
    then show ?thesis
      using assms(2) assms(5) [OF that] by (auto simp: apart_def global_covers_range)
  qed
  show ?thesis
    using assms(1-4) sep n unfolding regions_ok_def assms(6,7) by fastforce
qed

lemma page_align_div: "unat (n :: u64) + 4095 < 2 ^ 64 \<Longrightarrow> unat (page_align n) = (unat n + 4095) div 4096 * 4096"
proof -
  assume n: "unat n + 4095 < 2 ^ 64"
  then have "unat (n + 4095) = unat n + 4095"
    using unat_add_lem [of n 4095] by simp
  then have d: "unat ((n + 4095) div 4096) = (unat n + 4095) div 4096"
    by (simp add: unat_div_distrib)
  moreover have "(unat n + 4095) div 4096 * 4096 < 2 ^ 64"
    using n div_times_less_eq_dividend [of "unat n + 4095" 4096] by linarith
  ultimately have "unat ((n + 4095) div 4096 * 4096) = unat ((n + 4095) div 4096) * unat (4096 :: u64)"
    by (intro unat_mult_lem [THEN iffD1]) simp
  with d show ?thesis
    by (simp add: page_align_def)
qed

lemma page_align_bounds:
  assumes "unat (n :: u64) + 4095 < 2 ^ 64"
  shows "unat n \<le> unat (page_align n)" "unat (page_align n) < unat n + 4096" "unat (page_align n) mod 4096 = 0"
proof -
  have "unat n + 4095 - (unat n + 4095) mod 4096 = unat (page_align n)"
    unfolding page_align_div [OF assms] by (rule minus_mod_eq_div_mult)
  moreover have "(unat n + 4095) mod 4096 < 4096"
    by simp
  ultimately show "unat n \<le> unat (page_align n)" "unat (page_align n) < unat n + 4096"
    by linarith+
  show "unat (page_align n) mod 4096 = 0"
    unfolding page_align_div [OF assms] by simp
qed

lemma page_align_idem:
  assumes "unat (n :: u64) + 8190 < 2 ^ 64"
  shows "page_align (page_align n) = page_align n"
proof -
  have n: "unat n + 4095 < 2 ^ 64"
    using assms by simp
  note b = page_align_bounds [OF n]
  have "unat (page_align n) + 4095 < 2 ^ 64"
    using b(2) assms by linarith
  then have "unat (page_align (page_align n)) = (unat (page_align n) + 4095) div 4096 * 4096"
    by (rule page_align_div)
  also have "\<dots> = unat (page_align n)"
  proof -
    obtain q where "unat (page_align n) = 4096 * q"
      using b(3) by (auto simp: mod_eq_0_iff_dvd)
    then show ?thesis by simp
  qed
  finally show ?thesis
    by (simp add: word_unat_eq_iff)
qed

lemma remove_first_distinct:
  assumes "distinct (map f xs)" "x \<in> set xs"
  shows "remove_first (\<lambda>y. f y = f x) xs = filter (\<lambda>y. y \<noteq> x) xs"
  using assms
proof (induction xs)
  case (Cons y ys)
  show ?case
  proof (cases "y = x")
    case True
    then have "\<forall>z \<in> set ys. z \<noteq> x"
      using Cons.prems(1) by (auto simp: image_iff)
    with True show ?thesis by simp
  next
    case False
    then have "x \<in> set ys" "f y \<noteq> f x"
      using Cons.prems by (auto simp: image_iff)
    with False Cons show ?thesis by simp
  qed
qed simp

lemma munmap_frame [simp, frame_simps]:
  "ctx (munmap a n w) = ctx w" "mem (munmap a n w) = mem w" "res_script (munmap a n w) = res_script w"
  "next_region_ptr (munmap a n w) = next_region_ptr w"
  "vm (munmap a n w) x = (if x \<in> set (pages_spanned a n) then Unmapped else vm w x)"
  by (simp_all add: munmap_def set_prot_vm)

text \<open>Freeing an address inside a region of well-formed regions.\<close>

lemma mem_free_eq:
  assumes "regions_ok w" "r \<in> set (regions (ctx w))" "local_covers a r"
  shows "dsm_mem_free a w = munmap (base_addr r) (unat (total_size r))
    (w\<lparr>ctx := (ctx w)\<lparr>regions := filter (\<lambda>s. s \<noteq> r) (regions (ctx w))\<rparr>\<rparr>)"
proof -
  have ok: "region_ok r"
    using assms(1,2) by (simp add: regions_ok_def)
  have g: "global_covers (global_base r + (a - base_addr r)) r"
    using ok assms(3) by (rule global_of_local)
  have eq: "dsm_local_to_global a w = global_base r + (a - base_addr r)"
    using find_local [OF assms] by (simp add: dsm_local_to_global_def)
  have "a \<noteq> 0"
    using ok assms(3) by (auto simp: local_covers_range region_ok_def unat_eq_zero)
  moreover have "dsm_local_to_global a w \<noteq> 0"
    unfolding eq using ok g by (rule global_not_zero)
  moreover have "dsm_region_find (dsm_local_to_global a w) w = Some r"
    unfolding eq by (rule find_global [OF assms(1,2) g])
  moreover have "base_addr r \<noteq> 0"
    using ok by (simp add: region_ok_def)
  moreover have "remove_first (\<lambda>s. region_ptr s = region_ptr r) (regions (ctx w)) =
      filter (\<lambda>s. s \<noteq> r) (regions (ctx w))"
    using assms(1,2) by (intro remove_first_distinct) (simp_all add: regions_ok_def)
  ultimately show ?thesis
    by (simp add: dsm_mem_free_def dsm_region_destroy_def Let_def)
qed

section \<open>Properties\<close>

text \<open>
  C22. Address translation: in well-formed regions a local address of a region has a global address
  that translates back to it, and a global address of a region has a local one that translates back
  to it.
\<close>

theorem address_translation:
  assumes "regions_ok w" "r \<in> set (regions (ctx w))"
  shows "(local_covers x r \<longrightarrow> dsm_local_to_global x w \<noteq> 0 \<and>
      dsm_global_to_local (dsm_local_to_global x w) w = Some x) \<and>
    (global_covers g r \<longrightarrow> (\<exists>y. dsm_global_to_local g w = Some y \<and> local_covers y r \<and>
      dsm_local_to_global y w = g))"
proof (intro conjI impI)
  have ok: "region_ok r"
    using assms by (simp add: regions_ok_def)
  {
    assume x: "local_covers x r"
    have eq: "dsm_local_to_global x w = global_base r + (x - base_addr r)"
      using find_local [OF assms x] by (simp add: dsm_local_to_global_def)
    have g: "global_covers (global_base r + (x - base_addr r)) r"
      using ok x by (rule global_of_local)
    show "dsm_local_to_global x w \<noteq> 0"
      unfolding eq using ok g by (rule global_not_zero)
    show "dsm_global_to_local (dsm_local_to_global x w) w = Some x"
      unfolding eq by (simp add: dsm_global_to_local_def find_global [OF assms g])
  next
    assume g: "global_covers g r"
    have "local_covers (base_addr r + (g - global_base r)) r"
      using ok g by (rule local_of_global)
    then show "\<exists>y. dsm_global_to_local g w = Some y \<and> local_covers y r \<and> dsm_local_to_global y w = g"
      using find_global [OF assms g] find_local [OF assms]
      by (auto simp: dsm_global_to_local_def dsm_local_to_global_def)
  }
qed

text \<open>A node with one region of two pages.\<close>

definition demo_region :: dsm_region where
  "demo_region = \<lparr>region_ptr = 0, base_addr = 0x7000000, total_size = 8192, page_count = 2,
     region_owner_id = 0, global_base = 0x1000000\<rparr>"

definition demo_memory :: world where
  "demo_memory = boot_world\<lparr>next_region_ptr := 1, vm := (\<lambda>a. if a = 0x7000000 \<or> a = 0x7001000 then ProtRW else Unmapped),
     ctx := (ctx boot_world)\<lparr>regions := [demo_region], next_global_addr := 0x1002000,
       page_table := Some \<lparr>pages = [\<lparr>local_addr = 0x7000000, global_addr = 0x1000000, psize = 4096,
         pstate = DSM_PAGE_MODIFIED, owner_id = 0, version = 1, dirty = False\<rparr>], capacity = 1024\<rparr>\<rparr>\<rparr>"

lemma demo_memory_ok [simp]: "regions_ok demo_memory"
  by (simp add: regions_ok_def demo_memory_def demo_region_def region_ok_def)

lemma demo_memory_facts [simp]:
  "regions (ctx demo_memory) = [demo_region]" "res_script demo_memory = []"
  "next_global_addr (ctx demo_memory) = 0x1002000" "next_region_ptr demo_memory = 1"
  by (simp_all add: demo_memory_def boot_world_def)

theorem address_translation_witness:
  "dsm_global_to_local (dsm_local_to_global 0x7001234 demo_memory) demo_memory = Some 0x7001234"
proof -
  have "local_covers 0x7001234 demo_region"
    by (simp add: local_covers_def demo_region_def)
  then show ?thesis
    using address_translation [of demo_memory demo_region "0x7001234"] by simp
qed

text \<open>Allocation adds one region, which starts at the next global address.\<close>

lemma mem_alloc_region:
  assumes "res_script w = []" "n \<noteq> 0" "unat n + 8190 < 2 ^ 64"
  shows "\<exists>w' r. dsm_mem_alloc n (Some a) w = Inr (a, w') \<and> base_addr r = a \<and> total_size r = page_align n \<and>
    global_base r = next_global_addr (ctx w) \<and> region_ptr r = next_region_ptr w \<and>
    regions (ctx w') = regions (ctx w) @ [r] \<and> next_region_ptr w' = Suc (next_region_ptr w) \<and>
    next_global_addr (ctx w') = next_global_addr (ctx w) + page_align n \<and>
    (\<forall>x \<in> set (pages_spanned a (unat (page_align n))). vm w' x = ProtRW) \<and>
    (\<forall>x. unat (x - a) < unat (page_align n) \<longrightarrow> mem w' x = 0)"
proof -
  let ?n = "page_align n" and ?g = "next_global_addr (ctx w)" and ?k = "local_node_id (ctx w)"
  have "unat n + 4095 < 2 ^ 64"
    using assms(3) by simp
  from page_align_bounds(1) [OF this] have pos: "?n \<noteq> 0"
    using assms(2) unat_gt_0 [of n] by (auto simp: unat_eq_0)
  have idem: "page_align ?n = ?n"
    using assms(3) by (rule page_align_idem)
  let ?v = "w\<lparr>ctx := (ctx w)\<lparr>next_global_addr := ?g + ?n\<rparr>\<rparr>"
  define u where "u = (if local_role (ctx ?v) = DSM_ROLE_MASTER then snd (dsm_ownership_register ?g ?n ?k ?v) else ?v)"
  have reg: "res_script (snd (dsm_ownership_register ?g ?n ?k ?v)) = []"
    using assms(1) by (simp add: dsm_ownership_register_def sys_call_ok Let_def)
  have u: "res_script u = []" "local_node_id (ctx u) = ?k" "regions (ctx u) = regions (ctx w)"
    "next_global_addr (ctx u) = ?g + ?n" "next_region_ptr u = next_region_ptr w"
    using assms(1) reg by (simp_all add: u_def)
  define r where "r = made_region ?n ?k ?g a u"
  have r: "base_addr r = a" "total_size r = ?n" "global_base r = ?g" "region_ptr r = next_region_ptr w"
    using u(5) by (simp_all add: r_def made_region_def idem)
  from region_create_aligned [OF u(1) idem pos u(2), of ?g a] obtain w' where
    w': "dsm_region_create ?n ?k ?g (Some a) u = Inr (Some r, w')"
    "regions (ctx w') = regions (ctx w) @ [r]" "next_region_ptr w' = Suc (next_region_ptr w)"
    "next_global_addr (ctx w') = ?g + ?n"
    "\<forall>x. vm w' x = (if x \<in> set (pages_spanned a (unat ?n)) then ProtRW else vm u x)"
    "\<forall>x. mem w' x = (if unat (x - a) < unat ?n then 0 else mem u x)"
    unfolding u(3-5) r_def by blast
  have "dsm_mem_alloc n (Some a) w = Inr (a, w')"
    using w'(1) assms(2) r(1)
    by (cases "local_role (ctx w) = DSM_ROLE_MASTER") (simp_all add: dsm_mem_alloc_def Let_def u_def)
  with w' r show ?thesis
    by (intro exI [of _ w'] exI [of _ r]) simp
qed

text \<open>
  C23. Allocation: with a fresh mapping from the system, \<^verbatim>\<open>dsm_mem_alloc\<close> returns its address; the
  memory is at least as large as asked for, writable and zero, and gets the next global address, which
  then advances past it; the regions stay well formed and apart, and the addresses of the older regions
  keep their translation.
\<close>

theorem mem_alloc_correct:
  assumes "regions_ok w" "res_script w = []" "n \<noteq> 0" "unat n + 8190 < 2 ^ 64" "a \<noteq> 0"
    and "next_global_addr (ctx w) \<noteq> 0" "unat (next_global_addr (ctx w)) + unat (page_align n) < 2 ^ 64"
    and "unat a + unat (page_align n) < 2 ^ 64"
    and fresh: "\<And>x s. s \<in> set (regions (ctx w)) \<Longrightarrow> \<not> (local_covers x s \<and> a \<le> x \<and> x < a + page_align n)"
  shows "\<exists>w'. dsm_mem_alloc n (Some a) w = Inr (a, w') \<and> regions_ok w' \<and> n \<le> page_align n \<and>
    writable a (unat (page_align n)) w' \<and> (\<forall>x. unat (x - a) < unat (page_align n) \<longrightarrow> mem w' x = 0) \<and>
    dsm_local_to_global a w' = next_global_addr (ctx w) \<and>
    next_global_addr (ctx w') = next_global_addr (ctx w) + page_align n \<and>
    (\<forall>s \<in> set (regions (ctx w)). \<forall>x. local_covers x s \<longrightarrow> dsm_local_to_global x w' = dsm_local_to_global x w)"
proof -
  let ?n = "page_align n" and ?g = "next_global_addr (ctx w)"
  have "unat n + 4095 < 2 ^ 64"
    using assms(4) by simp
  from page_align_bounds(1) [OF this] have pos: "0 < ?n" "n \<le> ?n"
    using assms(3) unat_gt_0 [of n] by (simp_all add: word_less_nat_alt word_le_nat_alt)
  obtain w' r where alloc: "dsm_mem_alloc n (Some a) w = Inr (a, w')"
    and r: "base_addr r = a" "total_size r = ?n" "global_base r = ?g" "region_ptr r = next_region_ptr w"
    and w': "regions (ctx w') = regions (ctx w) @ [r]" "next_region_ptr w' = Suc (next_region_ptr w)"
      "next_global_addr (ctx w') = ?g + ?n" "\<forall>x \<in> set (pages_spanned a (unat ?n)). vm w' x = ProtRW"
      "\<forall>x. unat (x - a) < unat ?n \<longrightarrow> mem w' x = 0"
    using mem_alloc_region [OF assms(2-4), of a] by (elim exE conjE) (rule that)
  have okr: "region_ok r"
    using assms(5-8) pos(1) by (simp add: region_ok_def r)
  have ok: "regions_ok w'"
    by (rule regions_ok_add [OF assms(1) okr])
       (use fresh r w' in \<open>simp_all add: local_covers_def [of _ r]\<close>)
  have "local_covers a r"
    unfolding local_covers_range [OF okr] using pos(1) by (simp add: r word_less_nat_alt)
  then have l2g: "dsm_local_to_global a w' = ?g"
    using find_local [OF ok, of r a] w'(1) by (simp add: dsm_local_to_global_def r)
  have wr: "writable a (unat ?n) w'"
    using w'(4) by (simp add: writable_def list_all_iff)
  have "dsm_local_to_global x w' = dsm_local_to_global x w"
    if "s \<in> set (regions (ctx w))" "local_covers x s" for s x
    using find_local [OF ok, of s x] find_local [OF assms(1) that] that w'(1)
    by (simp add: dsm_local_to_global_def)
  then show ?thesis
    using ok pos(2) w'(3,5) alloc l2g wr by (intro exI [of _ w']) simp
qed

theorem mem_alloc_correct_witness:
  "\<exists>w'. dsm_mem_alloc 100 (Some 0xA000000) demo_memory = Inr (0xA000000, w') \<and> regions_ok w'"
proof -
  have al: "page_align 100 = 4096"
    by (simp add: page_align_def)
  have "\<not> (local_covers x s \<and> 0xA000000 \<le> x \<and> x < 0xA000000 + page_align 100)"
    if "s \<in> set (regions (ctx demo_memory))" for x s
    using that by (auto simp: local_covers_def demo_region_def al word_le_nat_alt word_less_nat_alt)
  then show ?thesis
    using mem_alloc_correct [of demo_memory 100 "0xA000000"] by (auto simp: al)
qed

text \<open>
  Freeing: an address inside a region frees that region and no other: it leaves the list, exactly
  its pages are unmapped, and the remaining regions stay well formed and keep their translations.
\<close>

lemma mem_free_correct:
  assumes "regions_ok w" "r \<in> set (regions (ctx w))" "local_covers a r"
  shows "regions (ctx (dsm_mem_free a w)) = filter (\<lambda>s. s \<noteq> r) (regions (ctx w)) \<and>
    (\<forall>x. vm (dsm_mem_free a w) x =
      (if x \<in> set (pages_spanned (base_addr r) (unat (total_size r))) then Unmapped else vm w x)) \<and>
    regions_ok (dsm_mem_free a w) \<and>
    (\<forall>s \<in> set (regions (ctx w)). s \<noteq> r \<longrightarrow> (\<forall>x. local_covers x s \<longrightarrow>
      dsm_local_to_global x (dsm_mem_free a w) = dsm_local_to_global x w))"
proof -
  note eq = mem_free_eq [OF assms]
  have rs: "regions (ctx (dsm_mem_free a w)) = filter (\<lambda>s. s \<noteq> r) (regions (ctx w))"
    by (simp add: eq)
  have ok: "regions_ok (dsm_mem_free a w)"
    using assms(1) unfolding regions_ok_def rs by (auto simp: eq distinct_map inj_on_def)
  have "dsm_local_to_global x (dsm_mem_free a w) = dsm_local_to_global x w"
    if "s \<in> set (regions (ctx w))" "s \<noteq> r" "local_covers x s" for s x
    using find_local [OF ok, of s x] find_local [OF assms(1) that(1,3)] that rs
    by (simp add: dsm_local_to_global_def)
  then show ?thesis
    using rs ok by (simp add: eq)
qed

text \<open>
  Freeing leaves the page table as it was: the entries of the freed pages still point at the
  unmapped memory, and answering another node's request for such a page reads it and faults.
\<close>

lemma free_leaves_stale_pages:
  assumes "regions_ok w" "r \<in> set (regions (ctx w))" "local_covers a r" "res_script w = []"
    and "dsm_page_lookup ga w = Some i" "local_addr (page_at i w) \<noteq> 0" "local_addr (page_at i w) AND 4095 = 0"
    and "local_addr (page_at i w) \<in> set (pages_spanned (base_addr r) (unat (total_size r)))"
  shows "page_list (dsm_mem_free a w) = page_list w \<and>
    dsm_page_send n ga (dsm_mem_free a w) = Inl SegFault"
proof -
  note eq = mem_free_eq [OF assms(1-3)]
  have pl: "page_list (dsm_mem_free a w) = page_list w" "has_pages (dsm_mem_free a w) = has_pages w"
    by (simp_all add: eq page_list_def has_pages_def)
  have at: "page_at i (dsm_mem_free a w) = page_at i w"
    by (simp add: page_at_def pl)
  have look: "dsm_page_lookup ga (dsm_mem_free a w) = Some i"
    using page_lookup_frame [OF pl] assms(5) by simp
  have "\<not> readable (local_addr (page_at i w)) DSM_PAGE_SIZE (dsm_mem_free a w)"
    using assms(7,8) by (simp add: readable_def pages_spanned_within) (simp add: eq)
  moreover have "sys_call (dsm_mem_free a w) = (True, dsm_mem_free a w)"
    using assms(4) by (intro sys_call_ok) (simp add: eq)
  ultimately show ?thesis
    using assms(6) by (simp add: dsm_page_send_def look at memcpy_out_def pl)
qed

lemma alloc_collides:
  assumes "regions (ctx w) = [r]" "region_ok r" "global_base r = next_global_addr (ctx w)"
    and "res_script w = []" "local_role (ctx w) \<noteq> DSM_ROLE_MASTER" "n \<noteq> 0" "unat n + 8190 < 2 ^ 64"
    and "a \<noteq> 0" "unat a + unat (page_align n) < 2 ^ 64" "\<not> local_covers a r" "region_ptr r < next_region_ptr w"
  shows "\<exists>w' s. dsm_mem_alloc n (Some a) w = Inr (a, w') \<and> regions (ctx w') = [r, s] \<and> base_addr s = a \<and>
    dsm_local_to_global a w' = global_base r \<and> dsm_region_find (global_base r) w' = Some r \<and>
    regions (ctx (dsm_mem_free a w')) = [s]"
proof -
  let ?n = "page_align n" and ?g = "next_global_addr (ctx w)" and ?k = "local_node_id (ctx w)"
  have n: "unat n + 4095 < 2 ^ 64"
    using assms(7) by simp
  have pos: "0 < ?n"
    using page_align_bounds(1) [OF n] assms(6) unat_gt_0 [of n] by (simp add: word_less_nat_alt)
  have idem: "page_align ?n = ?n"
    using assms(7) by (rule page_align_idem)
  define u where "u = w\<lparr>ctx := (ctx w)\<lparr>next_global_addr := ?g + ?n\<rparr>\<rparr>"
  have u: "res_script u = []" "local_node_id (ctx u) = ?k" "regions (ctx u) = [r]"
    "next_region_ptr u = next_region_ptr w"
    using assms(1,4) by (simp_all add: u_def)
  define s where "s = made_region ?n ?k ?g a u"
  have s: "base_addr s = a" "total_size s = ?n" "global_base s = ?g" "region_ptr s = next_region_ptr w"
    using u(4) by (simp_all add: s_def made_region_def idem)
  have "?n \<noteq> 0"
    using pos by auto
  from region_create_aligned [OF u(1) idem this u(2), of ?g a] obtain w' where
    w': "dsm_region_create ?n ?k ?g (Some a) u = Inr (Some s, w')" "regions (ctx w') = [r, s]"
    unfolding u(3) s_def by auto
  have alloc: "dsm_mem_alloc n (Some a) w = Inr (a, w')"
    using w'(1) assms(5,6) s(1) by (simp add: dsm_mem_alloc_def Let_def u_def)
  have "a < a + ?n"
    using assms(9) pos covers_range [of a ?n a] by (simp add: word_less_nat_alt)
  then have l2g: "dsm_local_to_global a w' = global_base r"
    using assms(3,10) by (simp add: dsm_local_to_global_def w'(2) local_covers_def [of _ s] s)
  have "global_covers (global_base r) r"
    using assms(2) by (simp add: global_covers_range) (simp add: region_ok_def word_less_nat_alt)
  then have find: "dsm_region_find (global_base r) w' = Some r"
    by (simp add: dsm_region_find_def w'(2))
  have "regions (ctx (dsm_mem_free a w')) = [s]"
    using assms(2,8) s(4) l2g find w'(2)
    by (simp add: dsm_mem_free_def dsm_region_destroy_def Let_def region_ok_def)
  with alloc w'(2) s(1) l2g find show ?thesis
    by blast
qed

lemma page_align_multiple:
  assumes "unat n mod 4096 = 0" "unat n + 4095 < 2 ^ 64"
  shows "page_align n = n"
proof -
  obtain q where "unat n = 4096 * q"
    using assms(1) by (auto simp: mod_eq_0_iff_dvd)
  then have "unat (page_align n) = unat n"
    using page_align_div [OF assms(2)] by simp
  then show ?thesis
    by (simp add: word_unat_eq_iff)
qed

lemma region_size_aligned: "page_align (region_size_of c) = region_size_of c"
proof (rule page_align_multiple)
  have eq: "unat (region_size_of c) = unat c * 4096 mod 4294967296"
    by (simp add: region_size_of_def unsigned_ucast_eq take_bit_eq_mod unat_word_ariths)
  have "unat c * 4096 mod 4294967296 mod 4096 = unat c * 4096 mod 4096"
    by (rule mod_mod_cancel) simp
  then show "unat (region_size_of c) mod 4096 = 0"
    unfolding eq by simp
  have "unat (region_size_of c) < 4294967296"
    unfolding eq by simp
  then show "unat (region_size_of c) + 4095 < 2 ^ 64"
    by simp
qed

text \<open>What \<^verbatim>\<open>dsm_mem_init\<close> leaves on a worker that has no id yet.\<close>

lemma mem_init_worker:
  assumes "local_role (ctx w) \<noteq> DSM_ROLE_MASTER" "local_node_id (ctx w) = 0" "regions (ctx w) = []"
    and "res_script w = []" "region_size_of c \<noteq> 0"
  shows "\<exists>w' r. dsm_mem_init c (Some b) w = Inr (0, w') \<and> regions (ctx w') = [r] \<and> base_addr r = b \<and>
    total_size r = region_size_of c \<and> global_base r = next_global_addr (ctx w) \<and>
    next_global_addr (ctx w') = next_global_addr (ctx w) \<and> region_ptr r < next_region_ptr w' \<and>
    res_script w' = [] \<and> local_role (ctx w') \<noteq> DSM_ROLE_MASTER"
proof -
  define v where "v = ownership_table_init (snd (dsm_page_table_init w))"
  have calls: "sys_calls n w = (True, w)" for n
    using assms(4) by (induction n) (simp_all add: sys_call_ok)
  have init: "fst (dsm_page_table_init w) = 0"
    by (simp add: dsm_page_table_init_def calls)
  have v: "res_script v = []" "local_node_id (ctx v) = 0" "regions (ctx v) = []"
    "next_global_addr (ctx v) = next_global_addr (ctx w)" "local_role (ctx v) = local_role (ctx w)"
    using assms by (simp_all add: v_def dsm_page_table_init_def calls ownership_table_init_def put_pages_def)
  define r where "r = made_region (region_size_of c) 0 (next_global_addr (ctx v)) b v"
  from region_create_aligned [OF v(1) region_size_aligned assms(5) v(2), of "next_global_addr (ctx v)" b]
  obtain u where u: "dsm_region_create (region_size_of c) 0 (next_global_addr (ctx v)) (Some b) v = Inr (Some r, u)"
    "regions (ctx u) = [r]" "next_region_ptr u = Suc (next_region_ptr v)" "res_script u = []"
    "next_global_addr (ctx u) = next_global_addr (ctx v)" "local_role (ctx u) = local_role (ctx v)"
    unfolding r_def v(3) by auto
  have r: "base_addr r = b" "total_size r = region_size_of c" "global_base r = next_global_addr (ctx w)"
    "region_ptr r = next_region_ptr v"
    by (simp_all add: r_def made_region_def region_size_aligned v(4))
  let ?w' = "u\<lparr>ctx := (ctx u)\<lparr>local_region := Some (region_ptr r)\<rparr>\<rparr>"
  have "dsm_mem_init c (Some b) w = Inr (0, ?w')"
    using init u(1) v assms(1)
    by (simp add: dsm_mem_init_def case_prod_beta Let_def v_def [symmetric])
  then show ?thesis
    using u r v(4,5) assms(1) by (intro exI [of _ ?w'] exI [of _ r]) simp
qed

text \<open>
  C32. A worker's first allocation collides with its local region: \<^verbatim>\<open>dsm_mem_init\<close> gives a worker whose
  id is still 0 a region at the next global address without advancing it, so the next allocation gets
  the same global address, and freeing that allocation destroys the local region instead.
\<close>

theorem worker_alloc_collides:
  assumes "local_role (ctx w0) \<noteq> DSM_ROLE_MASTER" "local_node_id (ctx w0) = 0" "regions (ctx w0) = []"
    and "res_script w0 = []" "region_size_of c \<noteq> 0" "next_global_addr (ctx w0) \<noteq> 0"
    and "unat b + unat (region_size_of c) < 2 ^ 64" "b \<noteq> 0"
    and "unat (next_global_addr (ctx w0)) + unat (region_size_of c) < 2 ^ 64"
    and "n \<noteq> 0" "unat n + 8190 < 2 ^ 64" "a \<noteq> 0" "unat a + unat (page_align n) < 2 ^ 64"
    and "\<not> (b \<le> a \<and> a < b + region_size_of c)"
  shows "\<exists>w r w' s. dsm_mem_init c (Some b) w0 = Inr (0, w) \<and> regions (ctx w) = [r] \<and>
    dsm_mem_alloc n (Some a) w = Inr (a, w') \<and> regions (ctx w') = [r, s] \<and> base_addr s = a \<and>
    dsm_local_to_global a w' = global_base r \<and> dsm_region_find (global_base r) w' = Some r \<and>
    regions (ctx (dsm_mem_free a w')) = [s]"
proof -
  from mem_init_worker [OF assms(1-5), of b] obtain w r where
    init: "dsm_mem_init c (Some b) w0 = Inr (0, w)" "regions (ctx w) = [r]" and
    r: "base_addr r = b" "total_size r = region_size_of c" "global_base r = next_global_addr (ctx w0)" and
    rest: "next_global_addr (ctx w) = next_global_addr (ctx w0)" "region_ptr r < next_region_ptr w"
    "res_script w = []" "local_role (ctx w) \<noteq> DSM_ROLE_MASTER" by blast
  have "region_ok r"
    using assms(5-9) by (simp add: region_ok_def r word_gt_0)
  moreover have "\<not> local_covers a r"
    using assms(14) by (simp add: local_covers_def r)
  moreover have "global_base r = next_global_addr (ctx w)"
    by (simp add: r rest)
  ultimately show ?thesis
    using alloc_collides [OF init(2) _ _ rest(3,4) assms(10-13)] init rest(2) by blast
qed

theorem worker_alloc_collides_witness:
  "\<exists>w r w' s. dsm_mem_init 2 (Some 0x7000000)
       (boot_world\<lparr>ctx := fresh_context\<lparr>local_role := DSM_ROLE_WORKER\<rparr>\<rparr>) = Inr (0, w) \<and>
     dsm_mem_alloc 100 (Some 0xA000000) w = Inr (0xA000000, w') \<and> regions (ctx w') = [r, s] \<and>
     regions (ctx (dsm_mem_free 0xA000000 w')) = [s]"
proof -
  let ?w = "boot_world\<lparr>ctx := fresh_context\<lparr>local_role := DSM_ROLE_WORKER\<rparr>\<rparr>"
  have "region_size_of 2 = 8192" "page_align 100 = 4096"
    by (simp_all add: region_size_of_def page_align_def)
  moreover have "res_script ?w = []"
    by (simp add: boot_world_def)
  ultimately show ?thesis
    using worker_alloc_collides [of ?w 2 "0x7000000" 100 "0xA000000"]
    by (auto simp: fresh_context_def zero_context_def)
qed

end
