(* ===== verification/DsmPageFault.thy ===== *)
theory DsmPageFault
  imports DsmRegions
begin

text \<open>
  Page faults, \<^verbatim>\<open>src/dsm_pagefault.c\<close>: the signal handler up to its busy wait and what ends that wait,
  one round of the handler thread, and the handling of a fault, whose wait for the page is over the
  list of what each \<^verbatim>\<open>pthread_cond_timedwait\<close> brings, as in \<open>page_wait\<close>.
\<close>

section \<open>The signal handler\<close>

definition dsm_is_dsm_address :: "u64 \<Rightarrow> world \<Rightarrow> bool" where
  "dsm_is_dsm_address a w \<longleftrightarrow> List.find (local_covers a) (regions (ctx w)) \<noteq> None"

datatype signal_action = DefaultAction | OldHandler | Spinning | Resumed

text \<open>
  A fault while another is being handled gets the default action, one outside the regions the old
  handler; otherwise the address is left for the handler thread, which is told by eight bytes on the
  eventfd, and the thread spins.
\<close>

definition sigsegv_handler :: "u64 \<Rightarrow> world \<Rightarrow> signal_action \<times> world" where
  "sigsegv_handler a w =
     (if g_in_handler w then (DefaultAction, w)
      else let w = w\<lparr>g_in_handler := True\<rparr> in
        if \<not> dsm_is_dsm_address a w then (OldHandler, w\<lparr>g_in_handler := False\<rparr>)
        else let w = w\<lparr>ctx := (ctx w)\<lparr>pending_fault_addr := a, fault_handled := False\<rparr>\<rparr>;
                 (ok, w) = sys_call w; fd = fault_eventfd (ctx w)
          in (Spinning, if ok then w\<lparr>sent := (sent w)(fd := sent w fd @ put64 1)\<rparr> else w))"

definition sigsegv_spin :: "world \<Rightarrow> signal_action \<times> world" where
  "sigsegv_spin w =
     (if \<not> fault_handled (ctx w) \<and> running (ctx w) then (Spinning, w)
      else (Resumed, w\<lparr>g_in_handler := False\<rparr>))"

section \<open>Handling a fault\<close>

text \<open>The branches for a page the node owns.\<close>

definition enable_page :: "nat \<Rightarrow> world \<Rightarrow> int \<times> world" where
  "enable_page i w =
     (let (ok, w) = mprotect (local_addr (page_at i w)) DSM_PAGE_SIZE ProtRW w in
      if \<not> ok then (-1, w) else (0, update_page i (\<lambda>p. p\<lparr>pstate := DSM_PAGE_MODIFIED\<rparr>) w))"

definition set_pstate :: "nat \<Rightarrow> dsm_page_state \<Rightarrow> world \<Rightarrow> world" where
  "set_pstate i s w = update_page i (\<lambda>p. p\<lparr>pstate := s\<rparr>) w"

definition fetch_owner :: "nat \<Rightarrow> world \<Rightarrow> int" where
  "fetch_owner i w =
     (let own = sint (owner_id (page_at i w)) in
      if local_role (ctx w) = DSM_ROLE_MASTER
      then let actual = dsm_ownership_get (global_addr (page_at i w)) w in
           (if 0 < actual then actual else own)
      else own)"

definition owner_socket :: "int \<Rightarrow> world \<Rightarrow> int" where
  "owner_socket own w =
     (if local_role (ctx w) = DSM_ROLE_WORKER \<and> own = 1 then master_fd (ctx w)
      else (case dsm_node_table_get (word_of_int own) w of
              None \<Rightarrow> -1
            | Some k \<Rightarrow> if 0 \<le> tcp_fd (node_at k w) then tcp_fd (node_at k w) else -1))"

fun fault_wait :: "nat \<Rightarrow> world option list \<Rightarrow> world \<Rightarrow> (int \<times> world) option" where
  "fault_wait i es w =
     (if pstate (page_at i w) = DSM_PAGE_PENDING \<and> running (ctx w)
      then (case es of
              [] \<Rightarrow> None
            | None # es' \<Rightarrow> Some (-1, set_pstate i DSM_PAGE_INVALID w)
            | Some w' # es' \<Rightarrow> fault_wait i es' w')
      else Some (0, w))"

definition fetch_page :: "nat \<Rightarrow> world option list \<Rightarrow> world \<Rightarrow> (int \<times> world) option" where
  "fetch_page i es w =
     (let own = fetch_owner i w;
          req = put_page_request \<lparr>pr_global_addr = global_addr (page_at i w), pr_access_type = 0\<rparr>;
          (hdr, w) = dsm_create_header DSM_MSG_PAGE_REQUEST (word_of_int own) sizeof_page_request w;
          fd = owner_socket own w
      in if fd < 0 then Some (-1, set_pstate i DSM_PAGE_INVALID w)
         else let (r, w) = dsm_tcp_send_raw fd (put_header hdr) w in
           if r \<noteq> 0 then Some (-1, set_pstate i DSM_PAGE_INVALID w)
           else let (r, w) = dsm_tcp_send_raw fd req w in
             if r \<noteq> 0 then Some (-1, set_pstate i DSM_PAGE_INVALID w)
             else fault_wait i es w)"

definition dsm_page_fault_handle :: "u64 \<Rightarrow> world option list \<Rightarrow> world \<Rightarrow> (int \<times> world) option" where
  "dsm_page_fault_handle a es w =
     (case dsm_page_lookup_local (page_base a) w of
        None \<Rightarrow> Some (-1, w)
      | Some i \<Rightarrow>
          (let p = page_at i w; mine = (owner_id p = local_node_id (ctx w)) in
           if pstate p = DSM_PAGE_MODIFIED \<or> pstate p = DSM_PAGE_SHARED
           then Some (if mine then enable_page i w else (0, w))
           else if mine then Some (enable_page i w)
           else fetch_page i es (set_pstate i DSM_PAGE_PENDING w)))"

text \<open>One round of the handler thread after it has read the eventfd.\<close>

definition fault_thread_round :: "world option list \<Rightarrow> world \<Rightarrow> world option" where
  "fault_thread_round es w =
     (if pending_fault_addr (ctx w) = 0 then Some (w\<lparr>ctx := (ctx w)\<lparr>fault_handled := True\<rparr>\<rparr>)
      else (case dsm_page_fault_handle (pending_fault_addr (ctx w)) es w of
              None \<Rightarrow> None
            | Some (_, w) \<Rightarrow> Some (w\<lparr>ctx := (ctx w)\<lparr>pending_fault_addr := 0, fault_handled := True\<rparr>\<rparr>)))"

text \<open>
  The thread over what its reads of the eventfd bring: each with the state that the other threads have
  made of the process meanwhile, and for a counter that was read the waits of the fault it is about. At
  the end of the list the thread still reads; the result is \<open>None\<close> while it waits for a page.
\<close>

datatype eventfd_read = CounterRead world "world option list" | ReadAgain world | ReadFailed world

fun fault_handler_thread_func :: "eventfd_read list \<Rightarrow> world \<Rightarrow> world option" where
  "fault_handler_thread_func [] w = Some w"
| "fault_handler_thread_func (r # rs) w =
     (if \<not> (g_fault_running w \<and> running (ctx w)) then Some w
      else case r of
        ReadAgain w' \<Rightarrow> fault_handler_thread_func rs w'
      | ReadFailed w' \<Rightarrow> if \<not> running (ctx w') then Some w' else fault_handler_thread_func rs w'
      | CounterRead w' es \<Rightarrow>
          (case fault_thread_round es w' of None \<Rightarrow> None | Some w' \<Rightarrow> fault_handler_thread_func rs w'))"

section \<open>Starting and stopping\<close>

text \<open>Only the signal disposition of the process changes, which the model does not hold.\<close>

definition dsm_pagefault_init :: "world \<Rightarrow> int \<times> world" where
  "dsm_pagefault_init w = (let (ok, w) = sys_call w in (if ok then 0 else -1, w))"

definition dsm_pagefault_shutdown :: "world \<Rightarrow> world" where
  "dsm_pagefault_shutdown w = w"

definition dsm_pagefault_start_handler :: "world \<Rightarrow> int \<times> world" where
  "dsm_pagefault_start_handler w =
     (if g_fault_running w then (0, w)
      else let w = w\<lparr>g_fault_running := True, ctx := (ctx w)\<lparr>fault_running := True\<rparr>\<rparr>; (ok, w) = sys_call w in
        if ok then (0, w)
        else (-1, w\<lparr>g_fault_running := False, ctx := (ctx w)\<lparr>fault_running := False\<rparr>\<rparr>))"

definition dsm_pagefault_stop_handler :: "world \<Rightarrow> world" where
  "dsm_pagefault_stop_handler w =
     (if \<not> g_fault_running w then w
      else let w = w\<lparr>g_fault_running := False, ctx := (ctx w)\<lparr>fault_running := False\<rparr>\<rparr>;
               (ok, w) = sys_call w; fd = fault_eventfd (ctx w)
        in if ok then w\<lparr>sent := (sent w)(fd := sent w fd @ put64 1)\<rparr> else w)"

section \<open>Facts\<close>

lemma set_pstate_facts [simp]:
  "vm (set_pstate i s w) = vm w" "mem (set_pstate i s w) = mem w"
  "page_list (set_pstate i s w) = (page_list w)[i := (page_at i w)\<lparr>pstate := s\<rparr>]"
  "has_pages (set_pstate i s w) = has_pages w" "sent (set_pstate i s w) = sent w"
  "g_ownership_table (set_pstate i s w) = g_ownership_table w"
  by (simp_all add: set_pstate_def)

lemma set_pstate_ctx [simp]:
  "local_role (ctx (set_pstate i s w)) = local_role (ctx w)"
  "local_node_id (ctx (set_pstate i s w)) = local_node_id (ctx w)"
  "master_fd (ctx (set_pstate i s w)) = master_fd (ctx w)"
  "node_table (ctx (set_pstate i s w)) = node_table (ctx w)"
  "seq_num (ctx (set_pstate i s w)) = seq_num (ctx w)"
  "running (ctx (set_pstate i s w)) = running (ctx w)"
  "send_script (set_pstate i s w) = send_script w" "res_script (set_pstate i s w) = res_script w"
  "wakes (set_pstate i s w) = wakes w"
  by (simp_all add: set_pstate_def update_page_def put_pages_def split: option.splits)

lemma lookup_local_bound: "dsm_page_lookup_local a w = Some i \<Longrightarrow> i < length (page_list w)"
  using by_local.lookup_SomeD [of w a i]
  by (cases "has_pages w") (auto simp: has_pages_def dsm_page_lookup_local_def)

lemma owner_socket_frame:
  "node_table (ctx w') = node_table (ctx w) \<Longrightarrow> local_role (ctx w') = local_role (ctx w) \<Longrightarrow>
   master_fd (ctx w') = master_fd (ctx w) \<Longrightarrow> owner_socket k w' = owner_socket k w"
  by (simp only: owner_socket_def node_get_frame [of w' w])

text \<open>
  A wait for a page ends with the page no longer pending or the process shutting down, and success;
  or after a timeout with the page invalid, and failure.
\<close>

lemma fault_wait_result:
  "fault_wait i es w = Some (r, w') \<Longrightarrow>
     r = 0 \<and> (pstate (page_at i w') \<noteq> DSM_PAGE_PENDING \<or> \<not> running (ctx w')) \<or>
     r = -1 \<and> None \<in> set es \<and> (\<exists>v. w' = set_pstate i DSM_PAGE_INVALID v)"
proof (induction i es w rule: fault_wait.induct)
  case (1 i es w)
  show ?case
  proof (cases "pstate (page_at i w) = DSM_PAGE_PENDING \<and> running (ctx w)")
    case True
    then show ?thesis
      using 1 by (cases es) (auto simp: fault_wait.simps [of i es w] split: option.splits)
  next
    case False
    then show ?thesis
      using 1(2) by (auto simp: fault_wait.simps [of i es w])
  qed
qed

declare fault_wait.simps [simp del]

text \<open>The faulting page: registered under its aligned local address, and mapped.\<close>

definition fault_page :: "u64 \<Rightarrow> nat \<Rightarrow> world \<Rightarrow> bool" where
  "fault_page a i w \<longleftrightarrow> dsm_page_lookup_local a w = Some i \<and> vm w (local_addr (page_at i w)) \<noteq> Unmapped"

lemma lookup_local_base [simp]: "dsm_page_lookup_local (page_base a) w = dsm_page_lookup_local a w"
  by (simp only: dsm_page_lookup_local_def page_base_idem)

lemma fault_page_addr:
  assumes "fault_page a i w"
  shows "local_addr (page_at i w) = page_base a" "i < length (page_list w)"
  using assms by_local.lookup_SomeD [of w a i] lookup_local_bound [of a w i]
  by (cases "has_pages w";
      auto simp: fault_page_def page_at_def has_pages_def dsm_page_lookup_local_def)+

lemma finish_install_node [simp]:
  "local_node_id (ctx (finish_install i ver w)) = local_node_id (ctx w)"
  "has_pages (finish_install i ver w) = has_pages w"
  by (simp_all add: finish_install_def Let_def) (simp add: has_pages_def update_page_def put_pages_def split: option.splits)

text \<open>The state in which a fault waits for its page: the page pending, the request sent.\<close>

definition page_requested :: "nat \<Rightarrow> world \<Rightarrow> world" where
  "page_requested i w =
     (let own = fetch_owner i w; fd = owner_socket own w;
          (hdr, v) = dsm_create_header DSM_MSG_PAGE_REQUEST (word_of_int own) sizeof_page_request
                       (set_pstate i DSM_PAGE_PENDING w)
      in v\<lparr>sent := (sent w)(fd := sent w fd @ put_header hdr @
           put_page_request \<lparr>pr_global_addr = global_addr (page_at i w), pr_access_type = 0\<rparr>)\<rparr>)"

lemma pages_after_sending [simp]:
  "page_list (w\<lparr>sent := s\<rparr>) = page_list w" "has_pages (w\<lparr>sent := s\<rparr>) = has_pages w"
  "page_list (snd (dsm_create_header ty d n w)) = page_list w"
  "has_pages (snd (dsm_create_header ty d n w)) = has_pages w"
  by (simp_all add: page_list_def has_pages_def)

lemma page_requested_frame:
  "vm (page_requested i w) = vm w" "mem (page_requested i w) = mem w" "wakes (page_requested i w) = wakes w"
  "res_script (page_requested i w) = res_script w" "has_pages (page_requested i w) = has_pages w"
  "page_list (page_requested i w) = (page_list w)[i := (page_at i w)\<lparr>pstate := DSM_PAGE_PENDING\<rparr>]"
  "running (ctx (page_requested i w)) = running (ctx w)"
  by (simp_all add: page_requested_def Let_def case_prod_beta)

lemma fault_sends_request:
  assumes "fault_page a i w" "owner_id (page_at i w) \<noteq> local_node_id (ctx w)"
    and "pstate (page_at i w) = DSM_PAGE_INVALID \<or> pstate (page_at i w) = DSM_PAGE_PENDING"
    and "fd = owner_socket (fetch_owner i w) w" "0 \<le> fd" "send_script w fd = []"
  shows "dsm_page_fault_handle a es w = fault_wait i es (page_requested i w)"
    and "pstate (page_at i (page_requested i w)) = DSM_PAGE_PENDING"
    and "sent (page_requested i w) fd = sent w fd @ put_header \<lparr>magic = DSM_MAGIC,
        msg_type = msg_code DSM_MSG_PAGE_REQUEST, src_node = local_node_id (ctx w),
        dst_node = word_of_int (fetch_owner i w), hdr_seq_num = seq_num (ctx w), payload_len = 12\<rparr> @
      put_page_request \<lparr>pr_global_addr = global_addr (page_at i w), pr_access_type = 0\<rparr>"
proof -
  let ?p = "set_pstate i DSM_PAGE_PENDING w" and ?own = "fetch_owner i w"
  have i: "i < length (page_list w)"
    using assms(1) by (rule fault_page_addr)
  have at: "page_at i ?p = (page_at i w)\<lparr>pstate := DSM_PAGE_PENDING\<rparr>"
    using i by (simp add: page_at_def)
  have get: "dsm_ownership_get x ?p = dsm_ownership_get x w" for x
    by (simp add: dsm_ownership_get_def)
  have fields: "global_addr (page_at i ?p) = global_addr (page_at i w)" "owner_id (page_at i ?p) = owner_id (page_at i w)"
    by (simp_all add: at)
  have own: "fetch_owner i ?p = ?own"
    by (simp only: fetch_owner_def get fields set_pstate_ctx)
  let ?h = "dsm_create_header DSM_MSG_PAGE_REQUEST (word_of_int ?own) sizeof_page_request ?p"
  have sock: "owner_socket ?own (snd ?h) = fd"
    unfolding assms(4) by (rule owner_socket_frame) simp_all
  have "fetch_page i es ?p = fault_wait i es (page_requested i w)"
    using assms(5,6) by (simp add: fetch_page_def page_requested_def case_prod_beta Let_def own sock at
        send_raw_clear assms(4) [symmetric] del: header_fields)
  then show "dsm_page_fault_handle a es w = fault_wait i es (page_requested i w)"
    using assms(1-3) by (auto simp: dsm_page_fault_handle_def fault_page_def Let_def)
  show "pstate (page_at i (page_requested i w)) = DSM_PAGE_PENDING"
    using i by (simp add: page_at_def page_requested_frame)
  show "sent (page_requested i w) fd = sent w fd @ put_header \<lparr>magic = DSM_MAGIC,
        msg_type = msg_code DSM_MSG_PAGE_REQUEST, src_node = local_node_id (ctx w),
        dst_node = word_of_int (fetch_owner i w), hdr_seq_num = seq_num (ctx w), payload_len = 12\<rparr> @
      put_page_request \<lparr>pr_global_addr = global_addr (page_at i w), pr_access_type = 0\<rparr>"
    by (simp add: page_requested_def case_prod_beta Let_def assms(4) [symmetric] header_eq)
qed

text \<open>The page is still one that can be filled.\<close>

lemma page_requested_target:
  assumes "fault_page a i w" "install_target ga i w"
  shows "install_target ga i (page_requested i w)"
    and "page_at i (page_requested i w) = (page_at i w)\<lparr>pstate := DSM_PAGE_PENDING\<rparr>"
proof -
  have i: "i < length (page_list w)"
    using assms(1) by (rule fault_page_addr)
  then show at: "page_at i (page_requested i w) = (page_at i w)\<lparr>pstate := DSM_PAGE_PENDING\<rparr>"
    by (simp add: page_at_def page_requested_frame)
  have has: "has_pages w"
    using assms(2) page_lookup_has by (auto simp: install_target_def)
  have "dsm_page_lookup ga (page_requested i w) = dsm_page_lookup ga w"
    by (rule by_global.lookup_update [OF has _ page_requested_frame(6) i]) (simp_all add: page_requested_frame has page_at_def)
  then show "install_target ga i (page_requested i w)"
    using assms(2) by (simp add: install_target_def at page_requested_frame)
qed

text \<open>When the page has arrived, the wait is over.\<close>

lemma fault_wait_arrived:
  assumes "pstate (page_at i w) = DSM_PAGE_PENDING" "running (ctx w)" "pstate (page_at i w') \<noteq> DSM_PAGE_PENDING"
  shows "fault_wait i (Some w' # es) w = Some (0, w')"
  using assms by (simp add: fault_wait.simps [of i _ w] fault_wait.simps [of i es w'])

section \<open>Properties\<close>

text \<open>
  A fault on a page the node owns: whatever the state of the page, it becomes \<^verbatim>\<open>MODIFIED\<close>, its memory
  and only its memory becomes writable, and the result is 0, so the faulting access succeeds when it is
  retried.
\<close>

lemma fault_on_owned_page:
  assumes "fault_page a i w" "owner_id (page_at i w) = local_node_id (ctx w)" "res_script w = []"
  shows "\<exists>w'. dsm_page_fault_handle a es w = Some (0, w') \<and> vm w' = (vm w)(page_base a := ProtRW) \<and>
    page_list w' = (page_list w)[i := (page_at i w)\<lparr>pstate := DSM_PAGE_MODIFIED\<rparr>] \<and> mem w' = mem w"
proof -
  note addr = fault_page_addr [OF assms(1)]
  have "mprotect (page_base a) DSM_PAGE_SIZE ProtRW w = (True, w\<lparr>vm := (vm w)(page_base a := ProtRW)\<rparr>)"
    using assms(1,3) addr by (intro mprotect_page) (simp_all add: fault_page_def)
  then have "enable_page i w = (0, update_page i (\<lambda>p. p\<lparr>pstate := DSM_PAGE_MODIFIED\<rparr>)
      (w\<lparr>vm := (vm w)(page_base a := ProtRW)\<rparr>))"
    by (simp add: enable_page_def addr)
  moreover have "page_at i (w\<lparr>vm := v\<rparr>) = page_at i w" for v
    by (simp add: page_at_def)
  ultimately show ?thesis
    using assms(1,2) by (simp add: dsm_page_fault_handle_def fault_page_def Let_def)
qed

text \<open>
  A fault on a remote page that is not valid: the page becomes pending and one page request for
  its global address goes to the owner's socket; the call then waits, and when it ends either the page
  is no longer pending (or the process is shutting down) and the result is 0, or there was a timeout,
  the result is -1 and the page is invalid again.
\<close>

lemma fault_fetches_remote_page:
  assumes "fault_page a i w" "owner_id (page_at i w) \<noteq> local_node_id (ctx w)"
    and "pstate (page_at i w) = DSM_PAGE_INVALID \<or> pstate (page_at i w) = DSM_PAGE_PENDING"
    and "fd = owner_socket (fetch_owner i w) w" "0 \<le> fd" "send_script w fd = []"
  shows "\<exists>v. dsm_page_fault_handle a es w = fault_wait i es v \<and> pstate (page_at i v) = DSM_PAGE_PENDING \<and>
    sent v fd = sent w fd @ put_header \<lparr>magic = DSM_MAGIC, msg_type = msg_code DSM_MSG_PAGE_REQUEST,
        src_node = local_node_id (ctx w), dst_node = word_of_int (fetch_owner i w),
        hdr_seq_num = seq_num (ctx w), payload_len = 12\<rparr> @
      put_page_request \<lparr>pr_global_addr = global_addr (page_at i w), pr_access_type = 0\<rparr> \<and>
    (\<forall>r w'. fault_wait i es v = Some (r, w') \<longrightarrow>
      r = 0 \<and> (pstate (page_at i w') \<noteq> DSM_PAGE_PENDING \<or> \<not> running (ctx w')) \<or>
      r = -1 \<and> None \<in> set es \<and> (\<exists>u. w' = set_pstate i DSM_PAGE_INVALID u))"
  using fault_sends_request [OF assms] fault_wait_result [of i es "page_requested i w"]
  by (intro exI [of _ "page_requested i w"]) blast

text \<open>
  C31. A write to a shared page of another node makes no progress: once the page has been fetched it is
  mapped read-only, and handling the write fault that follows returns 0 without changing anything, so
  the instruction is retried and faults again, for ever.
\<close>

theorem write_fault_no_progress:
  assumes "install_target ga i w" "res_script w = []" "n \<le> DSM_PAGE_SIZE" "n \<le> length data"
    and "owner_id (page_at i w) \<noteq> local_node_id (ctx w)"
    and "dsm_page_lookup_local a w = Some i"
  shows "\<exists>w'. dsm_page_install ga data n ver w = Inr (0, w') \<and>
    dsm_page_fault_handle a es w' = Some (0, w') \<and> vm w' (page_base a) = ProtRead"
proof -
  obtain w' where w': "dsm_page_install ga data n ver w = Inr (0, w')"
    "vm w' = (vm w)(local_addr (page_at i w) := ProtRead)"
    "page_list w' = (page_list w)[i := (page_at i w)\<lparr>pstate := DSM_PAGE_SHARED, version := ver\<rparr>]"
    using page_install_correct [OF assms(1-4)] by blast
  have i: "i < length (page_list w)" and la: "local_addr (page_at i w) = page_base a"
    using assms(6) by_local.lookup_SomeD [of w a i] lookup_local_bound [of a w i]
    by (cases "has_pages w"; auto simp: page_at_def has_pages_def dsm_page_lookup_local_def)+
  have at: "page_at i w' = (page_at i w)\<lparr>pstate := DSM_PAGE_SHARED, version := ver\<rparr>"
    using i by (simp add: page_at_def w'(3))
  have ctx: "local_node_id (ctx w') = local_node_id (ctx w)" "has_pages w' = has_pages w"
    using w'(1) page_install_eq [OF assms(1,2,4), of ver]
    by (auto simp: Let_def has_pages_def [of "w\<lparr>vm := v, mem := m\<rparr>" for v m] has_pages_def [of w] split: if_splits)
  have has: "has_pages w"
    using assms(6) by (cases "has_pages w") (simp_all add: has_pages_def dsm_page_lookup_local_def)
  have "dsm_page_lookup_local a w' = dsm_page_lookup_local a w"
    by (rule by_local.lookup_update [OF has _ w'(3) i]) (simp_all add: ctx has page_at_def)
  then show ?thesis
    using w'(1,2) assms(5,6) by (intro exI [of _ w']) (simp add: dsm_page_fault_handle_def Let_def at ctx la)
qed

theorem write_fault_no_progress_witness:
  "\<exists>w'. dsm_page_install 0x2000000 (replicate 4096 0) 4096 2 (demo_reader\<lparr>ctx := (ctx demo_reader)\<lparr>local_node_id := 2\<rparr>\<rparr>)
       = Inr (0, w') \<and> dsm_page_fault_handle 0x9000010 [] w' = Some (0, w')"
proof -
  let ?w = "demo_reader\<lparr>ctx := (ctx demo_reader)\<lparr>local_node_id := 2\<rparr>\<rparr>"
  have base: "page_base 0x9000010 = 0x9000000"
    by code_simp
  have pl: "page_list ?w = [demo_page 0x9000000 1 DSM_PAGE_PENDING]" "has_pages ?w"
    by (simp_all add: page_list_def has_pages_def demo_reader_def put_pages_def)
  then have "dsm_page_lookup_local 0x9000010 ?w = Some 0"
    using base by (subst by_local.lookup_Some_iff) (simp_all add: demo_page_def)
  moreover have "page_at 0 ?w = demo_page 0x9000000 1 DSM_PAGE_PENDING"
    using pl by (simp add: page_at_def)
  moreover have "dsm_page_lookup 0x2000000 ?w = Some 0"
    using page_lookup_frame [of ?w demo_reader] pl by (simp add: page_list_def has_pages_def)
  ultimately show ?thesis
    using write_fault_no_progress [of "0x2000000" 0 ?w 4096 "replicate 4096 0" "0x9000010" 2 "[]"]
    by (auto simp: install_target_def demo_page_def)
qed

text \<open>
  C37. A fault handed to the handler thread: a first fault on a region's address records the address,
  clears \<^verbatim>\<open>fault_handled\<close> and spins; a second thread that faults meanwhile gets the default action, on
  whatever address, and the process dies; and once the handler thread, running, has read the eventfd and
  gone round, even by failing, the spinning thread resumes and the handler is free again.
\<close>

theorem signal_handler_protocol:
  assumes "\<not> g_in_handler w" "dsm_is_dsm_address a w"
  shows "case sigsegv_handler a w of (act, w1) \<Rightarrow> act = Spinning \<and> pending_fault_addr (ctx w1) = a \<and>
    \<not> fault_handled (ctx w1) \<and> fst (sigsegv_handler b w1) = DefaultAction \<and>
    (\<forall>v es w2. g_fault_running v \<longrightarrow> running (ctx v) \<longrightarrow>
        fault_handler_thread_func [CounterRead w1 es] v = Some w2 \<longrightarrow>
      (case sigsegv_spin w2 of (act, w3) \<Rightarrow> act = Resumed \<and> \<not> g_in_handler w3))"
proof -
  have dsm: "dsm_is_dsm_address a (w\<lparr>g_in_handler := True\<rparr>)"
    using assms(2) by (simp add: dsm_is_dsm_address_def)
  have script: "g_in_handler (snd (sys_call v)) = g_in_handler v" for v
    by (simp add: sys_call_def split: list.splits)
  have "fault_handled (ctx w2)" if "fault_thread_round es w1 = Some w2" for es w1 w2
    using that by (auto simp: fault_thread_round_def split: if_splits option.splits)
  then have "fault_handled (ctx w2)"
    if "g_fault_running v" "running (ctx v)" "fault_handler_thread_func [CounterRead w1 es] v = Some w2" for v es w1 w2
    using that by (auto split: option.splits)
  then show ?thesis
    using assms(1) dsm script
    by (auto simp: sigsegv_handler_def case_prod_beta Let_def sigsegv_spin_def simp del: fault_handler_thread_func.simps)
qed

theorem signal_handler_protocol_witness:
  "fst (sigsegv_handler 0x7000000 demo_memory) = Spinning \<and>
   fst (sigsegv_handler 0x7000000 (snd (sigsegv_handler 0x7000000 demo_memory))) = DefaultAction"
proof -
  have "dsm_is_dsm_address 0x7000000 demo_memory" "\<not> g_in_handler demo_memory"
    by (simp_all add: dsm_is_dsm_address_def demo_region_def local_covers_def)
       (simp add: demo_memory_def boot_world_def)
  then show ?thesis
    using signal_handler_protocol [of demo_memory "0x7000000" "0x7000000"] by (simp add: case_prod_beta)
qed

end
