(* ===== verification/DsmDispatch.thy ===== *)
theory DsmDispatch
  imports DsmPageFault DsmSync
begin

text \<open>
  The receiving side of \<^verbatim>\<open>src/dsm_tcp.c\<close>: what each message does, new connections, and cutting the
  byte stream of a connection into messages. A payload is the receive buffer of the server thread,
  whose first \<^verbatim>\<open>payload_len\<close> bytes are the message's and the rest left over from earlier ones, or
  \<open>None\<close> for the \<^verbatim>\<open>NULL\<close> of a message without payload. What a handler does to \<^verbatim>\<open>errno\<close> is not followed:
  the receiving loop goes on with the value it had.
\<close>

section \<open>Messages\<close>

abbreviation (input) TCP_BUFFER_SIZE :: nat where "TCP_BUFFER_SIZE \<equiv> 65536"

definition deref :: "u8 list option \<Rightarrow> (u8 list \<Rightarrow> crash + world) \<Rightarrow> crash + world" where
  "deref p f = (case p of None \<Rightarrow> Inl NullDeref | Some bs \<Rightarrow> f bs)"

definition drop_result :: "crash + ('a \<times> world) \<Rightarrow> crash + world" where
  "drop_result r = (case r of Inl e \<Rightarrow> Inl e | Inr (_, w) \<Rightarrow> Inr w)"

definition handle_alloc_request :: "u32 \<Rightarrow> u8 list \<Rightarrow> world \<Rightarrow> world" where
  "handle_alloc_request src bs w =
     (let req = get_alloc_request bs; addr = next_global_addr (ctx w);
          aligned = (ar_size req + 4095) div 4096 * 4096;
          w = w\<lparr>ctx := (ctx w)\<lparr>next_global_addr := addr + aligned\<rparr>\<rparr>;
          w = snd (dsm_ownership_register addr aligned src w);
          resp = put_alloc_response \<lparr>as_global_addr = addr, as_size = aligned, as_owner_id = src,
                                     as_request_id = ar_request_id req\<rparr>;
          (hdr, w) = dsm_create_header DSM_MSG_ALLOC_RESPONSE src sizeof_alloc_response w
      in snd (dsm_tcp_send src hdr (Some resp) w))"

text \<open>
  The number of the lock is not checked: an index beyond the array is the crash \<open>OutOfBounds\<close>, after which
  the model says nothing; the machine would write the fields of a lock over what follows the array.
\<close>

definition handle_lock_grant :: "u32 \<Rightarrow> world \<Rightarrow> crash + world" where
  "handle_lock_grant lid w =
     (if length (locks (ctx w)) \<le> unat lid then Inl OutOfBounds
      else Inr (wake (SignalLock (unat lid))
             (put_lock lid (lock_granted (local_node_id (ctx w)) (lock_at lid w)) w)))"

definition handle_heartbeat :: "u32 \<Rightarrow> world \<Rightarrow> world" where
  "handle_heartbeat src w =
     (let w = dsm_node_table_heartbeat src w;
          (hdr, w) = dsm_create_header DSM_MSG_HEARTBEAT_ACK src 0 w
      in case dsm_node_table_get src w of
           None \<Rightarrow> w
         | Some i \<Rightarrow> if 0 \<le> tcp_fd (node_at i w)
                    then snd (dsm_tcp_send_raw (tcp_fd (node_at i w)) (put_header hdr) w) else w)"

definition dsm_handle_message :: "dsm_msg_header \<Rightarrow> u8 list option \<Rightarrow> world \<Rightarrow> crash + world" where
  "dsm_handle_message h payload w =
     (let len = unat (payload_len h); src = src_node h; master = (local_role (ctx w) = DSM_ROLE_MASTER) in
      case msg_type_of (msg_type h) of
        Some DSM_MSG_JOIN_RESPONSE \<Rightarrow>
          if 4 \<le> len
          then deref payload (\<lambda>bs. Inr (w\<lparr>ctx := (ctx w)\<lparr>local_node_id := get32 bs\<rparr>\<rparr>)) else Inr w
      | Some DSM_MSG_NODE_TABLE \<Rightarrow>
          Inr (snd (dsm_node_table_deserialize (case payload of None \<Rightarrow> [] | Some bs \<Rightarrow> bs) len w))
      | Some DSM_MSG_NEW_NODE \<Rightarrow> Inr w
      | Some DSM_MSG_NODE_LEFT \<Rightarrow>
          if 4 \<le> len then deref payload (\<lambda>bs. Inr (snd (dsm_node_table_remove (get32 bs) w))) else Inr w
      | Some DSM_MSG_PAGE_REQUEST \<Rightarrow>
          if sizeof_page_request \<le> len
          then deref payload (\<lambda>bs. drop_result (dsm_page_send src (pr_global_addr (get_page_request bs)) w))
          else Inr w
      | Some DSM_MSG_PAGE_DATA \<Rightarrow>
          if sizeof_page_data \<le> len
          then deref payload (\<lambda>bs. let d = get_page_data bs in drop_result
                 (dsm_page_install (pd_global_addr d) (drop sizeof_page_data bs) (unat (pd_size d))
                    (pd_version d) w))
          else Inr w
      | Some DSM_MSG_ALLOC_REQUEST \<Rightarrow>
          if master then deref payload (\<lambda>bs. Inr (handle_alloc_request src bs w)) else Inr w
      | Some DSM_MSG_ALLOC_RESPONSE \<Rightarrow> Inr w
      | Some DSM_MSG_LOCK_REQUEST \<Rightarrow>
          if master \<and> sizeof_lock \<le> len
          then deref payload (\<lambda>bs. Inr (snd (dsm_sync_handle_lock_request src (get32 bs) w))) else Inr w
      | Some DSM_MSG_LOCK_GRANT \<Rightarrow>
          if sizeof_lock \<le> len then deref payload (\<lambda>bs. handle_lock_grant (get32 bs) w) else Inr w
      | Some DSM_MSG_LOCK_RELEASE \<Rightarrow>
          if master \<and> sizeof_lock \<le> len
          then deref payload (\<lambda>bs. Inr (snd (dsm_sync_handle_lock_release src (get32 bs) w))) else Inr w
      | Some DSM_MSG_BARRIER_ENTER \<Rightarrow> if master then dsm_sync_handle_barrier_enter src w else Inr w
      | Some DSM_MSG_BARRIER_RELEASE \<Rightarrow> Inr (wake BroadcastBarrier w)
      | Some DSM_MSG_HEARTBEAT \<Rightarrow> Inr (handle_heartbeat src w)
      | Some DSM_MSG_HEARTBEAT_ACK \<Rightarrow> Inr (dsm_node_table_heartbeat src w)
      | Some DSM_MSG_SHUTDOWN \<Rightarrow> Inr (snd (dsm_node_table_remove src w))
      | _ \<Rightarrow> Inr w)"

section \<open>Connections\<close>

definition handle_new_connection :: "int \<Rightarrow> world \<Rightarrow> world" where
  "handle_new_connection fd w =
     (let (ok, w) = sys_call w in
      if \<not> ok then close_fd fd w
      else if local_role (ctx w) = DSM_ROLE_WORKER \<and> master_fd (ctx w) < 0
      then w\<lparr>ctx := (ctx w)\<lparr>master_fd := fd\<rparr>\<rparr> else w)"

text \<open>
  The loop that reads a payload, over the results of the \<^verbatim>\<open>recv\<close> calls. \<open>again\<close>: whether \<^verbatim>\<open>errno\<close> is
  \<^verbatim>\<open>EAGAIN\<close>; a call that returns 0 does not set it, and the code looks at it all the same. Results: the
  payload or \<open>None\<close> for giving up, with the rest of the events and \<open>again\<close>; no result when the loop is
  still running at the end of the events.
\<close>

fun recv_payload ::
  "recv_event list \<Rightarrow> bool \<Rightarrow> nat \<Rightarrow> u8 list \<Rightarrow> (u8 list option \<times> recv_event list \<times> bool) option" where
  "recv_payload es again 0 got = Some (Some got, es, again)"
| "recv_payload [] again (Suc n) got = None"
| "recv_payload (Received bs # es) again (Suc n) got =
     (if bs = [] then (if again then recv_payload es again (Suc n) got else Some (None, es, again))
      else if Suc n < length bs
      then Some (Some (got @ take (Suc n) bs), Received (drop (Suc n) bs) # es, again)
      else recv_payload es again (Suc n - length bs) (got @ bs))"
| "recv_payload (RecvClosed # es) again (Suc n) got =
     (if again then recv_payload es again (Suc n) got else Some (None, es, again))"
| "recv_payload (RecvAgain # es) again (Suc n) got = recv_payload es True (Suc n) got"
| "recv_payload (RecvError # es) again (Suc n) got = Some (None, es, False)"

fun stream_size :: "recv_event list \<Rightarrow> nat" where
  "stream_size [] = 0"
| "stream_size (Received bs # es) = length bs + stream_size es"
| "stream_size (_ # es) = stream_size es"

lemma recv_payload_size:
  "recv_payload es again n got = Some (p, es', again') \<Longrightarrow> stream_size es' \<le> stream_size es"
  by (induction es again n got arbitrary: p es' again' rule: recv_payload.induct)
     (fastforce split: if_splits)+

text \<open>
  \<^verbatim>\<open>handle_client_data\<close> on connection \<open>fd\<close>: one message per round, until the peeked header is short,
  invalid or missing. \<open>buf\<close> is the static receive buffer. Results: the rest of the events, the buffer,
  \<^verbatim>\<open>errno\<close> and the world; \<open>None\<close> while the payload loop is still running.
\<close>

definition after_header :: "u8 list \<Rightarrow> recv_event list \<Rightarrow> recv_event list" where
  "after_header bs es =
     (if length bs = sizeof_header then es else Received (drop sizeof_header bs) # es)"

function handle_client_data ::
  "int \<Rightarrow> recv_event list \<Rightarrow> u8 list \<Rightarrow> bool \<Rightarrow> world \<Rightarrow>
     (crash + (recv_event list \<times> u8 list \<times> bool \<times> world)) option" where
  "handle_client_data fd es buf again w =
     (case es of
        [] \<Rightarrow> Some (Inr (es, buf, True, w))
      | RecvAgain # es' \<Rightarrow> Some (Inr (es', buf, True, w))
      | RecvClosed # es' \<Rightarrow> Some (Inr (es', buf, again, close_fd fd w))
      | RecvError # es' \<Rightarrow> Some (Inr (es', buf, False, close_fd fd w))
      | Received bs # es' \<Rightarrow>
          if bs = [] then Some (Inr (es', buf, again, close_fd fd w))
          else if length bs < sizeof_header then Some (Inr (es, buf, again, w))
          else (let h = get_header bs; rest = after_header bs es' in
            if magic h \<noteq> DSM_MAGIC then Some (Inr (rest, buf, again, w))
            else if payload_len h = 0
            then (case dsm_handle_message h None w of
                    Inl e \<Rightarrow> Some (Inl e) | Inr w \<Rightarrow> handle_client_data fd rest buf again w)
            else if TCP_BUFFER_SIZE < unat (payload_len h) then Some (Inr (rest, buf, again, w))
            else (case recv_payload rest again (unat (payload_len h)) [] of
                    None \<Rightarrow> None
                  | Some (None, rest, again) \<Rightarrow> Some (Inr (rest, buf, again, w))
                  | Some (Some p, rest, again) \<Rightarrow>
                      (let buf = p @ drop (length p) buf in
                       case dsm_handle_message h (Some buf) w of
                         Inl e \<Rightarrow> Some (Inl e)
                       | Inr w \<Rightarrow> handle_client_data fd rest buf again w))))"
  by pat_completeness auto
termination
proof (relation "measure (\<lambda>(fd, es, buf, again, w). stream_size es)", goal_cases)
  case 1
  show ?case by simp
qed (auto simp: after_header_def dest!: recv_payload_size split: if_splits)

declare handle_client_data.simps [simp del]

section \<open>The server thread\<close>

text \<open>
  A descriptor \<^verbatim>\<open>epoll_wait\<close> reports: whether one of the events the code looks for is set, what
  \<^verbatim>\<open>accept\<close> returns if it is the listening socket, and for a connection the data there and whether
  \<^verbatim>\<open>errno\<close> is \<^verbatim>\<open>EAGAIN\<close> from some earlier call. A round is interrupted, fails, or brings a list of them.
\<close>

record epoll_item =
  ei_fd :: int
  ei_wanted :: bool
  ei_accept :: int
  ei_data :: "recv_event list"
  ei_again :: bool

datatype epoll_round = EpollInterrupted | EpollFailed | EpollReady "epoll_item list"

definition serve_item :: "epoll_item \<Rightarrow> u8 list \<Rightarrow> world \<Rightarrow> (crash + (u8 list \<times> world)) option" where
  "serve_item i buf w =
     (if ei_fd i = g_tcp_listen_fd w
      then Some (Inr (buf, if ei_accept i < 0 then w else handle_new_connection (ei_accept i) w))
      else if ei_wanted i
      then (case handle_client_data (ei_fd i) (ei_data i) buf (ei_again i) w of
              None \<Rightarrow> None
            | Some (Inl e) \<Rightarrow> Some (Inl e)
            | Some (Inr (_, buf, _, w)) \<Rightarrow> Some (Inr (buf, w)))
      else Some (Inr (buf, w)))"

fun serve_items :: "epoll_item list \<Rightarrow> u8 list \<Rightarrow> world \<Rightarrow> (crash + (u8 list \<times> world)) option" where
  "serve_items [] buf w = Some (Inr (buf, w))"
| "serve_items (i # is) buf w =
     (case serve_item i buf w of
        None \<Rightarrow> None
      | Some (Inl e) \<Rightarrow> Some (Inl e)
      | Some (Inr (buf, w)) \<Rightarrow> serve_items is buf w)"

text \<open>The thread over the rounds it gets; \<open>None\<close> when it is stuck in a payload.\<close>

fun tcp_server_thread_func ::
  "epoll_round list \<Rightarrow> u8 list \<Rightarrow> world \<Rightarrow> (crash + (u8 list \<times> world)) option" where
  "tcp_server_thread_func [] buf w = Some (Inr (buf, w))"
| "tcp_server_thread_func (r # rs) buf w =
     (if \<not> (g_tcp_running w \<and> running (ctx w)) then Some (Inr (buf, w))
      else case r of
        EpollInterrupted \<Rightarrow> tcp_server_thread_func rs buf w
      | EpollFailed \<Rightarrow> Some (Inr (buf, w))
      | EpollReady is \<Rightarrow>
          (case serve_items is buf w of
             None \<Rightarrow> None
           | Some (Inl e) \<Rightarrow> Some (Inl e)
           | Some (Inr (buf, w)) \<Rightarrow> tcp_server_thread_func rs buf w))"

section \<open>One round of the receiving loop\<close>

text \<open>A message as it travels: header, then payload.\<close>

definition message_ok :: "dsm_msg_header \<times> u8 list \<Rightarrow> bool" where
  "message_ok m \<longleftrightarrow> magic (fst m) = DSM_MAGIC \<and> length (snd m) = unat (payload_len (fst m)) \<and>
     length (snd m) \<le> TCP_BUFFER_SIZE"

definition encode_message :: "dsm_msg_header \<times> u8 list \<Rightarrow> u8 list" where
  "encode_message m = put_header (fst m) @ snd m"

text \<open>The payload the handler sees, and the receive buffer afterwards.\<close>

definition message_buffer :: "dsm_msg_header \<times> u8 list \<Rightarrow> u8 list \<Rightarrow> u8 list" where
  "message_buffer m buf = snd m @ drop (length (snd m)) buf"

definition handle_one :: "dsm_msg_header \<times> u8 list \<Rightarrow> u8 list \<Rightarrow> world \<Rightarrow> crash + world" where
  "handle_one m buf w =
     dsm_handle_message (fst m) (if snd m = [] then None else Some (message_buffer m buf)) w"

fun handle_all :: "(dsm_msg_header \<times> u8 list) list \<Rightarrow> u8 list \<Rightarrow> world \<Rightarrow> crash + (u8 list \<times> world)" where
  "handle_all [] buf w = Inr (buf, w)"
| "handle_all (m # ms) buf w =
     (case handle_one m buf w of Inl e \<Rightarrow> Inl e | Inr w' \<Rightarrow> handle_all ms (message_buffer m buf) w')"

lemma recv_payload_chunk:
  assumes "0 < n" "n \<le> length bs"
  shows "recv_payload (Received bs # es) again n got =
    Some (Some (got @ take n bs), (if length bs = n then es else Received (drop n bs) # es), again)"
proof -
  obtain k where k: "n = Suc k"
    using assms(1) by (cases n) auto
  show ?thesis
  proof (cases "Suc k < length bs")
    case True
    with k assms show ?thesis by auto
  next
    case False
    with k assms have "length bs = Suc k"
      by simp
    with k show ?thesis by auto
  qed
qed

text \<open>A well-formed message at the front of the bytes that are there is taken off and handled.\<close>

lemma client_round:
  assumes "message_ok m"
  shows "handle_client_data fd (Received (encode_message m @ rest) # es) buf again w =
    (case handle_one m buf w of
       Inl e \<Rightarrow> Some (Inl e)
     | Inr w' \<Rightarrow> handle_client_data fd (if rest = [] then es else Received rest # es)
                  (message_buffer m buf) again w')"
proof -
  obtain h p where m: "m = (h, p)"
    by (cases m)
  have ok: "magic h = DSM_MAGIC" "length p = unat (payload_len h)" "length p \<le> TCP_BUFFER_SIZE"
    using assms by (simp_all add: message_ok_def m)
  let ?bs = "put_header h @ p @ rest"
  have hdr: "get_header ?bs = h"
    by (rule header_wire_roundtrip)
  have after: "after_header ?bs es = (if p @ rest = [] then es else Received (p @ rest) # es)"
    by (simp add: after_header_def)
  show ?thesis
  proof (cases "p = []")
    case True
    with ok have "payload_len h = 0"
      by (simp add: unat_eq_zero)
    then have "handle_client_data fd (Received ?bs # es) buf again w =
        (case dsm_handle_message h None w of Inl e \<Rightarrow> Some (Inl e)
         | Inr w \<Rightarrow> handle_client_data fd (after_header ?bs es) buf again w)"
      using ok(1) hdr by (subst handle_client_data.simps) (simp add: Let_def)
    moreover have "after_header ?bs es = (if rest = [] then es else Received rest # es)"
      using True after by simp
    moreover have "message_buffer m buf = buf" "encode_message m @ rest = ?bs" "handle_one m buf w = dsm_handle_message h None w"
      using True by (simp_all add: message_buffer_def m encode_message_def handle_one_def)
    ultimately show ?thesis
      by (simp only:)
  next
    case False
    then have n: "0 < length p"
      by simp
    have n0: "payload_len h \<noteq> 0"
      using False ok(2) by auto
    have "recv_payload (after_header ?bs es) again (unat (payload_len h)) [] =
        Some (Some p, (if rest = [] then es else Received rest # es), again)"
      using recv_payload_chunk [OF n, of "p @ rest" es again "[]"] False after ok(2) by auto
    then have "handle_client_data fd (Received ?bs # es) buf again w =
        (case dsm_handle_message h (Some (p @ drop (length p) buf)) w of Inl e \<Rightarrow> Some (Inl e)
         | Inr w \<Rightarrow> handle_client_data fd (if rest = [] then es else Received rest # es)
             (p @ drop (length p) buf) again w)"
      using n n0 ok(1,3) ok(2) [symmetric] hdr by (subst handle_client_data.simps) (simp add: Let_def)
    moreover have "message_buffer m buf = p @ drop (length p) buf" "encode_message m @ rest = ?bs"
      "handle_one m buf w = dsm_handle_message h (Some (p @ drop (length p) buf)) w"
      using False by (simp_all add: message_buffer_def m encode_message_def handle_one_def)
    ultimately show ?thesis
      by (simp only:)
  qed
qed

text \<open>One message alone on a connection.\<close>

lemma client_single:
  assumes "message_ok m" "handle_one m buf w = Inr w'"
  shows "handle_client_data fd [Received (encode_message m)] buf again w =
    Some (Inr ([], message_buffer m buf, True, w'))"
  using client_round [OF assms(1), of fd "[]" "[]" buf again w] assms(2)
  by (simp add: handle_client_data.simps [of fd "[]"])

lemma client_message:
  assumes "magic h = DSM_MAGIC" "length p = unat (payload_len h)" "p \<noteq> []" "length p \<le> TCP_BUFFER_SIZE"
    and "dsm_handle_message h (Some (p @ drop (length p) buf)) w = Inr w'"
  shows "handle_client_data fd [Received (put_header h @ p)] buf again w =
    Some (Inr ([], p @ drop (length p) buf, True, w'))"
  using client_single [of "(h, p)" buf w w' fd again] assms
  by (simp add: message_ok_def handle_one_def message_buffer_def encode_message_def)

lemma client_two:
  assumes "message_ok m" "message_ok m'" "handle_one m buf w = Inr w'"
    and "handle_one m' (message_buffer m buf) w' = Inr w''"
  shows "handle_client_data fd [Received (encode_message m @ encode_message m')] buf again w =
    Some (Inr ([], message_buffer m' (message_buffer m buf), True, w''))"
  using client_round [OF assms(1), of fd "encode_message m'" "[]" buf again w] assms(3)
    client_single [OF assms(2,4), of fd again]
  by (simp add: encode_message_def)

text \<open>A message whose payload is one lock number.\<close>

lemma client_lock_message:
  assumes "magic h = DSM_MAGIC" "payload_len h = 4"
    and "\<And>bs. get32 bs = lid \<Longrightarrow> dsm_handle_message h (Some bs) w = Inr w'"
  shows "\<exists>buf'. handle_client_data fd [Received (put_header h @ put32 lid)] buf again w =
    Some (Inr ([], buf', True, w'))"
proof -
  have "put32 lid \<noteq> []"
    by (metis length_put_int(2) list.size(3) zero_neq_numeral)
  then show ?thesis
    using client_message [of h "put32 lid" buf w w' fd again] assms by simp
qed

section \<open>Single messages\<close>

lemma dispatch_type:
  assumes "msg_type h = msg_code t"
  shows "msg_type_of (msg_type h) = Some t"
  unfolding assms by (rule msg_type_of_code)

lemma dispatch_lock_request:
  assumes "msg_type h = msg_code DSM_MSG_LOCK_REQUEST" "payload_len h = 4"
  shows "dsm_handle_message h (Some bs) w =
    Inr (if local_role (ctx w) = DSM_ROLE_MASTER
         then snd (dsm_sync_handle_lock_request (src_node h) (get32 bs) w) else w)"
  unfolding dsm_handle_message_def Let_def dispatch_type [OF assms(1)]
  using assms(2) by (simp add: deref_def)

lemma dispatch_lock_release:
  assumes "msg_type h = msg_code DSM_MSG_LOCK_RELEASE" "payload_len h = 4"
  shows "dsm_handle_message h (Some bs) w =
    Inr (if local_role (ctx w) = DSM_ROLE_MASTER
         then snd (dsm_sync_handle_lock_release (src_node h) (get32 bs) w) else w)"
  unfolding dsm_handle_message_def Let_def dispatch_type [OF assms(1)]
  using assms(2) by (simp add: deref_def)

lemma dispatch_lock_grant:
  assumes "msg_type h = msg_code DSM_MSG_LOCK_GRANT" "payload_len h = 4"
  shows "dsm_handle_message h (Some bs) w = handle_lock_grant (get32 bs) w"
  unfolding dsm_handle_message_def Let_def dispatch_type [OF assms(1)]
  using assms(2) by (simp add: deref_def)

lemma dispatch_barrier_enter:
  assumes "msg_type h = msg_code DSM_MSG_BARRIER_ENTER"
  shows "dsm_handle_message h p w =
    (if local_role (ctx w) = DSM_ROLE_MASTER then dsm_sync_handle_barrier_enter (src_node h) w else Inr w)"
  unfolding dsm_handle_message_def Let_def dispatch_type [OF assms] by simp

lemma dispatch_barrier_release:
  assumes "msg_type h = msg_code DSM_MSG_BARRIER_RELEASE"
  shows "dsm_handle_message h p w = Inr (wake BroadcastBarrier w)"
  unfolding dsm_handle_message_def Let_def dispatch_type [OF assms] by simp

lemma dispatch_page_request:
  assumes "msg_type h = msg_code DSM_MSG_PAGE_REQUEST" "payload_len h = 12"
  shows "dsm_handle_message h (Some bs) w =
    drop_result (dsm_page_send (src_node h) (pr_global_addr (get_page_request bs)) w)"
  unfolding dsm_handle_message_def Let_def dispatch_type [OF assms(1)]
  using assms(2) by (simp add: deref_def)

lemma dispatch_page_data:
  assumes "msg_type h = msg_code DSM_MSG_PAGE_DATA" "payload_len h = 4116"
  shows "dsm_handle_message h (Some bs) w =
    drop_result (dsm_page_install (pd_global_addr (get_page_data bs)) (drop sizeof_page_data bs)
      (unat (pd_size (get_page_data bs))) (pd_version (get_page_data bs)) w)"
  unfolding dsm_handle_message_def Let_def dispatch_type [OF assms(1)]
  using assms(2) by (simp add: deref_def Let_def)

lemma dispatch_alloc_request:
  assumes "msg_type h = msg_code DSM_MSG_ALLOC_REQUEST" "local_role (ctx w) = DSM_ROLE_MASTER"
  shows "dsm_handle_message h p w =
    (case p of None \<Rightarrow> Inl NullDeref | Some bs \<Rightarrow> Inr (handle_alloc_request (src_node h) bs w))"
  unfolding dsm_handle_message_def Let_def dispatch_type [OF assms(1)]
  using assms(2) by (simp add: deref_def)

lemma dispatch_join_response:
  assumes "msg_type h = msg_code DSM_MSG_JOIN_RESPONSE" "payload_len h = 4"
  shows "dsm_handle_message h (Some bs) w = Inr (w\<lparr>ctx := (ctx w)\<lparr>local_node_id := get32 bs\<rparr>\<rparr>)"
  unfolding dsm_handle_message_def Let_def dispatch_type [OF assms(1)]
  using assms(2) by (simp add: deref_def)

lemma dispatch_node_table:
  assumes "msg_type h = msg_code DSM_MSG_NODE_TABLE"
  shows "dsm_handle_message h (Some bs) w = Inr (snd (dsm_node_table_deserialize bs (unat (payload_len h)) w))"
  unfolding dsm_handle_message_def Let_def dispatch_type [OF assms] by simp

section \<open>Properties\<close>

text \<open>
  C12. Framing: when the bytes of a list of well-formed messages are there, whatever their sizes, the
  receiving loop handles exactly these messages, in order, each with its own payload at the front of
  the buffer, then finds no more data; a crash in a handler is the only way to stop earlier.
\<close>

theorem client_stream_framing:
  assumes "list_all message_ok ms"
  shows "handle_client_data fd (if ms = [] then [] else [Received (concat (map encode_message ms))]) buf again w =
    (case handle_all ms buf w of
       Inl e \<Rightarrow> Some (Inl e)
     | Inr (buf', w') \<Rightarrow> Some (Inr ([], buf', True, w')))"
  using assms
proof (induction ms arbitrary: buf w)
  case Nil
  then show ?case
    by (simp add: handle_client_data.simps)
next
  case (Cons m ms)
  have empty: "concat (map encode_message ms) = [] \<longleftrightarrow> ms = []"
    by (cases ms) (auto simp: encode_message_def)
  have m: "message_ok m"
    using Cons.prems by simp
  have list: "(if ms = [] then [] else [Received (concat (map encode_message ms))]) =
      (if concat (map encode_message ms) = [] then [] else [Received (concat (map encode_message ms))])"
    by (simp only: empty)
  show ?case
  proof (cases "handle_one m buf w")
    case (Inl e)
    then show ?thesis
      using client_round [OF m, of fd "concat (map encode_message ms)" "[]" buf again w] by simp
  next
    case (Inr w')
    then have "handle_client_data fd [Received (encode_message m @ concat (map encode_message ms))] buf again w =
        handle_client_data fd (if ms = [] then [] else [Received (concat (map encode_message ms))])
          (message_buffer m buf) again w'"
      using client_round [OF m, of fd "concat (map encode_message ms)" "[]" buf again w]
      by (simp only: list sum.case)
    then show ?thesis
      using Cons.IH [of "message_buffer m buf" w'] Cons.prems Inr by simp
  qed
qed

theorem client_stream_framing_witness:
  "handle_client_data 7 [Received (concat (map encode_message
       [(\<lparr>magic = DSM_MAGIC, msg_type = 0x35, src_node = 1, dst_node = 2, hdr_seq_num = 0, payload_len = 0\<rparr>, []),
        (\<lparr>magic = DSM_MAGIC, msg_type = 0x04, src_node = 1, dst_node = 2, hdr_seq_num = 1, payload_len = 4\<rparr>, put32 9)]))]
     (replicate 65536 0) False boot_world =
   Some (Inr ([], put32 9 @ replicate 65532 0, True,
     (wake BroadcastBarrier boot_world)\<lparr>ctx := (ctx boot_world)\<lparr>local_node_id := 9\<rparr>\<rparr>))"
proof -
  let ?a = "\<lparr>magic = DSM_MAGIC, msg_type = 0x35, src_node = 1, dst_node = 2, hdr_seq_num = 0, payload_len = 0\<rparr>"
  let ?b = "\<lparr>magic = DSM_MAGIC, msg_type = 0x04, src_node = 1, dst_node = 2, hdr_seq_num = 1, payload_len = 4\<rparr>"
  have ne: "put32 9 \<noteq> []"
    by (metis length_put_int(2) list.size(3) zero_neq_numeral)
  have types: "msg_type_of 0x35 = Some DSM_MSG_BARRIER_RELEASE" "msg_type_of 0x04 = Some DSM_MSG_JOIN_RESPONSE"
    by (simp_all add: msg_type_of_def all_msg_types_def)
  have "list_all message_ok [(?a, []), (?b, put32 9)]"
    by (simp add: message_ok_def)
  from client_stream_framing [OF this, of 7 "replicate 65536 0" False boot_world] show ?thesis
    by (simp add: handle_one_def dsm_handle_message_def message_buffer_def types ne deref_def)
qed

text \<open>
  The lock messages do what the cluster model takes them to do: on the master a request and a
  release run the handlers of the lock they name for the node they come from, on any other node they
  change nothing; and a grant marks the local record of the lock as held by this node and signals its
  waiters.
\<close>

lemma lock_messages_dispatch:
  assumes "payload_len h = 4" "get32 bs = lid"
  shows "(msg_type h = msg_code DSM_MSG_LOCK_REQUEST \<longrightarrow> dsm_handle_message h (Some bs) w =
      Inr (if local_role (ctx w) = DSM_ROLE_MASTER
           then snd (dsm_sync_handle_lock_request (src_node h) lid w) else w)) \<and>
    (msg_type h = msg_code DSM_MSG_LOCK_RELEASE \<longrightarrow> dsm_handle_message h (Some bs) w =
      Inr (if local_role (ctx w) = DSM_ROLE_MASTER
           then snd (dsm_sync_handle_lock_release (src_node h) lid w) else w)) \<and>
    (msg_type h = msg_code DSM_MSG_LOCK_GRANT \<and> unat lid < length (locks (ctx w)) \<longrightarrow>
      (\<exists>w'. dsm_handle_message h (Some bs) w = Inr w' \<and> wakes w' = wakes w @ [SignalLock (unat lid)] \<and>
        lock_holder (lock_at lid w') = Some (local_node_id (ctx w)) \<and>
        (\<forall>k. k \<noteq> lid \<longrightarrow> lock_at k w' = lock_at k w)))"
proof (intro conjI impI)
  assume "msg_type h = msg_code DSM_MSG_LOCK_REQUEST"
  then show "dsm_handle_message h (Some bs) w = Inr (if local_role (ctx w) = DSM_ROLE_MASTER
      then snd (dsm_sync_handle_lock_request (src_node h) lid w) else w)"
    using dispatch_lock_request assms by blast
next
  assume "msg_type h = msg_code DSM_MSG_LOCK_RELEASE"
  then show "dsm_handle_message h (Some bs) w = Inr (if local_role (ctx w) = DSM_ROLE_MASTER
      then snd (dsm_sync_handle_lock_release (src_node h) lid w) else w)"
    using dispatch_lock_release assms by blast
next
  let ?l = "lock_granted (local_node_id (ctx w)) (lock_at lid w)"
  let ?w = "wake (SignalLock (unat lid)) (put_lock lid ?l w)"
  assume g: "msg_type h = msg_code DSM_MSG_LOCK_GRANT \<and> unat lid < length (locks (ctx w))"
  have at: "lock_at k ?w = (if k = lid then ?l else lock_at k w)" for k
    using lock_at_put_lock [of lid w k ?l] g by (simp add: lock_at_def)
  have "dsm_handle_message h (Some bs) w = Inr ?w"
    using dispatch_lock_grant [of h bs w] g assms by (simp add: handle_lock_grant_def)
  moreover have "lock_holder ?l = Some (local_node_id (ctx w))"
    by (simp add: lock_granted_def lock_holder_def)
  ultimately show "\<exists>w'. dsm_handle_message h (Some bs) w = Inr w' \<and> wakes w' = wakes w @ [SignalLock (unat lid)] \<and>
      lock_holder (lock_at lid w') = Some (local_node_id (ctx w)) \<and>
      (\<forall>k. k \<noteq> lid \<longrightarrow> lock_at k w' = lock_at k w)"
    by (intro exI [of _ ?w]) (simp add: at)
qed

text \<open>
  Two messages leave the language whatever the state: a grant for a lock number of 256 or more writes
  behind the array of locks, where the barrier and other fields of the context lie, and an allocation
  request without payload makes the master read through a null pointer.
\<close>

lemma messages_that_crash:
  assumes "length (locks (ctx w)) = DSM_MAX_LOCKS"
  shows "(msg_type h = msg_code DSM_MSG_LOCK_GRANT \<and> payload_len h = 4 \<and> DSM_MAX_LOCKS \<le> unat (get32 bs) \<longrightarrow>
      dsm_handle_message h (Some bs) w = Inl OutOfBounds) \<and>
    (msg_type h = msg_code DSM_MSG_ALLOC_REQUEST \<and> local_role (ctx w) = DSM_ROLE_MASTER \<longrightarrow>
      dsm_handle_message h None w = Inl NullDeref)"
proof (intro conjI impI; elim conjE)
  assume "msg_type h = msg_code DSM_MSG_LOCK_GRANT" "payload_len h = 4" "DSM_MAX_LOCKS \<le> unat (get32 bs)"
  then show "dsm_handle_message h (Some bs) w = Inl OutOfBounds"
    using dispatch_lock_grant [of h bs w] assms by (simp add: handle_lock_grant_def)
next
  assume "msg_type h = msg_code DSM_MSG_ALLOC_REQUEST" "local_role (ctx w) = DSM_ROLE_MASTER"
  then show "dsm_handle_message h None w = Inl NullDeref"
    using dispatch_alloc_request [of h w None] by simp
qed

text \<open>
  C35. A connection closed in the middle of a payload can keep the receiving thread busy for ever: if
  an earlier call left \<^verbatim>\<open>errno\<close> at \<^verbatim>\<open>EAGAIN\<close>, then however many more calls report the close, the loop
  goes on.
\<close>

theorem payload_wait_never_ends:
  assumes "magic (get_header bs) = DSM_MAGIC" "length bs = sizeof_header"
    and "0 < unat (payload_len (get_header bs))" "unat (payload_len (get_header bs)) \<le> TCP_BUFFER_SIZE"
  shows "handle_client_data fd (Received bs # RecvAgain # replicate k RecvClosed) buf again w = None"
proof -
  have loop: "recv_payload (replicate k RecvClosed) True (Suc n) got = None" for k n got
    by (induction k) simp_all
  obtain n where n: "unat (payload_len (get_header bs)) = Suc n"
    using assms(3) by (cases "unat (payload_len (get_header bs))") auto
  have "payload_len (get_header bs) \<noteq> 0" "bs \<noteq> []"
    using assms(2,3) by auto
  then show ?thesis
    using assms(1,2,4) loop
    by (subst handle_client_data.simps) (simp add: after_header_def Let_def n)
qed

theorem payload_wait_never_ends_witness:
  "handle_client_data 7 (Received (put_header \<lparr>magic = DSM_MAGIC, msg_type = 0x11, src_node = 1, dst_node = 2,
     hdr_seq_num = 0, payload_len = 4116\<rparr>) # RecvAgain # replicate 100 RecvClosed) [] False boot_world = None"
proof -
  let ?h = "\<lparr>magic = DSM_MAGIC, msg_type = 0x11, src_node = 1, dst_node = 2, hdr_seq_num = 0, payload_len = 4116\<rparr>"
  have "get_header (put_header ?h) = ?h"
    by (rule header_codec.get_put_exact) simp
  then show ?thesis
    by (intro payload_wait_never_ends) simp_all
qed

text \<open>
  C13. Messages of two threads can destroy each other: a header and its payload are two calls of
  \<^verbatim>\<open>dsm_tcp_send_raw\<close>, and nothing keeps another thread from sending on the same socket in between.
  When a page request gets in after the header of a lock request, the receiver takes the magic number
  of the second header for the lock to request, refuses it, finds no header in what follows and drops
  it: neither message has any effect, and the payload of the page request stays in the stream.
\<close>

theorem interleaved_sends_lost:
  fixes ha hb :: dsm_msg_header and pa pb :: "u8 list" and v w :: world
  defines "order \<equiv> [put_header ha, put_header hb, pa, pb]"
  assumes "magic ha = DSM_MAGIC" "msg_type ha = msg_code DSM_MSG_LOCK_REQUEST" "payload_len ha = 4"
    and "magic hb = DSM_MAGIC" "msg_type hb = msg_code DSM_MSG_PAGE_REQUEST" "payload_len hb = 12"
    and "length pa = 4" "length pb = 12" "send_script v fd = []"
  shows "order \<in> shuffles [put_header ha, pa] [put_header hb, pb] \<and>
    sent (foldl (\<lambda>v bs. snd (dsm_tcp_send_raw fd bs v)) v order) fd = sent v fd @ concat order \<and>
    (\<exists>buf'. handle_client_data fw [Received (concat order)] buf again w =
       Some (Inr ([Received pb], buf', again, w)))"
proof (intro conjI)
  show "order \<in> shuffles [put_header ha, pa] [put_header hb, pb]"
    by (simp add: order_def Cons_in_shuffles_iff)
  show "sent (foldl (\<lambda>v bs. snd (dsm_tcp_send_raw fd bs v)) v order) fd = sent v fd @ concat order"
    using assms(10) by (simp add: order_def send_raw_clear)
  let ?m = "put32 (magic hb)" and ?r = "drop 4 (put_header hb) @ pa @ pb"
  have hb: "put_header hb = ?m @ drop 4 (put_header hb)"
    by (simp add: put_header_def)
  have one: "concat order = encode_message (ha, ?m) @ ?r"
    using hb by (simp add: order_def encode_message_def)
  have ne: "?m \<noteq> []"
    by (metis length_put_int(2) list.size(3) zero_neq_numeral)
  have "dsm_handle_message ha (Some (?m @ drop 4 buf)) w = Inr w"
    using dispatch_lock_request [OF assms(3,4), of "?m @ drop 4 buf" w] assms(5)
    by (simp add: dsm_sync_handle_lock_request_def)
  then have "handle_one (ha, ?m) buf w = Inr w"
    using ne by (simp add: handle_one_def message_buffer_def)
  then have "handle_client_data fw [Received (concat order)] buf again w =
      handle_client_data fw [Received ?r] (message_buffer (ha, ?m) buf) again w"
    unfolding one using client_round [of "(ha, ?m)" fw ?r "[]" buf again w] assms(2,4,8)
    by (simp add: message_ok_def)
  moreover have "magic (get_header ?r) \<noteq> DSM_MAGIC"
    using assms(6) by (simp add: get_header_def put_header_def)
  moreover have "length ?r = 36" "drop sizeof_header ?r = pb"
    using assms(8,9) by simp_all
  ultimately have "handle_client_data fw [Received (concat order)] buf again w =
      Some (Inr ([Received pb], message_buffer (ha, ?m) buf, again, w))"
    by (subst (asm) handle_client_data.simps) (simp add: Let_def after_header_def)
  then show "\<exists>buf'. handle_client_data fw [Received (concat order)] buf again w =
      Some (Inr ([Received pb], buf', again, w))"
    by blast
qed

theorem interleaved_sends_lost_witness:
  "\<exists>buf'. handle_client_data 7 [Received
       (put_header \<lparr>magic = DSM_MAGIC, msg_type = 0x30, src_node = 2, dst_node = 0, hdr_seq_num = 4, payload_len = 4\<rparr> @
        put_header \<lparr>magic = DSM_MAGIC, msg_type = 0x10, src_node = 2, dst_node = 1, hdr_seq_num = 5, payload_len = 12\<rparr> @
        put32 3 @ put_page_request \<lparr>pr_global_addr = 0x1000000, pr_access_type = 0\<rparr>)] [] False boot_world =
     Some (Inr ([Received (put_page_request \<lparr>pr_global_addr = 0x1000000, pr_access_type = 0\<rparr>)], buf', False, boot_world))"
proof -
  let ?a = "\<lparr>magic = DSM_MAGIC, msg_type = 0x30, src_node = 2, dst_node = 0, hdr_seq_num = 4, payload_len = 4\<rparr>"
  let ?b = "\<lparr>magic = DSM_MAGIC, msg_type = 0x10, src_node = 2, dst_node = 1, hdr_seq_num = 5, payload_len = 12\<rparr>"
  let ?q = "put_page_request \<lparr>pr_global_addr = 0x1000000, pr_access_type = 0\<rparr>"
  have "length ?q = 12" "send_script boot_world 5 = []"
    using page_request_codec.length_put by (simp_all add: boot_world_def)
  then show ?thesis
    using interleaved_sends_lost [of ?a ?b "put32 3" ?q boot_world 5 7 "[]" False boot_world] by simp
qed

end
