(* ===== verification/DsmProcess.thy ===== *)
theory DsmProcess
  imports DsmDispatch
begin

text \<open>
  What \<open>DsmSystem\<close> and \<open>DsmBarrierSystem\<close> share: the processes of a master and its workers, one \<open>world\<close>
  per node, and their connections. What a process has put on a connection and the other end has not read
  yet is in flight. A server thread reads some whole messages at a time.
\<close>

section \<open>Processes and connections\<close>

text \<open>
  \<open>seen_up n\<close> counts the bytes of node \<open>n\<close> that the master has read, \<open>seen_down n\<close> those of the master
  that \<open>n\<close> has read.
\<close>

record processes =
  proc :: "u32 \<Rightarrow> world"
  seen_up :: "u32 \<Rightarrow> nat"
  seen_down :: "u32 \<Rightarrow> nat"

definition sent_up :: "'a processes_scheme \<Rightarrow> u32 \<Rightarrow> u8 list" where
  "sent_up s n = sent (proc s n) (master_fd (ctx (proc s n)))"

definition sent_down :: "u32 \<Rightarrow> 'a processes_scheme \<Rightarrow> u32 \<Rightarrow> u8 list" where
  "sent_down m s n = sent (proc s m) (the (node_socket n (proc s m)))"

definition up_bytes :: "'a processes_scheme \<Rightarrow> u32 \<Rightarrow> u8 list" where
  "up_bytes s n = drop (seen_up s n) (sent_up s n)"

definition down_bytes :: "u32 \<Rightarrow> 'a processes_scheme \<Rightarrow> u32 \<Rightarrow> u8 list" where
  "down_bytes m s n = drop (seen_down s n) (sent_down m s n)"

text \<open>Nothing more has been read than was sent.\<close>

definition links_ok :: "u32 \<Rightarrow> 'a processes_scheme \<Rightarrow> u32 \<Rightarrow> bool" where
  "links_ok m s n \<longleftrightarrow> seen_up s n \<le> length (sent_up s n) \<and> seen_down s n \<le> length (sent_down m s n)"

text \<open>A master and its workers, connected.\<close>

definition master_linked :: "u32 \<Rightarrow> u32 list \<Rightarrow> world \<Rightarrow> bool" where
  "master_linked m ws w \<longleftrightarrow> local_role (ctx w) = DSM_ROLE_MASTER \<and> local_node_id (ctx w) = m \<and>
     (\<forall>fd. send_script w fd = []) \<and>
     (\<forall>n \<in> set ws. node_socket n w \<noteq> None) \<and> inj_on (\<lambda>n. node_socket n w) (set ws)"

definition worker_linked :: "u32 \<Rightarrow> world \<Rightarrow> bool" where
  "worker_linked n w \<longleftrightarrow> local_role (ctx w) \<noteq> DSM_ROLE_MASTER \<and> local_node_id (ctx w) = n \<and>
     (\<forall>fd. send_script w fd = []) \<and> 0 \<le> master_fd (ctx w)"

lemma socket_inj:
  "master_linked m ws w \<Longrightarrow> i \<in> set ws \<Longrightarrow> j \<in> set ws \<Longrightarrow> node_socket i w = node_socket j w \<Longrightarrow> i = j"
  unfolding master_linked_def inj_on_def by blast

lemma socket_known:
  "master_linked m ws w \<Longrightarrow> j \<in> set ws \<Longrightarrow> \<exists>fd. node_socket j w = Some fd"
  unfolding master_linked_def by blast

lemma node_socket_wake: "node_socket n (wake e w) = node_socket n w"
  by (rule node_socket_frame) simp

lemma wake_fields:
  "ctx (wake e w) = ctx w" "sent (wake e w) = sent w" "send_script (wake e w) = send_script w"
  by (simp_all add: wake_def)

section \<open>Messages as bytes\<close>

text \<open>The header of a message of type \<open>t\<close> with \<open>k\<close> bytes of payload.\<close>

definition msg_header :: "u32 \<Rightarrow> dsm_msg_type \<Rightarrow> nat \<Rightarrow> dsm_msg_header \<Rightarrow> bool" where
  "msg_header src t k h \<longleftrightarrow> magic h = DSM_MAGIC \<and> msg_type h = msg_code t \<and> src_node h = src \<and>
     payload_len h = word_of_nat k"

text \<open>The bytes of messages from \<open>src\<close> of the types \<open>ts\<close>, all with the payload \<open>p\<close>.\<close>

definition encodes :: "u32 \<Rightarrow> u8 list \<Rightarrow> dsm_msg_type list \<Rightarrow> u8 list \<Rightarrow> bool" where
  "encodes src p ts bs \<longleftrightarrow>
     (\<exists>hs. list_all2 (\<lambda>t. msg_header src t (length p)) ts hs \<and> bs = concat (map (\<lambda>h. put_header h @ p) hs))"

lemma encodes_Nil [simp]: "encodes src p [] bs \<longleftrightarrow> bs = []"
  by (auto simp: encodes_def)

lemma encodes_empty: "encodes src p ts [] \<longleftrightarrow> ts = []"
  by (auto simp: encodes_def list_all2_Cons2)

lemma encodes_snoc:
  "encodes src p ts bs \<Longrightarrow> msg_header src t (length p) h \<Longrightarrow> encodes src p (ts @ [t]) (bs @ put_header h @ p)"
  unfolding encodes_def by (elim exE conjE, rule_tac x = "hs @ [h]" in exI) (simp add: list_all2_appendI)

lemma encodes_more:
  assumes "msg_header src t (length p) h" "encodes src p ts bs"
  shows "encodes src p (ts @ replicate k t) (bs @ concat (replicate k (put_header h @ p)))"
proof (induction k)
  case (Suc k)
  from encodes_snoc [OF this assms(1)] show ?case
    by (simp add: replicate_append_same [symmetric] del: replicate_append_same)
qed (use assms(2) in simp)

lemma encodes_Cons:
  "encodes src p (t # ts) bs \<longleftrightarrow>
     (\<exists>h rest. msg_header src t (length p) h \<and> bs = put_header h @ p @ rest \<and> encodes src p ts rest)"
proof
  assume "encodes src p (t # ts) bs"
  then show "\<exists>h rest. msg_header src t (length p) h \<and> bs = put_header h @ p @ rest \<and> encodes src p ts rest"
    by (auto simp: encodes_def list_all2_Cons1) blast
next
  assume "\<exists>h rest. msg_header src t (length p) h \<and> bs = put_header h @ p @ rest \<and> encodes src p ts rest"
  then obtain h hs where "msg_header src t (length p) h" "list_all2 (\<lambda>t. msg_header src t (length p)) ts hs"
    "bs = put_header h @ p @ concat (map (\<lambda>h. put_header h @ p) hs)"
    by (auto simp: encodes_def)
  then show "encodes src p (t # ts) bs"
    unfolding encodes_def by (intro exI [of _ "h # hs"]) simp
qed

lemma encodes_first:
  assumes "encodes src p ts bs" "bs \<noteq> []"
  shows "\<exists>t ts' h rest. ts = t # ts' \<and> msg_header src t (length p) h \<and> bs = put_header h @ p @ rest \<and>
    encodes src p ts' rest"
  using assms by (cases ts) (auto simp: encodes_Cons)

text \<open>Reading on: one message further, and what has been read in the end.\<close>

lemma read_on:
  assumes "drop k xs = put_header h @ p @ rest"
  shows "k + (24 + length p) \<le> length xs" "drop (k + (24 + length p)) xs = rest"
proof -
  have "length xs - k = 24 + length p + length rest"
    using arg_cong [OF assms, of length] by simp
  then show "k + (24 + length p) \<le> length xs"
    by simp
  have "drop (24 + length p) (drop k xs) = rest"
    unfolding assms by simp
  then show "drop (k + (24 + length p)) xs = rest"
    by (simp add: add.commute)
qed

lemma read_count:
  assumes "drop k xs = bs @ rest" "drop i xs = rest" "k \<le> length xs" "i \<le> length xs"
  shows "i = k + length bs"
  using arg_cong [OF assms(1), of length] arg_cong [OF assms(2), of length] assms(3,4) by simp

text \<open>The first message of the bytes a server thread gets, and what is left for it to read.\<close>

lemma reads_first:
  assumes hcd: "handle_client_data fd [Received bs] buf again w = Some (Inr (es, buf', again', w'))"
    and enc: "encodes src p ts (bs @ rest)" and len: "length bs = Suc j * (24 + length p)"
    and p: "length p \<le> TCP_BUFFER_SIZE"
  obtains t ts' h b v where "ts = t # ts'" "msg_header src t (length p) h" "bs = put_header h @ p @ b"
    "encodes src p ts' (b @ rest)" "length b = j * (24 + length p)" "handle_one (h, p) buf w = Inr v"
    "b = [] \<Longrightarrow> w' = v"
    "b \<noteq> [] \<Longrightarrow> handle_client_data fd [Received b] (message_buffer (h, p) buf) again v = Some (Inr (es, buf', again', w'))"
proof -
  from len have "bs @ rest \<noteq> []"
    by auto
  from encodes_first [OF enc this] obtain t ts' h r where
    t: "ts = t # ts'" "msg_header src t (length p) h" "bs @ rest = put_header h @ p @ r" "encodes src p ts' r"
    by blast
  define b where "b = drop (24 + length p) bs"
  have "take (24 + length p) (bs @ rest) = put_header h @ p"
    unfolding t(3) by simp
  then have "take (24 + length p) bs = put_header h @ p"
    using len by simp
  then have bs: "bs = put_header h @ p @ b"
    by (metis append.assoc append_take_drop_id b_def)
  have ok: "message_ok (h, p)"
    using t(2) p by (simp add: message_ok_def msg_header_def unat_of_nat)
  have bytes: "bs = encode_message (h, p) @ b"
    by (simp add: encode_message_def bs)
  obtain v where v: "handle_one (h, p) buf w = Inr v"
    "handle_client_data fd (if b = [] then [] else [Received b]) (message_buffer (h, p) buf) again v =
     Some (Inr (es, buf', again', w'))"
    using hcd unfolding bytes client_round [OF ok] by (auto split: sum.splits)
  show thesis
  proof (rule that [OF t(1,2) bs _ _ v(1)])
    show "encodes src p ts' (b @ rest)"
      using t(3,4) by (simp add: bs)
    show "length b = j * (24 + length p)"
      using len by (simp add: b_def)
    show "w' = v" if "b = []"
      using v(2) that by (simp add: handle_client_data.simps [of fd "[]"])
    show "handle_client_data fd [Received b] (message_buffer (h, p) buf) again v = Some (Inr (es, buf', again', w'))"
      if "b \<noteq> []"
      using v(2) that by simp
  qed
qed

text \<open>
  A server thread reads some whole messages: whatever holds before them and is kept by the handling of
  each holds after them.
\<close>

lemma reads_messages:
  assumes "handle_client_data fd [Received bs] buf again w = Some (Inr (es, buf', again', w'))"
    and "encodes src p ts (bs @ rest)" "length bs = Suc j * (24 + length p)" "length p \<le> TCP_BUFFER_SIZE"
    and "P ts (bs @ rest) w"
    and step: "\<And>t ts h rest buf w v. P (t # ts) (put_header h @ p @ rest) w \<Longrightarrow> msg_header src t (length p) h \<Longrightarrow>
      encodes src p ts rest \<Longrightarrow> handle_one (h, p) buf w = Inr v \<Longrightarrow> P ts rest v"
  shows "\<exists>ts'. P ts' rest w'"
  using assms(1-3,5)
proof (induction j arbitrary: ts bs buf w)
  case (0 ts bs buf w)
  from 0(1-3) assms(4) obtain t ts' h b v where
    t: "ts = t # ts'" "msg_header src t (length p) h" "bs = put_header h @ p @ b" "encodes src p ts' (b @ rest)"
    and b: "length b = 0 * (24 + length p)" and v: "handle_one (h, p) buf w = Inr v" "b = [] \<Longrightarrow> w' = v"
    by (rule reads_first) blast
  from b have nil: "b = []"
    by simp
  have "P ts' (b @ rest) v"
    using step [OF _ t(2,4) v(1)] 0(4) t(1,3) by simp
  then show ?case
    using v(2) [OF nil] nil by auto
next
  case (Suc j ts bs buf w)
  from Suc.prems(1-3) assms(4) obtain t ts' h b v where
    t: "ts = t # ts'" "msg_header src t (length p) h" "bs = put_header h @ p @ b" "encodes src p ts' (b @ rest)"
    and len: "length b = Suc j * (24 + length p)"
    and v: "handle_one (h, p) buf w = Inr v"
      "b \<noteq> [] \<Longrightarrow> handle_client_data fd [Received b] (message_buffer (h, p) buf) again v = Some (Inr (es, buf', again', w'))"
    by (rule reads_first) blast
  have "P ts' (b @ rest) v"
    using step [OF _ t(2,4) v(1)] Suc.prems(4) t(1,3) by simp
  moreover have "b \<noteq> []"
    using len by auto
  ultimately show ?case
    using Suc.IH [OF v(2) t(4) len] by blast
qed

section \<open>Concrete processes\<close>

text \<open>A master with two workers on its sockets 7 and 8, which it reached on their sockets 5.\<close>

definition demo_processes :: "u32 \<Rightarrow> world" where
  "demo_processes n =
     (if n = 1 then demo_nodes\<lparr>ctx := (ctx demo_nodes)\<lparr>local_role := DSM_ROLE_MASTER, local_node_id := 1\<rparr>\<rparr>
      else boot_world\<lparr>ctx := (ctx boot_world)\<lparr>local_role := DSM_ROLE_WORKER, local_node_id := n, master_fd := 5\<rparr>\<rparr>)"

lemma demo_sockets: "node_socket 2 (demo_processes 1) = Some 7" "node_socket 3 (demo_processes 1) = Some 8"
  by code_simp+

lemma demo_process:
  "local_role (ctx (demo_processes n)) = (if n = 1 then DSM_ROLE_MASTER else DSM_ROLE_WORKER)"
  "local_node_id (ctx (demo_processes n)) = n" "locks (ctx (demo_processes n)) = replicate DSM_MAX_LOCKS zero_lock"
  "send_script (demo_processes n) fd = []" "n \<noteq> 1 \<Longrightarrow> master_fd (ctx (demo_processes n)) = 5"
  by (simp_all add: demo_processes_def boot_world_def zero_context_def)

lemma demo_lock: "unat lid < DSM_MAX_LOCKS \<Longrightarrow> lock_at lid (demo_processes n) = zero_lock"
  by (simp add: lock_at_def demo_process)

end
