(* ===== verification/DsmSystem.thy ===== *)
theory DsmSystem
  imports DsmCluster DsmProcess
begin

text \<open>
  The lock protocol run by the processes themselves: one \<open>world\<close> per node, driven by the code of
  \<^verbatim>\<open>dsm_lock\<close>, \<^verbatim>\<open>dsm_unlock\<close> and the server threads, with the bytes they put on their connections and
  have not read yet as the only messages. The theory shows that every run of these processes is a run
  of the cluster of \<open>DsmCluster\<close>, and takes its properties back to the processes. As there, one
  application thread per node uses the lock, no other messages travel and the connections stay up.
  \<^verbatim>\<open>dsm_lock\<close> up to its wait is one step, and so is \<^verbatim>\<open>dsm_unlock\<close>: between the parts of a worker's unlock
  no message for it is in flight, and \<open>DsmCluster\<close> has the steps of both parts.
\<close>

section \<open>The processes and their steps\<close>

text \<open>\<open>pc\<close> is where the application thread is.\<close>

record system = processes +
  pc :: "u32 \<Rightarrow> phase"

definition move :: "u32 \<Rightarrow> world \<Rightarrow> phase \<Rightarrow> system \<Rightarrow> system" where
  "move n w p s = s\<lparr>proc := (proc s)(n := w), pc := (pc s)(n := p)\<rparr>"

text \<open>The size of a lock message: a header and a lock number.\<close>

abbreviation (input) lock_msg_size :: nat where "lock_msg_size \<equiv> 28"

text \<open>The steps, for the lock \<open>k\<close>, a master \<open>m\<close> and workers \<open>ws\<close>.\<close>

inductive system_step :: "u32 \<Rightarrow> u32 list \<Rightarrow> int \<Rightarrow> system \<Rightarrow> system \<Rightarrow> bool" for m ws k where
  lock_begins: "n \<in> set (m # ws) \<Longrightarrow> pc s n = Idle \<Longrightarrow> dsm_lock_call k (proc s n) = (r, w) \<Longrightarrow>
    system_step m ws k s (move n w (if r = Returned then Critical else Waiting) s)"
| lock_returns: "n \<in> set (m # ws) \<Longrightarrow> pc s n = Waiting \<Longrightarrow>
    dsm_lock_resume (word_of_int k) (proc s n) = (Returned, w) \<Longrightarrow>
    system_step m ws k s (move n w Critical s)"
| unlock: "n \<in> set (m # ws) \<Longrightarrow> pc s n = Critical \<Longrightarrow>
    system_step m ws k s (move n (dsm_unlock k (proc s n)) Idle s)"
| master_reads: "n \<in> set ws \<Longrightarrow> up_bytes s n = bs @ rest \<Longrightarrow> length bs = Suc j * lock_msg_size \<Longrightarrow>
    handle_client_data fd [Received bs] buf again (proc s m) = Some (Inr (es, buf', again', w)) \<Longrightarrow>
    system_step m ws k s (s\<lparr>proc := (proc s)(m := w), seen_up := (seen_up s)(n := seen_up s n + length bs)\<rparr>)"
| worker_reads: "n \<in> set ws \<Longrightarrow> down_bytes m s n = bs @ rest \<Longrightarrow> length bs = Suc j * lock_msg_size \<Longrightarrow>
    handle_client_data fd [Received bs] buf again (proc s n) = Some (Inr (es, buf', again', w)) \<Longrightarrow>
    system_step m ws k s (s\<lparr>proc := (proc s)(n := w), seen_down := (seen_down s)(n := seen_down s n + length bs)\<rparr>)"

text \<open>A master and its workers, connected, each with its table of locks, and at rest.\<close>

definition master_ok :: "u32 \<Rightarrow> u32 list \<Rightarrow> world \<Rightarrow> bool" where
  "master_ok m ws w \<longleftrightarrow> master_linked m ws w \<and> length (locks (ctx w)) = DSM_MAX_LOCKS"

definition worker_ok :: "u32 \<Rightarrow> world \<Rightarrow> bool" where
  "worker_ok n w \<longleftrightarrow> worker_linked n w \<and> length (locks (ctx w)) = DSM_MAX_LOCKS"

definition system_start :: "u32 \<Rightarrow> u32 list \<Rightarrow> int \<Rightarrow> system \<Rightarrow> bool" where
  "system_start m ws k s \<longleftrightarrow> m \<notin> set ws \<and> 0 \<le> k \<and> k < int DSM_MAX_LOCKS \<and>
     master_ok m ws (proc s m) \<and> (\<forall>n \<in> set ws. worker_ok n (proc s n) \<and> links_ok m s n) \<and>
     lock_ok (lock_at (word_of_int k) (proc s m)) \<and>
     (\<forall>n \<in> set (m # ws). \<not> locked (lock_at (word_of_int k) (proc s n)) \<and> pc s n = Idle) \<and>
     (\<forall>n \<in> set ws. up_bytes s n = [] \<and> down_bytes m s n = [])"

abbreviation system_reach :: "u32 \<Rightarrow> u32 list \<Rightarrow> int \<Rightarrow> system \<Rightarrow> bool" where
  "system_reach m ws k \<equiv> reachable (system_start m ws k) (system_step m ws k)"

lemmas system_reach_start = reach_start [where init = "system_start m ws k" and step = "system_step m ws k"] for m ws k
lemmas system_reach_step = reach_step [where init = "system_start m ws k" and step = "system_step m ws k"] for m ws k

section \<open>What each operation does\<close>

lemma lock_number: "0 \<le> k \<Longrightarrow> k < int DSM_MAX_LOCKS \<Longrightarrow> unat (word_of_int k :: u32) < DSM_MAX_LOCKS"
  using unat_lock_number [of k] by simp

text \<open>A worker that asks, and one that gives back: its record, and one message.\<close>

definition sends :: "u32 \<Rightarrow> u32 \<Rightarrow> dsm_msg_type \<Rightarrow> world \<Rightarrow> world \<Rightarrow> bool" where
  "sends n lid t w w' \<longleftrightarrow> worker_ok n w' \<and> (\<exists>h. msg_header n t 4 h \<and>
     sent w' (master_fd (ctx w')) = sent w (master_fd (ctx w)) @ put_header h @ put32 lid)"

lemma worker_call:
  assumes "worker_ok n w" "0 \<le> k" "k < int DSM_MAX_LOCKS" "dsm_lock_call k w = (r, w')"
  shows "sends n (word_of_int k) DSM_MSG_LOCK_REQUEST w w' \<and> lock_at (word_of_int k) w' = lock_at (word_of_int k) w \<and>
    (r = Returned \<longleftrightarrow> worker_test n (lock_at (word_of_int k) w))"
proof -
  let ?h = "dsm_create_header DSM_MSG_LOCK_REQUEST (master_id (ctx w)) sizeof_lock w"
  have "msg_header n DSM_MSG_LOCK_REQUEST 4 (fst ?h)"
    using assms(1) by (simp add: msg_header_def worker_ok_def worker_linked_def)
  moreover have "dsm_lock_call k w = (if worker_test n (lock_at (word_of_int k) w) then Returned else Blocked,
      (snd ?h)\<lparr>sent := (sent w)(master_fd (ctx w) := sent w (master_fd (ctx w)) @ put_header (fst ?h) @
        put32 (word_of_int k))\<rparr>)"
    using assms(1-3)
    by (simp add: dsm_lock_call_def worker_ok_def worker_linked_def Let_def case_prod_beta master_socket_def send_raw_clear
        dsm_lock_resume_def lock_at_def)
  ultimately show ?thesis
    using assms(1,4) by (auto simp: sends_def worker_ok_def worker_linked_def lock_at_def split: if_splits)
qed

lemma worker_unlock:
  assumes "worker_ok n w" "0 \<le> k" "k < int DSM_MAX_LOCKS"
  shows "sends n (word_of_int k) DSM_MSG_LOCK_RELEASE w (dsm_unlock k w) \<and>
    lock_at (word_of_int k) (dsm_unlock k w) = lock_cleared (lock_at (word_of_int k) w)"
proof -
  let ?h = "dsm_create_header DSM_MSG_LOCK_RELEASE (master_id (ctx w)) sizeof_lock w"
  let ?w = "(snd ?h)\<lparr>sent := (sent w)(master_fd (ctx w) := sent w (master_fd (ctx w)) @ put_header (fst ?h) @
        put32 (word_of_int k))\<rparr>"
  have h: "msg_header n DSM_MSG_LOCK_RELEASE 4 (fst ?h)"
    using assms(1) by (simp add: msg_header_def worker_ok_def worker_linked_def)
  have at: "lock_at lid ?w = lock_at lid w" for lid
    by (simp add: lock_at_def)
  have eq: "dsm_unlock k w = put_lock (word_of_int k) (lock_cleared (lock_at (word_of_int k) w)) ?w"
    using assms at
    by (simp add: dsm_unlock_def worker_ok_def worker_linked_def Let_def case_prod_beta master_socket_def send_raw_clear)
  have "length (locks (ctx ?w)) = DSM_MAX_LOCKS" "master_fd (ctx (put_lock j l ?w)) = master_fd (ctx w)" for j l
    using assms(1) by (simp_all add: worker_ok_def worker_linked_def put_lock_def)
  then show ?thesis
    using h assms(1) lock_number [OF assms(2,3)] unfolding eq
    by (auto simp: sends_def worker_ok_def worker_linked_def lock_at_put_lock)
qed

lemma tcp_send_script:
  assumes "\<And>f. send_script w f = []"
  shows "send_script (snd (dsm_tcp_send n hdr p w)) fd = []"
  using assms by (simp add: dsm_tcp_send_def Let_def send_raw_clear split: option.splits)

text \<open>The master changes a record and grants the lock to a worker, or to nobody.\<close>

lemma master_grants:
  assumes ok: "master_ok m ws w" and lid: "unat lid < DSM_MAX_LOCKS" and g: "set_option g \<subseteq> set ws"
    and w': "w' = (case g of None \<Rightarrow> put_lock lid l w | Some i \<Rightarrow> send_grant i lid (put_lock lid l w))"
  shows "master_ok m ws w' \<and> lock_at lid w' = l \<and> (\<forall>j. node_socket j w' = node_socket j w) \<and>
    (\<forall>j \<in> set ws. \<exists>h. msg_header m DSM_MSG_LOCK_GRANT 4 h \<and> sent w' (the (node_socket j w)) =
       sent w (the (node_socket j w)) @ (if g = Some j then put_header h @ put32 lid else []))"
proof -
  have socks: "node_socket j w \<noteq> None" if "j \<in> set ws" for j
    using ok that by (simp add: master_ok_def master_linked_def)
  have inj: "i = j" if "i \<in> set ws" "j \<in> set ws" "node_socket i w = node_socket j w" for i j
    using ok that unfolding master_ok_def master_linked_def inj_on_def by blast
  have tab: "node_table (ctx w') = node_table (ctx w)"
    by (simp add: w' split: option.splits)
  then have same: "node_socket j w' = node_socket j w" for j
    by (rule node_socket_frame)
  have script: "send_script w' fd = []" for fd
    using ok by (simp add: w' master_ok_def master_linked_def send_grant_def case_prod_beta Let_def tcp_send_script
        split: option.splits)
  have "master_ok m ws w'"
    using ok script same by (simp add: master_ok_def master_linked_def) (simp add: w' split: option.splits)
  moreover have "lock_at lid w' = l"
    using ok lid lock_at_put_lock [of lid w lid l] by (simp add: w' master_ok_def master_linked_def split: option.splits)
  moreover have "\<exists>h. msg_header m DSM_MSG_LOCK_GRANT 4 h \<and> sent w' (the (node_socket j w)) =
      sent w (the (node_socket j w)) @ (if g = Some j then put_header h @ put32 lid else [])" if j: "j \<in> set ws" for j
  proof (cases g)
    case None
    then show ?thesis
      by (intro exI [of _ "\<lparr>magic = DSM_MAGIC, msg_type = msg_code DSM_MSG_LOCK_GRANT, src_node = m, dst_node = j,
        hdr_seq_num = 0, payload_len = 4\<rparr>"]) (simp add: w' msg_header_def)
  next
    case (Some i)
    obtain fi fj where f: "node_socket i w = Some fi" "node_socket j w = Some fj"
      using socks [of i] socks [OF j] g Some by auto
    have "sent w' = (sent w)(fi := sent w fi @ grant_bytes i lid w)"
      using Some f(1) ok send_grant_sent [of w i lid lid l]
      by (auto simp: w' grant_sent_def node_socket_def master_ok_def master_linked_def split: option.splits if_splits)
    moreover have "fi = fj \<longleftrightarrow> i = j"
      using f inj [of i j] g Some j by auto
    ultimately show ?thesis
      using f Some ok
      by (intro exI [of _ "\<lparr>magic = DSM_MAGIC, msg_type = msg_code DSM_MSG_LOCK_GRANT, src_node = m, dst_node = i,
        hdr_seq_num = seq_num (ctx w), payload_len = 4\<rparr>"])
         (auto simp: msg_header_def grant_bytes_def master_ok_def master_linked_def)
  qed
  ultimately show ?thesis
    using same by blast
qed

text \<open>The server threads handle one lock message.\<close>

lemma handles_lock_message:
  assumes "\<And>bs. get32 bs = lid \<Longrightarrow> dsm_handle_message h (Some bs) w = Inr v" "handle_one (h, put32 lid) buf w = Inr w'"
  shows "w' = v"
proof -
  have "put32 lid \<noteq> []"
    by (metis length_put_int(2) list.size(3) zero_neq_numeral)
  then show ?thesis
    using assms by (simp add: handle_one_def message_buffer_def)
qed

lemma master_handles_request:
  assumes "master_ok m ws w" "unat lid < DSM_MAX_LOCKS" "msg_header n DSM_MSG_LOCK_REQUEST 4 h"
    and "handle_one (h, put32 lid) buf w = Inr w'" "lock_request n (lock_at lid w) = (l, g)"
  shows "w' = (case g of None \<Rightarrow> put_lock lid l w | Some i \<Rightarrow> send_grant i lid (put_lock lid l w))"
proof (rule handles_lock_message [OF _ assms(4)])
  fix bs assume "get32 bs = lid"
  then show "dsm_handle_message h (Some bs) w =
      Inr (case g of None \<Rightarrow> put_lock lid l w | Some i \<Rightarrow> send_grant i lid (put_lock lid l w))"
    using assms(1,3) dispatch_lock_request [of h bs w]
      handle_request_eq [OF assms(2), of n w, unfolded assms(5) fst_conv snd_conv]
    by (simp add: msg_header_def master_ok_def master_linked_def)
qed

lemma release_eq:
  assumes "unat lid < DSM_MAX_LOCKS"
  shows "snd (dsm_sync_handle_lock_release n lid w) =
    (case lock_release n (lock_at lid w) of None \<Rightarrow> w
     | Some (l, g) \<Rightarrow> (case g of None \<Rightarrow> put_lock lid l w | Some i \<Rightarrow> send_grant i lid (put_lock lid l w)))"
  using assms by (auto simp: dsm_sync_handle_lock_release_def Let_def split: option.splits)

lemma master_handles_release:
  assumes "master_ok m ws w" "msg_header n DSM_MSG_LOCK_RELEASE 4 h" "handle_one (h, put32 lid) buf w = Inr w'"
  shows "w' = snd (dsm_sync_handle_lock_release n lid w)"
proof (rule handles_lock_message [OF _ assms(3)])
  fix bs assume "get32 bs = lid"
  then show "dsm_handle_message h (Some bs) w = Inr (snd (dsm_sync_handle_lock_release n lid w))"
    using assms(1,2) dispatch_lock_release [of h bs w] by (simp add: msg_header_def master_ok_def master_linked_def)
qed

lemma worker_handles_grant:
  assumes "worker_ok n w" "unat lid < DSM_MAX_LOCKS" "msg_header m DSM_MSG_LOCK_GRANT 4 h"
    and "handle_one (h, put32 lid) buf w = Inr w'"
  shows "worker_ok n w' \<and> lock_at lid w' = lock_granted n (lock_at lid w) \<and> sent w' = sent w \<and>
    master_fd (ctx w') = master_fd (ctx w)"
proof -
  let ?w = "wake (SignalLock (unat lid)) (put_lock lid (lock_granted n (lock_at lid w)) w)"
  have "w' = ?w"
  proof (rule handles_lock_message [OF _ assms(4)])
    fix bs assume "get32 bs = lid"
    then show "dsm_handle_message h (Some bs) w = Inr ?w"
      using assms(1-3) dispatch_lock_grant [of h bs w]
      by (simp add: msg_header_def handle_lock_grant_def worker_ok_def worker_linked_def)
  qed
  moreover have "lock_at lid ?w = lock_at lid (put_lock lid (lock_granted n (lock_at lid w)) w)"
    by (simp add: lock_at_def)
  ultimately show ?thesis
    using assms(1,2) by (simp add: worker_ok_def worker_linked_def lock_at_put_lock) (simp add: put_lock_def wake_def)
qed

section \<open>The processes run the cluster\<close>

fun lock_msg_type :: "lock_msg \<Rightarrow> dsm_msg_type" where
  "lock_msg_type Request = DSM_MSG_LOCK_REQUEST"
| "lock_msg_type Release = DSM_MSG_LOCK_RELEASE"

definition worker_sim :: "u32 \<Rightarrow> u32 \<Rightarrow> system \<Rightarrow> cluster \<Rightarrow> u32 \<Rightarrow> bool" where
  "worker_sim m lid s c n \<longleftrightarrow> worker_ok n (proc s n) \<and> phase c n = pc s n \<and> pc s n \<noteq> Releasing \<and>
     wlock c n = lock_at lid (proc s n) \<and>
     links_ok m s n \<and> encodes n (put32 lid) (map lock_msg_type (up c n)) (up_bytes s n) \<and>
     encodes m (put32 lid) (replicate (down c n) DSM_MSG_LOCK_GRANT) (down_bytes m s n)"

definition simulates :: "u32 \<Rightarrow> u32 list \<Rightarrow> u32 \<Rightarrow> system \<Rightarrow> cluster \<Rightarrow> bool" where
  "simulates m ws lid s c \<longleftrightarrow> master_ok m ws (proc s m) \<and> phase c m = pc s m \<and> pc s m \<noteq> Releasing \<and>
     mlock c = lock_at lid (proc s m) \<and> (\<forall>n \<in> set ws. worker_sim m lid s c n)"

lemma worker_sim_same:
  assumes "worker_sim m lid s c j" "proc s' j = proc s j" "proc s' m = proc s m" "pc s' j = pc s j"
    and "seen_up s' j = seen_up s j" "seen_down s' j = seen_down s j"
    and "phase c' j = phase c j" "wlock c' j = wlock c j" "up c' j = up c j" "down c' j = down c j"
  shows "worker_sim m lid s' c' j"
  using assms by (simp add: worker_sim_def links_ok_def sent_up_def sent_down_def up_bytes_def down_bytes_def)

text \<open>A step of one worker.\<close>

lemma simulates_worker:
  assumes "simulates m ws lid s c" "n \<noteq> m" "mlock c' = mlock c" "worker_sim m lid s' c' n"
    and "\<And>j. j \<noteq> n \<Longrightarrow> proc s' j = proc s j \<and> pc s' j = pc s j \<and> seen_up s' j = seen_up s j \<and>
      seen_down s' j = seen_down s j \<and> phase c' j = phase c j \<and> wlock c' j = wlock c j \<and> up c' j = up c j \<and>
      down c' j = down c j"
  shows "simulates m ws lid s' c'"
proof -
  have "worker_sim m lid s' c' j" if "j \<in> set ws" for j
  proof (cases "j = n")
    case True
    with assms(4) show ?thesis by simp
  next
    case False
    moreover have "worker_sim m lid s c j"
      using assms(1) that by (simp add: simulates_def)
    ultimately show ?thesis
      using assms(5) [of j] assms(5) [OF assms(2) [symmetric]] by (elim worker_sim_same) simp_all
  qed
  then show ?thesis
    using assms(1,3) assms(5) [of m] assms(2) [symmetric] by (simp add: simulates_def)
qed

text \<open>A step of the master, which grants the lock to the worker \<open>g\<close> or to nobody.\<close>

lemma simulates_master:
  assumes sim: "simulates m ws lid s c" and m: "m \<notin> set ws" and lid: "unat lid < DSM_MAX_LOCKS"
    and g: "set_option g \<subseteq> set ws"
    and w': "proc s' = (proc s)(m := case g of None \<Rightarrow> put_lock lid l (proc s m)
               | Some i \<Rightarrow> send_grant i lid (put_lock lid l (proc s m)))"
    and pcs: "pc s' m = phase c' m" "pc s' m \<noteq> Releasing" "\<And>j. j \<noteq> m \<Longrightarrow> pc s' j = pc s j \<and> phase c' j = phase c j"
    and ups: "\<And>j. j \<in> set ws \<Longrightarrow> seen_up s' j \<le> length (sent_up s j) \<and>
               encodes j (put32 lid) (map lock_msg_type (up c' j)) (drop (seen_up s' j) (sent_up s j))"
    and c': "mlock c' = l" "wlock c' = wlock c" "seen_down s' = seen_down s"
            "\<And>j. down c' j = down c j + (if g = Some j then 1 else 0)"
  shows "simulates m ws lid s' c'"
proof -
  have ok: "master_ok m ws (proc s m)"
    using sim by (simp add: simulates_def)
  have pm: "proc s' m = (case g of None \<Rightarrow> put_lock lid l (proc s m)
      | Some i \<Rightarrow> send_grant i lid (put_lock lid l (proc s m)))"
    by (simp add: w')
  note eff = master_grants [OF ok lid g pm]
  have "worker_sim m lid s' c' j" if j: "j \<in> set ws" for j
  proof -
    have jm: "j \<noteq> m"
      using j m by auto
    then have pj: "proc s' j = proc s j"
      unfolding w' by (rule fun_upd_other)
    have old: "worker_sim m lid s c j"
      using sim j by (simp add: simulates_def)
    obtain h where h: "msg_header m DSM_MSG_LOCK_GRANT 4 h"
      "sent_down m s' j = sent_down m s j @ (if g = Some j then put_header h @ put32 lid else [])"
      using eff j unfolding sent_down_def by metis
    have "encodes m (put32 lid) (replicate (down c' j) DSM_MSG_LOCK_GRANT) (down_bytes m s' j)"
      using old h encodes_snoc [of m "put32 lid" "replicate (down c j) DSM_MSG_LOCK_GRANT" "down_bytes m s j" DSM_MSG_LOCK_GRANT h]
      by (auto simp: worker_sim_def links_ok_def down_bytes_def c' replicate_append_same)
    then show ?thesis
      using old h(2) ups [OF j] pcs(3) [OF jm] pj
      by (simp add: worker_sim_def links_ok_def c' sent_up_def up_bytes_def)
  qed
  then show ?thesis
    using eff pcs c' by (simp add: simulates_def)
qed

lemma simulates_master_pc:
  assumes "simulates m ws lid s c" "m \<notin> set ws" "p \<noteq> Releasing"
  shows "simulates m ws lid (move m (proc s m) p s) (set_phase m p c)"
proof -
  have "worker_sim m lid (move m (proc s m) p s) (set_phase m p c) j" if "j \<in> set ws" for j
  proof -
    have "j \<noteq> m"
      using that assms(2) by auto
    moreover have "worker_sim m lid s c j"
      using assms(1) that by (simp add: simulates_def)
    ultimately show ?thesis
      by (elim worker_sim_same) (simp_all add: move_def set_phase_def)
  qed
  then show ?thesis
    using assms(1,3) by (simp add: simulates_def move_def set_phase_def)
qed

text \<open>A signal on the master changes nothing that matters here.\<close>

lemma simulates_wake:
  assumes "simulates m ws lid (move m w p s) c"
  shows "simulates m ws lid (move m (wake e w) p s) c"
proof -
  have "worker_sim m lid (move m (wake e w) p s) c n" if "worker_sim m lid (move m w p s) c n" for n
    using that by (cases "n = m")
      (simp_all add: move_def worker_sim_def links_ok_def sent_up_def sent_down_def up_bytes_def down_bytes_def
        node_socket_wake worker_ok_def worker_linked_def lock_at_def wake_fields)
  then show ?thesis
    using assms
    by (simp add: simulates_def move_def master_ok_def master_linked_def node_socket_wake lock_at_def wake_fields)
qed

text \<open>A worker calls \<^verbatim>\<open>dsm_lock\<close> or \<^verbatim>\<open>dsm_unlock\<close>.\<close>

lemma simulates_sends:
  assumes sim: "simulates m ws lid s c" and n: "n \<in> set ws" "n \<noteq> m"
    and w: "sends n lid (lock_msg_type x) (proc s n) w"
    and c': "mlock c' = mlock c" "phase c' = (phase c)(n := p)" "wlock c' = (wlock c)(n := lock_at lid w)"
      "up c' = (up c)(n := up c n @ [x])" "down c' = down c" and p: "p \<noteq> Releasing"
  shows "simulates m ws lid (move n w p s) c'"
proof (rule simulates_worker [OF sim n(2) c'(1)])
  have old: "worker_sim m lid s c n"
    using sim n(1) by (simp add: simulates_def)
  obtain h where h: "worker_ok n w" "msg_header n (lock_msg_type x) 4 h"
    "sent w (master_fd (ctx w)) = sent_up s n @ put_header h @ put32 lid"
    using w by (auto simp: sends_def sent_up_def)
  then have "encodes n (put32 lid) (map lock_msg_type (up c n @ [x])) (up_bytes s n @ put_header h @ put32 lid)"
    using old by (simp add: worker_sim_def links_ok_def encodes_snoc)
  with old h n(2) show "worker_sim m lid (move n w p s) c' n"
    by (simp add: worker_sim_def links_ok_def c' p move_def sent_up_def up_bytes_def sent_down_def down_bytes_def)
qed (simp add: move_def c')

text \<open>Each step of the processes is some steps of the cluster, or none.\<close>

abbreviation (input) cluster_steps :: "u32 \<Rightarrow> u32 list \<Rightarrow> cluster \<Rightarrow> cluster \<Rightarrow> bool" where
  "cluster_steps m ws \<equiv> (cluster_step m ws)\<^sup>*\<^sup>*"

lemmas cluster_steps_one = steps_one [where step = "cluster_step m ws"] for m ws
lemmas cluster_steps_two = steps_two [where step = "cluster_step m ws"] for m ws

lemma sim_simD:
  assumes "simulates m ws lid s c" "n \<in> set ws"
  shows "worker_sim m lid s c n" "worker_ok n (proc s n)" "phase c n = pc s n" "wlock c n = lock_at lid (proc s n)"
  using assms by (simp_all add: simulates_def worker_sim_def links_ok_def)

lemma sim_worker_begins:
  assumes sim: "simulates m ws (word_of_int k) s c" and n: "n \<in> set ws" "n \<noteq> m" and k: "0 \<le> k" "k < int DSM_MAX_LOCKS"
    and p: "pc s n = Idle" and call: "dsm_lock_call k (proc s n) = (r, w)"
  shows "\<exists>c'. cluster_steps m ws c c' \<and>
    simulates m ws (word_of_int k) (move n w (if r = Returned then Critical else Waiting) s) c'"
proof -
  note old = sim_simD [OF sim n(1)]
  note eff = worker_call [OF old(2) k call]
  let ?c = "set_phase n Waiting (c\<lparr>up := (up c)(n := up c n @ [Request])\<rparr>)"
  have one: "cluster_step m ws c ?c"
    by (rule cluster_step.lock_call) (simp_all add: n old p)
  have sim': "simulates m ws (word_of_int k) (move n w q s) (set_phase n q ?c)" if "q \<noteq> Releasing" for q
    by (rule simulates_sends [OF sim n, of Request])
       (use eff old(4) that in \<open>simp_all add: set_phase_def fun_upd_idem\<close>)
  show ?thesis
  proof (cases "r = Returned")
    case True
    have "cluster_step m ws ?c (set_phase n Critical ?c)"
      by (rule cluster_step.lock_return) (use True eff old(4) n in \<open>simp_all add: set_phase_def\<close>)
    with one have "cluster_steps m ws c (set_phase n Critical ?c)"
      by (rule cluster_steps_two)
    with sim' [of Critical] True show ?thesis
      by (intro exI [of _ "set_phase n Critical ?c"]) simp
  next
    case False
    have "set_phase n Waiting ?c = ?c"
      by (simp add: set_phase_def)
    with cluster_steps_one [OF one] sim' [of Waiting] False show ?thesis
      by (intro exI [of _ ?c]) simp
  qed
qed

lemma sim_worker_unlocks:
  assumes sim: "simulates m ws (word_of_int k) s c" and n: "n \<in> set ws" "n \<noteq> m" and k: "0 \<le> k" "k < int DSM_MAX_LOCKS"
    and p: "pc s n = Critical"
  shows "\<exists>c'. cluster_steps m ws c c' \<and> simulates m ws (word_of_int k) (move n (dsm_unlock k (proc s n)) Idle s) c'"
proof -
  note old = sim_simD [OF sim n(1)]
  note eff = worker_unlock [OF old(2) k]
  let ?c = "set_phase n Releasing (c\<lparr>up := (up c)(n := up c n @ [Release])\<rparr>)"
  let ?d = "set_phase n Idle (?c\<lparr>wlock := (wlock ?c)(n := lock_cleared (wlock ?c n))\<rparr>)"
  have "cluster_step m ws c ?c"
    by (rule cluster_step.unlock_send) (simp_all add: n old p)
  moreover have "cluster_step m ws ?c ?d"
    by (rule cluster_step.unlock_clear) (simp_all add: n set_phase_def)
  moreover have "simulates m ws (word_of_int k) (move n (dsm_unlock k (proc s n)) Idle s) ?d"
    by (rule simulates_sends [OF sim n, of Release]) (use eff old(4) in \<open>simp_all add: set_phase_def\<close>)
  ultimately show ?thesis
    using cluster_steps_two by blast
qed

lemma sim_worker_returns:
  assumes sim: "simulates m ws lid s c" and n: "n \<in> set ws" "n \<noteq> m"
    and p: "pc s n = Waiting" and r: "dsm_lock_resume lid (proc s n) = (Returned, w)"
  shows "\<exists>c'. cluster_steps m ws c c' \<and> simulates m ws lid (move n w Critical s) c'"
proof -
  note old = sim_simD [OF sim n(1)]
  have w: "w = proc s n" "worker_test n (lock_at lid (proc s n))"
    using r old(2) by (auto simp: dsm_lock_resume_def worker_ok_def worker_linked_def split: if_splits)
  have "cluster_step m ws c (set_phase n Critical c)"
    by (rule cluster_step.lock_return) (use w old p n in simp_all)
  moreover have "simulates m ws lid (move n w Critical s) (set_phase n Critical c)"
  proof (rule simulates_worker [OF sim n(2)])
    show "worker_sim m lid (move n w Critical s) (set_phase n Critical c) n"
      using old(1) n(2) by (simp add: w(1) set_phase_def move_def worker_sim_def links_ok_def sent_up_def sent_down_def
          up_bytes_def down_bytes_def)
  qed (simp_all add: set_phase_def move_def)
  ultimately show ?thesis
    using cluster_steps_one by blast
qed

text \<open>A worker handles one grant, and then reads any number of them.\<close>

lemma sim_worker_handles:
  assumes sim: "simulates m ws lid s c" and n: "n \<in> set ws" "n \<noteq> m" and lid: "unat lid < DSM_MAX_LOCKS"
    and d: "down c n = Suc d" and h: "msg_header m DSM_MSG_LOCK_GRANT 4 h"
    and b: "down_bytes m s n = put_header h @ put32 lid @ rest" "encodes m (put32 lid) (replicate d DSM_MSG_LOCK_GRANT) rest"
    and r: "handle_one (h, put32 lid) buf (proc s n) = Inr w"
  shows "\<exists>c'. cluster_step m ws c c' \<and> down c' n = d \<and> simulates m ws lid (s\<lparr>proc := (proc s)(n := w),
    seen_down := (seen_down s)(n := seen_down s n + lock_msg_size)\<rparr>) c'"
proof -
  note old = sim_simD [OF sim n(1)]
  note eff = worker_handles_grant [OF old(2) lid h r]
  let ?c = "c\<lparr>down := (down c)(n := d), wlock := (wlock c)(n := lock_granted n (wlock c n))\<rparr>"
  have step: "cluster_step m ws c ?c"
    by (rule cluster_step.grant_arrives) (use d n in simp_all)
  have "links_ok m s n"
    using old(1) by (simp add: worker_sim_def links_ok_def)
  note seen = read_on [OF b(1) [unfolded down_bytes_def]]
  have "simulates m ws lid (s\<lparr>proc := (proc s)(n := w),
      seen_down := (seen_down s)(n := seen_down s n + lock_msg_size)\<rparr>) ?c"
    by (intro simulates_worker [OF sim n(2)])
       (use old(1) eff b(2) n(2) seen in \<open>simp_all add: worker_sim_def links_ok_def sent_up_def sent_down_def
          up_bytes_def down_bytes_def\<close>)
  with step show ?thesis
    by (intro exI [of _ ?c]) simp
qed

lemma sim_worker_reads:
  assumes sim: "simulates m ws lid s c" and n: "n \<in> set ws" "n \<noteq> m" and lid: "unat lid < DSM_MAX_LOCKS"
    and b: "down_bytes m s n = bs @ rest" "length bs = Suc j * lock_msg_size"
    and r: "handle_client_data fd [Received bs] buf again (proc s n) = Some (Inr (es, buf', again', w))"
  shows "\<exists>c'. cluster_steps m ws c c' \<and>
    simulates m ws lid (s\<lparr>proc := (proc s)(n := w), seen_down := (seen_down s)(n := seen_down s n + length bs)\<rparr>) c'"
proof -
  let ?s = "\<lambda>v i. s\<lparr>proc := (proc s)(n := v), seen_down := (seen_down s)(n := i)\<rparr>"
  let ?P = "\<lambda>ts pend v. \<exists>c' i. cluster_steps m ws c c' \<and> simulates m ws lid (?s v i) c' \<and>
    ts = replicate (down c' n) DSM_MSG_LOCK_GRANT \<and> down_bytes m (?s v i) n = pend"
  have "?s (proc s n) (seen_down s n) = s"
    by simp
  then have base: "?P (replicate (down c n) DSM_MSG_LOCK_GRANT) (bs @ rest) (proc s n)"
    using sim b(1) by (intro exI [of _ c] exI [of _ "seen_down s n"]) simp
  have enc: "encodes m (put32 lid) (replicate (down c n) DSM_MSG_LOCK_GRANT) (bs @ rest)"
    using sim_simD(1) [OF sim n(1)] b(1) by (simp add: worker_sim_def links_ok_def)
  have "\<exists>ts. ?P ts rest w"
  proof (rule reads_messages [OF r enc, of j ?P])
    fix t ts h r buf u v
    assume P: "?P (t # ts) (put_header h @ put32 lid @ r) u" and h: "msg_header m t (length (put32 lid)) h"
      and e: "encodes m (put32 lid) ts r" and v: "handle_one (h, put32 lid) buf u = Inr v"
    from P obtain c' i where c': "cluster_steps m ws c c'" "simulates m ws lid (?s u i) c'"
      "t # ts = replicate (down c' n) DSM_MSG_LOCK_GRANT" "down_bytes m (?s u i) n = put_header h @ put32 lid @ r"
      by (elim exE conjE) (rule that)
    then obtain d where d: "down c' n = Suc d" "t = DSM_MSG_LOCK_GRANT" "ts = replicate d DSM_MSG_LOCK_GRANT"
      by (cases "down c' n") auto
    have "down_bytes m (?s v (i + lock_msg_size)) n = r"
      using read_on [OF c'(4) [unfolded down_bytes_def]] n(2) by (simp add: down_bytes_def sent_down_def)
    moreover obtain c'' where c'': "cluster_step m ws c' c''" "down c'' n = d" "simulates m ws lid (?s v (i + lock_msg_size)) c''"
      using sim_worker_handles [OF c'(2) n lid d(1) _ c'(4), of buf v] h e v d(2,3) by auto
    ultimately show "?P ts r v"
      using rtranclp.rtrancl_into_rtrancl [OF c'(1) c''(1)] d(3) by blast
  qed (use b base in simp_all)
  then obtain c' i where c': "cluster_steps m ws c c'" "simulates m ws lid (?s w i) c'" "down_bytes m (?s w i) n = rest"
    by blast
  have "i = seen_down s n + length bs"
    using read_count [OF b(1) [unfolded down_bytes_def], of i] c'(3) sim_simD(1) [OF c'(2) n(1)]
      sim_simD(1) [OF sim n(1)] n(2)
    by (simp add: worker_sim_def links_ok_def down_bytes_def sent_down_def)
  with c' show ?thesis by blast
qed

text \<open>The master reads a request or a release.\<close>

lemma release_goes:
  assumes "lock_ok l" "lock_release n l = Some (l', g)" "set (lock_queue l) \<subseteq> set ws"
  shows "set_option g \<subseteq> set ws"
  using lm.release_queue [OF assms(1,2)] assms(3) by (auto split: list.splits)

lemma request_goes:
  assumes "lock_request n l = (l', g)" "n \<in> set ws"
  shows "set_option g \<subseteq> set ws"
  using assms by (auto simp: lock_request_def split: if_splits)

lemma hand_grant_eq:
  "mlock (hand_grant g c) = mlock c" "phase (hand_grant g c) = phase c" "wlock (hand_grant g c) = wlock c"
  "up (hand_grant g c) = up c" "down (hand_grant g c) j = down c j + (if g = Some j then 1 else 0)"
  by (auto simp: hand_grant_def split: option.splits)

lemma sim_master_handles:
  assumes sim: "simulates m ws lid s c" and inv: "cluster_inv m ws c" and m: "m \<notin> set ws" and n: "n \<in> set ws"
    and lid: "unat lid < DSM_MAX_LOCKS" and u: "up c n = x # q" and h: "msg_header n (lock_msg_type x) 4 h"
    and b: "up_bytes s n = put_header h @ put32 lid @ rest" "encodes n (put32 lid) (map lock_msg_type q) rest"
    and r: "handle_one (h, put32 lid) buf (proc s m) = Inr w"
  shows "\<exists>c'. cluster_step m ws c c' \<and> up c' n = q \<and> simulates m ws lid (s\<lparr>proc := (proc s)(m := w),
    seen_up := (seen_up s)(n := seen_up s n + lock_msg_size)\<rparr>) c'"
    (is "\<exists>c'. _ \<and> _ \<and> simulates m ws lid ?s c'")
proof -
  have ok: "master_ok m ws (proc s m)" and ml: "mlock c = lock_at lid (proc s m)"
    and pm: "phase c m = pc s m" "pc s m \<noteq> Releasing"
    using sim by (simp_all add: simulates_def)
  note seen = read_on [OF b(1) [unfolded up_bytes_def]]
  let ?c = "c\<lparr>up := (up c)(n := q)\<rparr>"
  have ups: "seen_up ?s j \<le> length (sent_up s j) \<and>
      encodes j (put32 lid) (map lock_msg_type (up ?c j)) (drop (seen_up ?s j) (sent_up s j))" if "j \<in> set ws" for j
    using seen b(2) sim_simD(1) [OF sim that] by (simp add: worker_sim_def links_ok_def up_bytes_def)
  note master = simulates_master [OF sim m lid, where s' = ?s]
  have grant: "simulates m ws lid ?s (hand_grant g (?c\<lparr>mlock := l\<rparr>))"
    if "w = (case g of None \<Rightarrow> put_lock lid l (proc s m) | Some i \<Rightarrow> send_grant i lid (put_lock lid l (proc s m)))"
      "set_option g \<subseteq> set ws" for l g
    by (rule master [OF that(2), of l]) (use that(1) pm ups in \<open>simp_all add: hand_grant_eq\<close>)
  show ?thesis
  proof (cases x)
    case Request
    obtain l g where lg: "lock_request n (mlock c) = (l, g)"
      by (cases "lock_request n (mlock c)")
    have "cluster_step m ws c (master_request n ?c)"
      by (rule cluster_step.request_arrives) (use u Request n in simp_all)
    moreover have "w = (case g of None \<Rightarrow> put_lock lid l (proc s m) | Some i \<Rightarrow> send_grant i lid (put_lock lid l (proc s m)))"
      using master_handles_request [OF ok lid _ r] h lg Request by (simp add: ml)
    then have "simulates m ws lid ?s (master_request n ?c)"
      using grant request_goes [OF lg n] lg by (simp add: master_request_def)
    moreover have "up (master_request n ?c) n = q"
      using lg by (simp add: master_request_def hand_grant_eq)
    ultimately show ?thesis
      by blast
  next
    case Release
    have step: "cluster_step m ws c (master_release n ?c)"
      by (rule cluster_step.release_arrives) (use u Release n in simp_all)
    have w: "w = snd (dsm_sync_handle_lock_release n lid (proc s m))"
      using master_handles_release [OF ok _ r] h Release by simp
    have "simulates m ws lid ?s (master_release n ?c) \<and> up (master_release n ?c) n = q"
    proof (cases "lock_release n (mlock c)")
      case None
      then have "w = proc s m"
        by (simp add: w release_eq [OF lid] ml)
      moreover have "n \<noteq> m"
        using m n by auto
      ultimately have "simulates m ws lid ?s ?c"
        using seen b(2) sim_simD(1) [OF sim n]
        by (intro simulates_worker [OF sim, of n])
           (simp_all add: worker_sim_def links_ok_def sent_up_def sent_down_def up_bytes_def down_bytes_def)
      with None show ?thesis
        by (simp add: master_release_def)
    next
      case (Some p)
      obtain l g where lg: "lock_release n (mlock c) = Some (l, g)"
        using Some by (cases p) auto
      have "w = (case g of None \<Rightarrow> put_lock lid l (proc s m) | Some i \<Rightarrow> send_grant i lid (put_lock lid l (proc s m)))"
        using lg by (simp add: w release_eq [OF lid] ml)
      moreover have "set_option g \<subseteq> set ws"
        by (rule release_goes [OF _ lg]) (use inv in \<open>simp_all add: cluster_inv_def\<close>)
      ultimately show ?thesis
        using grant lg by (simp add: master_release_def hand_grant_eq)
    qed
    with step show ?thesis
      by blast
  qed
qed

lemma sim_master_reads:
  assumes sim: "simulates m ws lid s c" and inv: "cluster_inv m ws c" and m: "m \<notin> set ws" and n: "n \<in> set ws"
    and lid: "unat lid < DSM_MAX_LOCKS" and b: "up_bytes s n = bs @ rest" "length bs = Suc j * lock_msg_size"
    and r: "handle_client_data fd [Received bs] buf again (proc s m) = Some (Inr (es, buf', again', w))"
  shows "\<exists>c'. cluster_steps m ws c c' \<and>
    simulates m ws lid (s\<lparr>proc := (proc s)(m := w), seen_up := (seen_up s)(n := seen_up s n + length bs)\<rparr>) c'"
proof -
  have ne: "n \<noteq> m"
    using m n by auto
  let ?s = "\<lambda>v i. s\<lparr>proc := (proc s)(m := v), seen_up := (seen_up s)(n := i)\<rparr>"
  let ?P = "\<lambda>ts pend v. \<exists>c' i. cluster_steps m ws c c' \<and> cluster_inv m ws c' \<and> simulates m ws lid (?s v i) c' \<and>
    ts = map lock_msg_type (up c' n) \<and> up_bytes (?s v i) n = pend"
  have "?s (proc s m) (seen_up s n) = s"
    by simp
  then have base: "?P (map lock_msg_type (up c n)) (bs @ rest) (proc s m)"
    using sim inv b(1) by (intro exI [of _ c] exI [of _ "seen_up s n"]) simp
  have enc: "encodes n (put32 lid) (map lock_msg_type (up c n)) (bs @ rest)"
    using sim_simD(1) [OF sim n] b(1) by (simp add: worker_sim_def links_ok_def)
  have "\<exists>ts. ?P ts rest w"
  proof (rule reads_messages [OF r enc, of j ?P])
    fix t ts h r buf u v
    assume P: "?P (t # ts) (put_header h @ put32 lid @ r) u" and h: "msg_header n t (length (put32 lid)) h"
      and e: "encodes n (put32 lid) ts r" and v: "handle_one (h, put32 lid) buf u = Inr v"
    from P obtain c' i where c': "cluster_steps m ws c c'" "cluster_inv m ws c'" "simulates m ws lid (?s u i) c'"
      "t # ts = map lock_msg_type (up c' n)" "up_bytes (?s u i) n = put_header h @ put32 lid @ r"
      by (elim exE conjE) (rule that)
    obtain x q where q: "up c' n = x # q" "t = lock_msg_type x" "ts = map lock_msg_type q"
      using c'(4) by (cases "up c' n") auto
    have "up_bytes (?s v (i + lock_msg_size)) n = r"
      using read_on [OF c'(5) [unfolded up_bytes_def]] ne by (simp add: up_bytes_def sent_up_def)
    moreover have "msg_header n (lock_msg_type x) 4 h" "encodes n (put32 lid) (map lock_msg_type q) r"
      "handle_one (h, put32 lid) buf (proc (?s u i) m) = Inr v"
      using h e v q(2,3) by simp_all
    from sim_master_handles [OF c'(3,2) m n lid q(1) this(1) c'(5) this(2,3)] obtain c'' where
      c'': "cluster_step m ws c' c''" "up c'' n = q" "simulates m ws lid (?s v (i + lock_msg_size)) c''"
      by (elim exE conjE) simp
    moreover have "cluster_inv m ws c''"
      by (rule cluster_inv_step [OF c''(1) m c'(2)])
    ultimately show "?P ts r v"
      using rtranclp.rtrancl_into_rtrancl [OF c'(1) c''(1)] q(3) by blast
  qed (use b base in simp_all)
  then obtain c' i where c': "cluster_steps m ws c c'" "simulates m ws lid (?s w i) c'" "up_bytes (?s w i) n = rest"
    by blast
  have "i = seen_up s n + length bs"
    using read_count [OF b(1) [unfolded up_bytes_def], of i] c'(3) sim_simD(1) [OF c'(2) n]
      sim_simD(1) [OF sim n] ne
    by (simp add: worker_sim_def links_ok_def up_bytes_def sent_up_def)
  with c' show ?thesis by blast
qed

text \<open>The master's own calls.\<close>

lemma sim_master_resume:
  assumes sim: "simulates m ws lid s c" and m: "m \<notin> set ws" and lid: "unat lid < DSM_MAX_LOCKS"
    and p: "phase c m = Waiting" and r: "dsm_lock_resume lid (proc s m) = (Returned, w)"
  shows "cluster_step m ws c (set_phase m Critical (c\<lparr>mlock := lock_at lid w\<rparr>)) \<and>
    simulates m ws lid (move m w Critical s) (set_phase m Critical (c\<lparr>mlock := lock_at lid w\<rparr>))"
proof -
  have ok: "master_ok m ws (proc s m)" and ml: "mlock c = lock_at lid (proc s m)"
    using sim by (simp_all add: simulates_def)
  obtain l where l: "master_test m (mlock c) = Some l" "w = put_lock lid l (proc s m)"
    using r ok by (auto simp: dsm_lock_resume_def master_ok_def master_linked_def ml split: option.splits)
  have at: "lock_at lid w = l"
    using ok lid l(2) by (simp add: master_ok_def master_linked_def lock_at_put_lock)
  have "seen_up s j \<le> length (sent_up s j) \<and> encodes j (put32 lid) (map lock_msg_type (up c j)) (drop (seen_up s j) (sent_up s j))"
    if "j \<in> set ws" for j
    using sim_simD(1) [OF sim that] by (simp add: worker_sim_def links_ok_def up_bytes_def)
  then have "simulates m ws lid (move m w Critical s) (set_phase m Critical (c\<lparr>mlock := l\<rparr>))"
    by (intro simulates_master [OF sim m lid, of None _ l]) (simp_all add: l(2) move_def set_phase_def)
  moreover have "cluster_step m ws c (set_phase m Critical (c\<lparr>mlock := l\<rparr>))"
    by (rule cluster_step.master_return [OF p l(1)])
  ultimately show ?thesis
    by (simp add: at)
qed

lemma master_call_eq:
  assumes "master_ok m ws w" "0 \<le> k" "k < int DSM_MAX_LOCKS"
  shows "dsm_lock_call k w = dsm_lock_resume (word_of_int k) w"
    "dsm_unlock k w = wake (SignalLock (unat (word_of_int k :: u32)))
       (snd (dsm_sync_handle_lock_release m (word_of_int k) w))"
  using assms by (simp_all add: dsm_lock_call_def dsm_unlock_def master_ok_def master_linked_def Let_def)

lemma sim_master_begins:
  assumes sim: "simulates m ws (word_of_int k) s c" and m: "m \<notin> set ws" and k: "0 \<le> k" "k < int DSM_MAX_LOCKS"
    and p: "pc s m = Idle" and call: "dsm_lock_call k (proc s m) = (r, w)"
  shows "\<exists>c'. cluster_steps m ws c c' \<and>
    simulates m ws (word_of_int k) (move m w (if r = Returned then Critical else Waiting) s) c'"
proof -
  have ok: "master_ok m ws (proc s m)" and pm: "phase c m = Idle"
    using sim p by (simp_all add: simulates_def)
  have res: "dsm_lock_resume (word_of_int k) (proc s m) = (r, w)"
    using call master_call_eq(1) [OF ok k] by simp
  have one: "cluster_step m ws c (set_phase m Waiting c)"
    by (rule cluster_step.master_call [OF pm])
  have sim1: "simulates m ws (word_of_int k) (move m (proc s m) Waiting s) (set_phase m Waiting c)"
    by (rule simulates_master_pc [OF sim m]) simp
  show ?thesis
  proof (cases r)
    case Returned
    have "phase (set_phase m Waiting c) m = Waiting" "proc (move m (proc s m) Waiting s) m = proc s m"
      "move m w Critical (move m (proc s m) Waiting s) = move m w Critical s"
      by (simp_all add: set_phase_def move_def)
    with sim_master_resume [OF sim1 m lock_number [OF k]] res Returned cluster_steps_two [OF one] show ?thesis
      by fastforce
  next
    case Blocked
    with res have "w = proc s m"
      by (auto simp: dsm_lock_resume_def split: if_splits option.splits)
    with cluster_steps_one [OF one] sim1 Blocked show ?thesis
      by auto
  qed
qed

lemma sim_master_unlocks:
  assumes sim: "simulates m ws (word_of_int k) s c" and inv: "cluster_inv m ws c" and m: "m \<notin> set ws"
    and k: "0 \<le> k" "k < int DSM_MAX_LOCKS" and p: "pc s m = Critical"
  shows "\<exists>c'. cluster_steps m ws c c' \<and> simulates m ws (word_of_int k) (move m (dsm_unlock k (proc s m)) Idle s) c'"
proof -
  define lid where "lid = (word_of_int k :: u32)"
  have lid: "unat lid < DSM_MAX_LOCKS"
    using lock_number [OF k] by (simp add: lid_def)
  have sim: "simulates m ws lid s c"
    using sim by (simp add: lid_def)
  have ok: "master_ok m ws (proc s m)" and pm: "phase c m = Critical" and ml: "mlock c = lock_at lid (proc s m)"
    using sim p by (simp_all add: simulates_def)
  let ?w = "snd (dsm_sync_handle_lock_release m lid (proc s m))"
  have ups: "seen_up s j \<le> length (sent_up s j) \<and> encodes j (put32 lid) (map lock_msg_type (up c j)) (drop (seen_up s j) (sent_up s j))"
    if "j \<in> set ws" for j
    using sim_simD(1) [OF sim that] by (simp add: worker_sim_def links_ok_def up_bytes_def)
  have "simulates m ws lid (move m ?w Idle s) (set_phase m Idle (master_release m c))"
  proof (cases "lock_release m (mlock c)")
    case None
    then show ?thesis
      using simulates_master_pc [OF sim m, of Idle] by (simp add: release_eq [OF lid] ml master_release_def)
  next
    case (Some q)
    obtain l g where lg: "lock_release m (mlock c) = Some (l, g)"
      using Some by (cases q) auto
    have "set_option g \<subseteq> set ws"
      by (rule release_goes [OF _ lg]) (use inv in \<open>simp_all add: cluster_inv_def\<close>)
    from simulates_master [OF sim m lid this, of "move m ?w Idle s" l "set_phase m Idle (hand_grant g (c\<lparr>mlock := l\<rparr>))"]
    show ?thesis
      using lg ups by (simp add: move_def set_phase_def hand_grant_eq release_eq [OF lid] ml master_release_def)
  qed
  then have "simulates m ws lid (move m (dsm_unlock k (proc s m)) Idle s) (set_phase m Idle (master_release m c))"
    unfolding master_call_eq(2) [OF ok k] lid_def by (rule simulates_wake)
  moreover have "cluster_step m ws c (set_phase m Idle (master_release m c))"
    by (rule cluster_step.master_unlock [OF pm])
  ultimately show ?thesis
    using cluster_steps_one unfolding lid_def by blast
qed

lemma system_simulates:
  assumes st: "system_step m ws k s s'" and sim: "simulates m ws (word_of_int k) s c" and inv: "cluster_inv m ws c"
    and m: "m \<notin> set ws" and k: "0 \<le> k" "k < int DSM_MAX_LOCKS"
  shows "\<exists>c'. cluster_steps m ws c c' \<and> simulates m ws (word_of_int k) s' c'"
proof -
  have ne: "n \<noteq> m" if "n \<in> set ws" for n
    using m that by auto
  note lid = lock_number [OF k]
  from st show ?thesis
  proof cases
    case (lock_begins n r w)
    then show ?thesis
      using sim_worker_begins [OF sim _ ne k] sim_master_begins [OF sim m k] by (cases "n = m") auto
  next
    case (lock_returns n w)
    show ?thesis
    proof (cases "n = m")
      case True
      then have "phase c m = Waiting"
        using lock_returns sim by (simp add: simulates_def)
      from sim_master_resume [OF sim m lid this] lock_returns True cluster_steps_one show ?thesis
        by blast
    next
      case False
      with lock_returns sim_worker_returns [OF sim] show ?thesis
        by auto
    qed
  next
    case (unlock n)
    then show ?thesis
      using sim_worker_unlocks [OF sim _ ne k] sim_master_unlocks [OF sim inv m k] by (cases "n = m") auto
  next
    case (master_reads n bs rest fd buf again es buf' again' w)
    then show ?thesis
      using sim_master_reads [OF sim inv m _ lid] by auto
  next
    case (worker_reads n bs rest fd buf again es buf' again' w)
    then show ?thesis
      using sim_worker_reads [OF sim _ ne lid] by auto
  qed
qed

lemma start_simulates:
  assumes "system_start m ws k s"
  shows "\<exists>c. cluster_start c \<and> simulates m ws (word_of_int k) s c"
proof -
  let ?lid = "word_of_int k :: u32"
  let ?c = "\<lparr>mlock = lock_at ?lid (proc s m), wlock = (\<lambda>n. if n \<in> set ws then lock_at ?lid (proc s n) else zero_lock),
    phase = (\<lambda>_. Idle), up = (\<lambda>_. []), down = (\<lambda>_. 0)\<rparr>"
  have "cluster_start ?c"
    using assms by (simp add: cluster_start_def system_start_def zero_lock_def)
  moreover have "simulates m ws ?lid s ?c"
    using assms by (simp add: simulates_def worker_sim_def links_ok_def system_start_def)
  ultimately show ?thesis by blast
qed

interpretation lock_sim: forward_simulation cluster_start "cluster_step m ws"
  "\<lambda>s. m \<notin> set ws \<longrightarrow>
     cluster_inv m ws s \<and> (length ws \<le> DSM_MAX_NODES \<longrightarrow> (\<forall>k \<in> set ws. served s k))"
  "system_start m ws k" "system_step m ws k"
  "\<lambda>s c. m \<notin> set ws \<and> 0 \<le> k \<and> k < int DSM_MAX_LOCKS \<and> simulates m ws (word_of_int k) s c"
proof unfold_locales
  fix s assume "system_start m ws k s"
  then show "\<exists>a. cluster_start a \<and> m \<notin> set ws \<and> 0 \<le> k \<and> k < int DSM_MAX_LOCKS \<and> simulates m ws (word_of_int k) s a"
    using start_simulates [of m ws k s] by (simp add: system_start_def)
next
  fix s s' c
  assume "system_step m ws k s s'" "m \<notin> set ws \<and> 0 \<le> k \<and> k < int DSM_MAX_LOCKS \<and> simulates m ws (word_of_int k) s c"
    "m \<notin> set ws \<longrightarrow> cluster_inv m ws c \<and> (length ws \<le> DSM_MAX_NODES \<longrightarrow> (\<forall>k \<in> set ws. served c k))"
  then show "\<exists>a'. (cluster_step m ws)\<^sup>*\<^sup>* c a' \<and>
      m \<notin> set ws \<and> 0 \<le> k \<and> k < int DSM_MAX_LOCKS \<and> simulates m ws (word_of_int k) s' a'"
    using system_simulates [of m ws k s s' c] by blast
qed

lemma system_runs_cluster:
  assumes "system_reach m ws k s"
  shows "m \<notin> set ws \<and> (\<exists>c. cluster_reach m ws c \<and> simulates m ws (word_of_int k) s c)"
  using lock_sim.rel_reach [OF assms] by blast

section \<open>Properties\<close>

text \<open>
  C1. Mutual exclusion across the machines: the nodes run \<^verbatim>\<open>dsm_lock\<close>, \<^verbatim>\<open>dsm_unlock\<close> and their server
  threads, and talk only by the bytes they send. Whatever the order in which threads run and bytes are
  delivered, no two nodes, the master included, hold a lock at once, and the one that holds it is the
  one the master's record names.
\<close>

theorem lock_mutual_exclusion:
  assumes "system_reach m ws k s"
    and "a \<in> set (m # ws)" "b \<in> set (m # ws)" "pc s a = Critical" "pc s b = Critical"
  shows "a = b \<and> lock_holder (lock_at (word_of_int k) (proc s m)) = Some a"
proof -
  obtain c where c: "cluster_reach m ws c" "simulates m ws (word_of_int k) s c" "m \<notin> set ws"
    using system_runs_cluster [OF assms(1)] by blast
  have "lock_holder (lock_at (word_of_int k) (proc s m)) = Some n" if "n \<in> set (m # ws)" "pc s n = Critical" for n
  proof -
    have "phase c n = Critical" "mlock c = lock_at (word_of_int k) (proc s m)"
      using c(2) that by (auto simp: simulates_def worker_sim_def links_ok_def)
    with cluster_holder [OF c(1,3)] show ?thesis by simp
  qed
  from this [OF assms(2,4)] this [OF assms(3,5)] show ?thesis by simp
qed

text \<open>
  C2. The processes implement the protocol: a state the processes reach shows, at every node, the lock
  record and the phase of a state the cluster reaches, and the bytes that no server thread has read yet
  are the messages in flight there, in their order, each a header and the number of the lock.
\<close>

theorem lock_system_refines:
  assumes "system_reach m ws k s"
  shows "\<exists>c. cluster_reach m ws c \<and> mlock c = lock_at (word_of_int k) (proc s m) \<and> phase c m = pc s m \<and>
    (\<forall>n \<in> set ws. wlock c n = lock_at (word_of_int k) (proc s n) \<and> phase c n = pc s n \<and>
       encodes n (put32 (word_of_int k)) (map lock_msg_type (up c n)) (up_bytes s n) \<and>
       encodes m (put32 (word_of_int k)) (replicate (down c n) DSM_MSG_LOCK_GRANT) (down_bytes m s n))"
proof -
  obtain c where "cluster_reach m ws c" "simulates m ws (word_of_int k) s c"
    using system_runs_cluster [OF assms] by blast
  then show ?thesis
    by (intro exI [of _ c]) (simp add: simulates_def worker_sim_def links_ok_def)
qed

text \<open>
  C8. No worker starves in silence: with at most 64 workers, when every byte sent has been read, no
  node holds the lock, and no thread that waits in \<^verbatim>\<open>dsm_lock\<close> on a worker would return if it looked
  again, then no worker is waiting at all. So a request is never lost and the lock cannot get stuck.
\<close>

theorem lock_no_deadlock:
  assumes "system_reach m ws k s" "length ws \<le> DSM_MAX_NODES"
    and "\<forall>n \<in> set ws. up_bytes s n = [] \<and> down_bytes m s n = []" "\<forall>n \<in> set (m # ws). pc s n \<noteq> Critical"
    and "\<forall>n \<in> set ws. pc s n = Waiting \<longrightarrow> fst (dsm_lock_resume (word_of_int k) (proc s n)) = Blocked"
  shows "\<forall>n \<in> set ws. pc s n = Idle"
proof -
  obtain c where c: "cluster_reach m ws c" "simulates m ws (word_of_int k) s c" "m \<notin> set ws"
    using system_runs_cluster [OF assms(1)] by blast
  have quiet: "up c n = [] \<and> down c n = 0 \<and> phase c n \<noteq> Critical \<and> phase c n \<noteq> Releasing \<and> phase c n = pc s n"
    if "n \<in> set ws" for n
    using sim_simD(1) [OF c(2) that] assms(3,4) that by (auto simp: worker_sim_def links_ok_def encodes_empty)
  have "\<not> worker_test n (wlock c n)" if "n \<in> set ws" "phase c n = Waiting" for n
    using sim_simD [OF c(2) that(1)] assms(5) that
    by (auto simp: dsm_lock_resume_def worker_ok_def worker_linked_def split: if_splits)
  moreover have "phase c m \<noteq> Critical"
    using c(2) assms(4) by (simp add: simulates_def)
  ultimately have "\<forall>n \<in> set ws. phase c n = Idle"
    using quiet by (intro cluster_no_deadlock [OF c(1,3) assms(2)] ballI impI) blast+
  with quiet show ?thesis by metis
qed

subsection \<open>Concrete runs\<close>

definition demo_system :: system where
  "demo_system = \<lparr>proc = demo_processes, seen_up = (\<lambda>n. length (sent (demo_processes n) 5)),
     seen_down = (\<lambda>n. length (sent (demo_processes 1) (the (node_socket n (demo_processes 1))))),
     pc = (\<lambda>_. Idle)\<rparr>"

lemma demo_system_start: "system_start 1 [2, 3] 0 demo_system"
  by (simp add: system_start_def links_ok_def master_ok_def master_linked_def worker_ok_def worker_linked_def
      demo_system_def demo_process     demo_sockets demo_lock up_bytes_def down_bytes_def sent_up_def sent_down_def)
     (simp add: zero_lock_def lock_ok_def)

theorem lock_mutual_exclusion_witness:
  "\<exists>s. system_reach 1 [2, 3] 0 s \<and> pc s 1 = Critical \<and> pc s 2 \<noteq> Critical \<and> pc s 3 \<noteq> Critical"
proof -
  obtain r w where call: "dsm_lock_call 0 (proc demo_system 1) = (r, w)"
    by (cases "dsm_lock_call 0 (proc demo_system 1)")
  then have "r = Returned"
    by (simp add: demo_system_def dsm_lock_call_def dsm_lock_resume_def demo_process demo_lock)
       (simp add: zero_lock_def master_test_def split: if_splits)
  with system_step.lock_begins [OF _ _ call, of 1 "[2, 3]"]
  have "system_step 1 [2, 3] 0 demo_system (move 1 w Critical demo_system)"
    by (simp add: demo_system_def)
  then have s: "system_reach 1 [2, 3] 0 (move 1 w Critical demo_system)" (is "system_reach _ _ _ ?s")
    by (rule system_reach_step [OF system_reach_start [OF demo_system_start]])
  have "pc ?s 1 = Critical"
    by (simp add: move_def)
  with s lock_mutual_exclusion [OF s, of 1 2] lock_mutual_exclusion [OF s, of 1 3] show ?thesis
    by (intro exI [of _ ?s]) auto
qed

text \<open>A worker that has asked: its thread waits, and its request is on the way.\<close>

lemma demo_asked:
  "\<exists>w. system_reach 1 [2, 3] 0 (move 2 w Waiting demo_system) \<and>
    (\<exists>h. up_bytes (move 2 w Waiting demo_system) 2 = put_header h @ put32 0)"
proof -
  have start: "up_bytes demo_system 2 = []" "worker_ok 2 (proc demo_system 2)" "links_ok 1 demo_system 2"
    "\<not> locked (lock_at (word_of_int 0) (proc demo_system 2))"
    using demo_system_start by (simp_all add: system_start_def)
  obtain r w where call: "dsm_lock_call 0 (proc demo_system 2) = (r, w)"
    by (cases "dsm_lock_call 0 (proc demo_system 2)")
  then have "r \<noteq> Returned" "sends 2 (word_of_int 0) DSM_MSG_LOCK_REQUEST (proc demo_system 2) w"
    using worker_call [OF start(2) _ _ call] start(4) by (simp_all add: worker_test_def)
  then have w: "dsm_lock_call 0 (proc demo_system 2) = (Blocked, w)"
    "sends 2 (word_of_int 0) DSM_MSG_LOCK_REQUEST (proc demo_system 2) w"
    using call by (cases r; simp)+
  let ?s = "move 2 w Waiting demo_system"
  have "system_step 1 [2, 3] 0 demo_system ?s"
    using system_step.lock_begins [OF _ _ w(1), of 1 "[2, 3]"] by (simp add: demo_system_def)
  then have "system_reach 1 [2, 3] 0 ?s"
    by (rule system_reach_step [OF system_reach_start [OF demo_system_start]])
  moreover obtain h where "sent w (master_fd (ctx w)) =
      sent (proc demo_system 2) (master_fd (ctx (proc demo_system 2))) @ put_header h @ put32 (word_of_int 0)"
    using w(2) by (auto simp: sends_def)
  then have "up_bytes ?s 2 = put_header h @ put32 0"
    using start(1,3) by (simp add: up_bytes_def sent_up_def links_ok_def move_def)
  ultimately show ?thesis
    by blast
qed

theorem lock_system_refines_witness:
  "\<exists>s c. system_reach 1 [2, 3] 0 s \<and> pc s 2 = Waiting \<and> cluster_reach 1 [2, 3] c \<and> phase c 2 = Waiting \<and>
    up c 2 \<noteq> [] \<and> phase c 3 = Idle \<and> up c 3 = []"
proof -
  obtain w h where w: "system_reach 1 [2, 3] 0 (move 2 w Waiting demo_system)"
    "up_bytes (move 2 w Waiting demo_system) 2 = put_header h @ put32 0"
    using demo_asked by blast
  let ?s = "move 2 w Waiting demo_system"
  have other: "up_bytes ?s 3 = []" "pc ?s 2 = Waiting" "pc ?s 3 = Idle"
    using demo_system_start by (simp_all add: system_start_def up_bytes_def sent_up_def move_def)
  have "up_bytes ?s 2 \<noteq> []"
    unfolding w(2) by (metis append_is_Nil_conv length_put_header list.size(3) zero_neq_numeral)
  with lock_system_refines [OF w(1)] w(1) other show ?thesis
    by (intro exI [of _ ?s]) (auto simp: encodes_empty)
qed

theorem lock_no_deadlock_witness:
  "system_reach 1 [2, 3] 0 demo_system \<and> pc demo_system 2 = Idle \<and> pc demo_system 3 = Idle"
proof -
  have s: "system_reach 1 [2, 3] 0 demo_system"
    by (rule system_reach_start [OF demo_system_start])
  have "\<forall>n \<in> set [2, 3]. up_bytes demo_system n = [] \<and> down_bytes 1 demo_system n = []"
    using demo_system_start by (simp add: system_start_def)
  then show ?thesis
    using s lock_no_deadlock [OF s] by (simp add: demo_system_def)
qed

end
