(* ===== verification/DsmBarrier.thy ===== *)
theory DsmBarrier
  imports DsmSync
begin

text \<open>
  The barrier across the machines: the master's record, the phase of the application thread of each
  node, and the messages in flight. Every step runs the code of one node and is made of the operations
  of \<open>DsmSync\<close> on \<^verbatim>\<open>dsm_barrier_t\<close>; a \<^verbatim>\<open>BARRIER_RELEASE\<close> does nothing on a worker but wake the thread
  that waits. One thread per node uses the barrier, the node table holds exactly these nodes and
  connections stay up. \<open>rounds\<close>, \<open>issued\<close>, \<open>entered\<close> and \<open>passed\<close> are counters of the model: rounds
  released, and per node the releases sent to it and the calls of \<^verbatim>\<open>dsm_barrier\<close> that have arrived and that
  have returned.
\<close>

section \<open>The state and its steps\<close>

text \<open>
  \<open>Arrived\<close>: \<^verbatim>\<open>dsm_barrier\<close> has sent or recorded the arrival and does not wait yet; \<open>Awake\<close>: its
  \<^verbatim>\<open>pthread_cond_wait\<close> has been woken and it does not have the mutex yet.
\<close>

datatype bphase = Outside | Arrived | Asleep | Awake

record barrier_net =
  mbar :: dsm_barrier
  bphase :: "u32 \<Rightarrow> bphase"
  current :: u32
  enters :: "u32 \<Rightarrow> nat"
  releases :: "u32 \<Rightarrow> nat"
  rounds :: nat
  issued :: "u32 \<Rightarrow> nat"
  entered :: "u32 \<Rightarrow> nat"
  passed :: "u32 \<Rightarrow> nat"

definition to_phase :: "u32 \<Rightarrow> bphase \<Rightarrow> barrier_net \<Rightarrow> barrier_net" where
  "to_phase n p s = s\<lparr>bphase := (bphase s)(n := p)\<rparr>"

definition enter :: "u32 \<Rightarrow> barrier_net \<Rightarrow> barrier_net" where
  "enter n s = to_phase n Arrived (s\<lparr>entered := (entered s)(n := Suc (entered s n))\<rparr>)"

definition leave :: "u32 \<Rightarrow> barrier_net \<Rightarrow> barrier_net" where
  "leave n s = to_phase n Outside (s\<lparr>passed := (passed s)(n := Suc (passed s n))\<rparr>)"

text \<open>A broadcast reaches the thread of a node only while that thread waits.\<close>

definition awaken :: "u32 \<Rightarrow> barrier_net \<Rightarrow> barrier_net" where
  "awaken n s = (if bphase s n = Asleep then to_phase n Awake s else s)"

text \<open>The release of a round by the master \<open>m\<close>: a message to each arrival but itself, and a broadcast.\<close>

definition release_round :: "u32 \<Rightarrow> u32 list option \<Rightarrow> barrier_net \<Rightarrow> barrier_net" where
  "release_round m r s =
     (case r of None \<Rightarrow> s
      | Some ns \<Rightarrow> awaken m (s\<lparr>rounds := Suc (rounds s),
          releases := (\<lambda>k. releases s k + (if k = m then 0 else count_list ns k)),
          issued := (\<lambda>k. issued s k + (if k = m then 0 else count_list ns k))\<rparr>))"

definition arrival :: "u32 \<Rightarrow> u32 list \<Rightarrow> u32 \<Rightarrow> barrier_net \<Rightarrow> crash + barrier_net" where
  "arrival m ws n s =
     (case barrier_enter n (word_of_nat (Suc (length ws))) (mbar s) of
        Inl e \<Rightarrow> Inl e
      | Inr (b, r) \<Rightarrow> Inr (release_round m r (s\<lparr>mbar := b\<rparr>)))"

text \<open>What the master does each time it has the mutex in \<^verbatim>\<open>dsm_barrier\<close>.\<close>

definition master_look :: "u32 \<Rightarrow> barrier_net \<Rightarrow> barrier_net" where
  "master_look m s =
     (if barrier_blocked (current s) (mbar s) then to_phase m Asleep s else leave m s)"

text \<open>The steps, for a master \<open>m\<close> and workers \<open>ws\<close>; the nodes of \<open>sp\<close> can have spurious wake-ups.\<close>

inductive barrier_step :: "u32 \<Rightarrow> u32 list \<Rightarrow> u32 set \<Rightarrow> barrier_net \<Rightarrow> barrier_net \<Rightarrow> bool"
  for m ws sp where
  worker_enter: "n \<in> set ws \<Longrightarrow> bphase s n = Outside \<Longrightarrow>
    barrier_step m ws sp s (enter n (s\<lparr>enters := (enters s)(n := Suc (enters s n))\<rparr>))"
| worker_wait: "n \<in> set ws \<Longrightarrow> bphase s n = Arrived \<Longrightarrow> barrier_step m ws sp s (to_phase n Asleep s)"
| worker_return: "n \<in> set ws \<Longrightarrow> bphase s n = Awake \<Longrightarrow> barrier_step m ws sp s (leave n s)"
| enter_arrives: "n \<in> set ws \<Longrightarrow> enters s n = Suc k \<Longrightarrow>
    arrival m ws n (s\<lparr>enters := (enters s)(n := k)\<rparr>) = Inr s' \<Longrightarrow> barrier_step m ws sp s s'"
| release_arrives: "n \<in> set ws \<Longrightarrow> releases s n = Suc k \<Longrightarrow>
    barrier_step m ws sp s (awaken n (s\<lparr>releases := (releases s)(n := k)\<rparr>))"
| master_enter: "bphase s m = Outside \<Longrightarrow> arrival m ws m s = Inr s' \<Longrightarrow>
    barrier_step m ws sp s (enter m s')"
| master_wait: "bphase s m = Arrived \<Longrightarrow>
    barrier_step m ws sp s (master_look m (s\<lparr>current := barrier_id (mbar s)\<rparr>))"
| master_retest: "bphase s m = Awake \<Longrightarrow> barrier_step m ws sp s (master_look m s)"
| spurious: "n \<in> sp \<Longrightarrow> n \<in> set (m # ws) \<Longrightarrow> bphase s n = Asleep \<Longrightarrow> barrier_step m ws sp s (to_phase n Awake s)"

definition barrier_start :: "barrier_net \<Rightarrow> bool" where
  "barrier_start s \<longleftrightarrow> length (arrived (mbar s)) = DSM_MAX_NODES \<and> arrived_count (mbar s) = 0 \<and>
     barrier_id (mbar s) = 0 \<and> rounds s = 0 \<and>
     (\<forall>n. bphase s n = Outside \<and> enters s n = 0 \<and> releases s n = 0 \<and> issued s n = 0 \<and> entered s n = 0 \<and> passed s n = 0)"

abbreviation barrier_reach :: "u32 \<Rightarrow> u32 list \<Rightarrow> u32 set \<Rightarrow> barrier_net \<Rightarrow> bool" where
  "barrier_reach m ws sp \<equiv> reachable barrier_start (barrier_step m ws sp)"

lemmas barrier_reach_start = reach_start [where init = barrier_start and step = "barrier_step m ws sp"] for m ws sp
lemmas barrier_reach_step = reach_step [where step = "barrier_step m ws sp"] for m ws sp

text \<open>The clusters the theorems speak of: at most 64 nodes, all different.\<close>

definition barrier_nodes :: "u32 \<Rightarrow> u32 list \<Rightarrow> bool" where
  "barrier_nodes m ws \<longleftrightarrow> distinct (m # ws) \<and> length ws < DSM_MAX_NODES"

section \<open>The invariant\<close>

text \<open>
  Where the arrivals of a node are: in a released round, in the record of the master or on their way;
  and where the releases it is owed are.
\<close>

definition node_inv :: "u32 \<Rightarrow> barrier_net \<Rightarrow> u32 \<Rightarrow> bool" where
  "node_inv m s n \<longleftrightarrow>
     entered s n = rounds s + count_list (barrier_arrivals (mbar s)) n + enters s n \<and>
     entered s n = passed s n + (if bphase s n = Outside then 0 else 1) \<and>
     passed s n + releases s n + (if bphase s n = Awake \<and> n \<noteq> m then 1 else 0) \<le> rounds s \<and>
     (n \<noteq> m \<longrightarrow> issued s n = rounds s)"

definition master_inv :: "u32 \<Rightarrow> barrier_net \<Rightarrow> bool" where
  "master_inv m s \<longleftrightarrow> enters s m = 0 \<and> releases s m = 0 \<and>
     (bphase s m = Asleep \<or> bphase s m = Awake \<longrightarrow>
      0 < count_list (barrier_arrivals (mbar s)) m \<longrightarrow> current s = barrier_id (mbar s))"

definition barrier_inv :: "u32 \<Rightarrow> u32 list \<Rightarrow> barrier_net \<Rightarrow> bool" where
  "barrier_inv m ws s \<longleftrightarrow> barrier_ok (mbar s) \<and> (\<forall>n \<in> set (m # ws). node_inv m s n) \<and> master_inv m s \<and>
     set (barrier_arrivals (mbar s)) \<subseteq> set (m # ws) \<and>
     unat (arrived_count (mbar s)) \<le> length ws \<and> barrier_id (mbar s) = word_of_nat (rounds s)"

lemma length_barrier_arrivals: "barrier_ok b \<Longrightarrow> length (barrier_arrivals b) = unat (arrived_count b)"
  by (simp add: barrier_ok_def barrier_arrivals_def)

lemma count_word: "length ws < DSM_MAX_NODES \<Longrightarrow> unat (word_of_nat (Suc (length ws)) :: u32) = Suc (length ws)"
  by (simp add: unat_of_nat del: of_nat_Suc)

lemma arrival_eq:
  "barrier_enter n (word_of_nat (Suc (length ws))) (mbar s) = Inr (b, r) \<Longrightarrow>
   arrival m ws n s = Inr (release_round m r (s\<lparr>mbar := b\<rparr>))"
  by (simp only: arrival_def sum.case prod.case)

lemma arrival_last:
  assumes "barrier_ok (mbar s)" "length ws < DSM_MAX_NODES" "length (barrier_arrivals (mbar s)) = length ws"
  shows "\<exists>b. barrier_ok b \<and> barrier_arrivals b = [] \<and> arrived_count b = 0 \<and>
    barrier_id b = barrier_id (mbar s) + 1 \<and>
    arrival m ws n s = Inr (release_round m (Some (barrier_arrivals (mbar s) @ [n])) (s\<lparr>mbar := b\<rparr>))"
proof -
  note c = count_word [OF assms(2)]
  have full: "unat (word_of_nat (Suc (length ws)) :: u32) \<le> Suc (unat (arrived_count (mbar s)))"
    and le: "unat (word_of_nat (Suc (length ws)) :: u32) \<le> DSM_MAX_NODES"
    unfolding c using assms by (simp_all add: length_barrier_arrivals)
  from barrier_enter_cases [OF assms(1) le, of n, unfolded if_P [OF full]] obtain b where
    b: "barrier_ok b" "barrier_arrivals b = []" "arrived_count b = 0" "barrier_id b = barrier_id (mbar s) + 1"
    and e: "barrier_enter n (word_of_nat (Suc (length ws))) (mbar s) = Inr (b, Some (barrier_arrivals (mbar s) @ [n]))"
    by blast
  from b arrival_eq [OF e] show ?thesis by blast
qed

lemma arrival_more:
  assumes "barrier_ok (mbar s)" "length ws < DSM_MAX_NODES" "length (barrier_arrivals (mbar s)) < length ws"
  shows "\<exists>b. barrier_ok b \<and> barrier_arrivals b = barrier_arrivals (mbar s) @ [n] \<and>
    unat (arrived_count b) = Suc (unat (arrived_count (mbar s))) \<and> barrier_id b = barrier_id (mbar s) \<and>
    arrival m ws n s = Inr (s\<lparr>mbar := b\<rparr>)"
proof -
  note c = count_word [OF assms(2)]
  have more: "\<not> unat (word_of_nat (Suc (length ws)) :: u32) \<le> Suc (unat (arrived_count (mbar s)))"
    and le: "unat (word_of_nat (Suc (length ws)) :: u32) \<le> DSM_MAX_NODES"
    unfolding c using assms by (simp_all add: length_barrier_arrivals)
  from barrier_enter_cases [OF assms(1) le, of n, unfolded if_not_P [OF more]] obtain b where
    b: "barrier_ok b" "barrier_arrivals b = barrier_arrivals (mbar s) @ [n]"
      "unat (arrived_count b) = Suc (unat (arrived_count (mbar s)))" "barrier_id b = barrier_id (mbar s)"
    and e: "barrier_enter n (word_of_nat (Suc (length ws))) (mbar s) = Inr (b, None)"
    by blast
  have "arrival m ws n s = Inr (s\<lparr>mbar := b\<rparr>)"
    using arrival_eq [OF e, of m] by (simp only: release_round_def option.case)
  with b show ?thesis by blast
qed

lemma release_round_eq:
  "mbar (release_round m (Some ns) s) = mbar s" "current (release_round m (Some ns) s) = current s"
  "enters (release_round m (Some ns) s) = enters s" "entered (release_round m (Some ns) s) = entered s"
  "passed (release_round m (Some ns) s) = passed s" "rounds (release_round m (Some ns) s) = Suc (rounds s)"
  "releases (release_round m (Some ns) s) k = releases s k + (if k = m then 0 else count_list ns k)"
  "issued (release_round m (Some ns) s) k = issued s k + (if k = m then 0 else count_list ns k)"
  "bphase (release_round m (Some ns) s) k =
     (if k = m \<and> bphase s m = Asleep then Awake else bphase s k)"
  by (simp_all add: release_round_def awaken_def to_phase_def)

text \<open>What holds of the master's record however the threads wake up.\<close>

definition record_inv :: "u32 \<Rightarrow> u32 list \<Rightarrow> barrier_net \<Rightarrow> bool" where
  "record_inv m ws s \<longleftrightarrow> barrier_ok (mbar s) \<and> set (barrier_arrivals (mbar s)) \<subseteq> set (m # ws) \<and>
     unat (arrived_count (mbar s)) \<le> length ws"

lemma record_inv_arrival:
  assumes inv: "record_inv m ws s" and ws: "length ws < DSM_MAX_NODES" and n: "n \<in> set (m # ws)"
    and a: "arrival m ws n s = Inr s'"
  shows "record_inv m ws s'"
proof -
  have ok: "barrier_ok (mbar s)" "set (barrier_arrivals (mbar s)) \<subseteq> set (m # ws)"
    "unat (arrived_count (mbar s)) \<le> length ws"
    using inv by (simp_all add: record_inv_def)
  note len = length_barrier_arrivals [OF ok(1)]
  show ?thesis
  proof (cases "length (barrier_arrivals (mbar s)) = length ws")
    case True
    from arrival_last [OF ok(1) ws True, of m n] a show ?thesis
      by (auto simp: record_inv_def release_round_eq(1))
  next
    case False
    then have "length (barrier_arrivals (mbar s)) < length ws"
      using ok(3) len by simp
    with arrival_more [OF ok(1) ws this, of n m] a ok(2) n len show ?thesis
      by (auto simp: record_inv_def)
  qed
qed

lemma record_inv_step:
  assumes st: "barrier_step m ws sp s s'" and nodes: "barrier_nodes m ws" and inv: "record_inv m ws s"
  shows "record_inv m ws s'"
proof -
  have ws: "length ws < DSM_MAX_NODES"
    using nodes by (simp add: barrier_nodes_def)
  have same: "record_inv m ws t" if "mbar t = mbar s" for t
    using inv that by (simp add: record_inv_def)
  from st show ?thesis
  proof cases
    case (enter_arrives n k)
    with record_inv_arrival [OF same ws _ enter_arrives(3)] show ?thesis
      by simp
  next
    case (master_enter t)
    with record_inv_arrival [OF inv ws _ master_enter(3)] show ?thesis
      by (simp add: record_inv_def enter_def to_phase_def)
  qed (auto intro!: same simp: enter_def leave_def to_phase_def awaken_def master_look_def)
qed

lemma record_inv_start: "barrier_start s \<Longrightarrow> record_inv m ws s"
  by (simp add: barrier_start_def record_inv_def barrier_ok_def barrier_arrivals_def)

interpretation bar_record: inductive_invariant barrier_start "barrier_step m ws sp"
  "\<lambda>s. barrier_nodes m ws \<longrightarrow> record_inv m ws s"
  by unfold_locales (auto simp: record_inv_start intro: record_inv_step)

text \<open>
  An arrival reaches the record. The state is one in which node \<open>n\<close> has an arrival that is nowhere:
  with one message more it would satisfy the invariant.
\<close>

definition in_hand :: "u32 \<Rightarrow> u32 list \<Rightarrow> u32 \<Rightarrow> barrier_net \<Rightarrow> bool" where
  "in_hand m ws n s \<longleftrightarrow> barrier_ok (mbar s) \<and> barrier_nodes m ws \<and> n \<in> set (m # ws) \<and>
     (\<forall>k \<in> set (m # ws). node_inv m (s\<lparr>enters := (enters s)(n := Suc (enters s n))\<rparr>) k) \<and>
     master_inv m s \<and> (n = m \<longrightarrow> bphase s m = Arrived) \<and>
     set (barrier_arrivals (mbar s)) \<subseteq> set (m # ws) \<and>
     unat (arrived_count (mbar s)) \<le> length ws \<and> barrier_id (mbar s) = word_of_nat (rounds s)"

lemma in_hand_arrivals:
  assumes h: "in_hand m ws n s" and k: "k \<in> set (m # ws)"
  shows "count_list (barrier_arrivals (mbar s)) k \<le> (if k = n then 0 else 1)"
proof -
  have "node_inv m (s\<lparr>enters := (enters s)(n := Suc (enters s n))\<rparr>) k"
    using h k unfolding in_hand_def by blast
  then show ?thesis
    by (auto simp: node_inv_def split: if_splits)
qed

lemma in_hand_full:
  assumes h: "in_hand m ws n s" and l: "length (barrier_arrivals (mbar s)) = length ws"
    and k: "k \<in> set (m # ws)"
  shows "count_list (barrier_arrivals (mbar s)) k + (if k = n then 1 else 0) = 1"
proof -
  let ?xs = "barrier_arrivals (mbar s) @ [n]"
  have sub: "set (barrier_arrivals (mbar s)) \<subseteq> set (m # ws)" and n: "n \<in> set (m # ws)"
    and d: "distinct (m # ws)"
    using h unfolding in_hand_def barrier_nodes_def by blast+
  have "count_list ?xs x \<le> 1" if "x \<in> set ?xs" for x
    using in_hand_arrivals [OF h, of x] that sub n by (auto split: if_splits)
  then have "distinct ?xs"
    by (rule distinct_if_count_le_1)
  then have "count_list ?xs k = 1"
    by (rule count_list_full [OF _ d]) (use sub n l k in auto)
  then show ?thesis by (auto split: if_splits)
qed

lemma arrival_inv:
  assumes h: "in_hand m ws n s"
  shows "\<exists>s'. arrival m ws n s = Inr s' \<and> barrier_inv m ws s'"
proof -
  have ok: "barrier_ok (mbar s)" and nodes: "barrier_nodes m ws" and le: "unat (arrived_count (mbar s)) \<le> length ws"
    and n: "n \<in> set (m # ws)" and id: "barrier_id (mbar s) = word_of_nat (rounds s)"
    and mi: "master_inv m s" "n = m \<Longrightarrow> bphase s m = Arrived"
    and sub: "set (barrier_arrivals (mbar s)) \<subseteq> set (m # ws)"
    using h unfolding in_hand_def by blast+
  have inv: "node_inv m (s\<lparr>enters := (enters s)(n := Suc (enters s n))\<rparr>) k" if "k \<in> set (m # ws)" for k
    using h that unfolding in_hand_def by blast
  note len = length_barrier_arrivals [OF ok]
  have ws: "length ws < DSM_MAX_NODES"
    using nodes by (simp add: barrier_nodes_def)
  show ?thesis
  proof (cases "length (barrier_arrivals (mbar s)) = length ws")
    case full: True
    obtain b where b: "barrier_ok b" "barrier_arrivals b = []" "arrived_count b = 0"
      "barrier_id b = barrier_id (mbar s) + 1"
      and e: "arrival m ws n s = Inr (release_round m (Some (barrier_arrivals (mbar s) @ [n])) (s\<lparr>mbar := b\<rparr>))"
      using arrival_last [OF ok ws full] by blast
    let ?s = "release_round m (Some (barrier_arrivals (mbar s) @ [n])) (s\<lparr>mbar := b\<rparr>)"
    have "node_inv m ?s k" if "k \<in> set (m # ws)" for k
    proof -
      let ?c = "count_list (barrier_arrivals (mbar s)) k" and ?d = "if k = n then 1 else (0 :: nat)"
      have c: "?c + ?d = 1"
        by (rule in_hand_full [OF h full that])
      have i: "entered s k = rounds s + ?c + enters s k + ?d"
        "entered s k = passed s k + (if bphase s k = Outside then 0 else 1)"
        "passed s k + releases s k + (if bphase s k = Awake \<and> k \<noteq> m then 1 else 0) \<le> rounds s"
        "k \<noteq> m \<Longrightarrow> issued s k = rounds s"
        using inv [OF that] unfolding node_inv_def by (simp_all split: if_splits)
      have p: "bphase ?s k = Outside \<longleftrightarrow> bphase s k = Outside"
        "bphase ?s k = Awake \<and> k \<noteq> m \<longleftrightarrow> bphase s k = Awake \<and> k \<noteq> m"
        unfolding release_round_eq by auto
      have "releases ?s k \<le> Suc (releases s k)"
        using c unfolding release_round_eq by (simp split: if_splits)
      moreover have "k \<noteq> m \<Longrightarrow> issued ?s k = Suc (rounds s)"
        using c i(4) unfolding release_round_eq by (simp split: if_splits)
      ultimately show ?thesis
        unfolding node_inv_def p unfolding release_round_eq(1-7) using i(1-3) c b(2) by simp
    qed
    then have "barrier_inv m ws ?s"
      using b mi(1) id by (simp add: barrier_inv_def master_inv_def release_round_eq)
    with e show ?thesis by blast
  next
    case False
    then have more: "length (barrier_arrivals (mbar s)) < length ws"
      using le len by simp
    obtain b where b: "barrier_ok b" "barrier_arrivals b = barrier_arrivals (mbar s) @ [n]"
      "unat (arrived_count b) = Suc (unat (arrived_count (mbar s)))" "barrier_id b = barrier_id (mbar s)"
      and e: "arrival m ws n s = Inr (s\<lparr>mbar := b\<rparr>)"
      using arrival_more [OF ok ws more] by blast
    have "node_inv m (s\<lparr>mbar := b\<rparr>) k" if "k \<in> set (m # ws)" for k
      using inv [OF that] by (auto simp: node_inv_def b(2) split: if_splits)
    moreover have "master_inv m (s\<lparr>mbar := b\<rparr>)"
      using mi by (auto simp: master_inv_def b)
    ultimately have "barrier_inv m ws (s\<lparr>mbar := b\<rparr>)"
      using b id len more sub n by (simp add: barrier_inv_def)
    with e show ?thesis by blast
  qed
qed

text \<open>A step of one node that leaves the record of the master alone.\<close>

lemma barrier_inv_local:
  assumes "barrier_inv m ws s" "mbar s' = mbar s" "rounds s' = rounds s" "node_inv m s' n" "master_inv m s'"
    and "\<And>k. k \<noteq> n \<Longrightarrow> bphase s' k = bphase s k \<and> enters s' k = enters s k \<and> releases s' k = releases s k \<and> issued s' k = issued s k \<and>
      entered s' k = entered s k \<and> passed s' k = passed s k"
  shows "barrier_inv m ws s'"
proof -
  have "node_inv m s' k" if "k \<in> set (m # ws)" for k
  proof (cases "k = n")
    case True
    with assms(4) show ?thesis by simp
  next
    case False
    moreover have "node_inv m s k"
      using assms(1) that unfolding barrier_inv_def by blast
    ultimately show ?thesis
      using assms(2,3,6) by (simp add: node_inv_def)
  qed
  with assms(1-3,5) show ?thesis
    by (simp add: barrier_inv_def)
qed

lemma barrier_invD:
  "barrier_inv m ws s \<Longrightarrow> n \<in> set (m # ws) \<Longrightarrow> node_inv m s n"
  "barrier_inv m ws s \<Longrightarrow> master_inv m s"
  unfolding barrier_inv_def by blast+

lemmas barrier_change_defs = enter_def leave_def to_phase_def awaken_def

lemma master_inv_other:
  assumes "master_inv m s" "mbar s' = mbar s" "current s' = current s" "bphase s' m = bphase s m"
    "enters s' m = enters s m" "releases s' m = releases s m"
  shows "master_inv m s'"
  using assms by (simp add: master_inv_def)

text \<open>The master looks at the barrier; it leaves only when its own arrival has been released.\<close>

lemma master_look_inv:
  assumes inv: "barrier_inv m ws s" and p: "bphase s m = Arrived \<or> bphase s m = Awake"
    and c: "0 < count_list (barrier_arrivals (mbar s)) m \<Longrightarrow> current s = barrier_id (mbar s)"
  shows "barrier_inv m ws (master_look m s)"
proof (cases "barrier_blocked (current s) (mbar s)")
  case True
  have "node_inv m (to_phase m Asleep s) m"
    using barrier_invD(1) [OF inv, of m] p by (auto simp: node_inv_def to_phase_def)
  moreover have "master_inv m (to_phase m Asleep s)"
    using barrier_invD(2) [OF inv] c by (simp add: master_inv_def to_phase_def)
  ultimately show ?thesis
    using True by (intro barrier_inv_local [OF inv, of _ m]) (simp_all add: master_look_def to_phase_def)
next
  case False
  have "count_list (barrier_arrivals (mbar s)) m = 0"
  proof (rule ccontr)
    assume "count_list (barrier_arrivals (mbar s)) m \<noteq> 0"
    with c False have "arrived_count (mbar s) = 0"
      by (simp add: barrier_blocked_def word_gt_0)
    with \<open>count_list _ m \<noteq> 0\<close> show False
      by (simp add: barrier_arrivals_def)
  qed
  then have "node_inv m (leave m s) m"
    using barrier_invD(1) [OF inv, of m] barrier_invD(2) [OF inv] p by (auto simp: node_inv_def master_inv_def leave_def to_phase_def)
  moreover have "master_inv m (leave m s)"
    using barrier_invD(2) [OF inv] by (simp add: master_inv_def leave_def to_phase_def)
  ultimately show ?thesis
    using False by (intro barrier_inv_local [OF inv, of _ m]) (simp_all add: master_look_def leave_def to_phase_def)
qed

lemma enter_arrival:
  assumes "arrival m ws m s = Inr s'" "bphase s m = Outside"
  shows "arrival m ws m (enter m s) = Inr (enter m s')"
  using assms by (auto simp: arrival_def release_round_def barrier_change_defs split: sum.splits option.splits)

lemma in_hand_worker:
  assumes "barrier_inv m ws s" "barrier_nodes m ws" "n \<in> set ws" "enters s n = Suc k"
  shows "in_hand m ws n (s\<lparr>enters := (enters s)(n := k)\<rparr>)"
proof -
  have "n \<noteq> m"
    using assms(2,3) by (auto simp: barrier_nodes_def)
  moreover have "s\<lparr>enters := (enters s)(n := Suc k)\<rparr> = s"
    using assms(4) by (metis barrier_net.surjective barrier_net.update_convs(4) fun_upd_triv)
  ultimately show ?thesis
    using assms by (simp add: in_hand_def barrier_inv_def master_inv_def)
qed

lemma in_hand_master:
  assumes "barrier_inv m ws s" "barrier_nodes m ws" "bphase s m = Outside"
  shows "in_hand m ws m (enter m s)"
proof -
  have "node_inv m ((enter m s)\<lparr>enters := (enters (enter m s))(m := Suc (enters (enter m s) m))\<rparr>) k"
    if "k \<in> set (m # ws)" for k
    using barrier_invD(1) [OF assms(1) that] assms(3) by (auto simp: node_inv_def barrier_change_defs)
  then show ?thesis
    using assms by (simp add: in_hand_def barrier_inv_def master_inv_def barrier_change_defs)
qed

lemma barrier_inv_worker:
  assumes "barrier_inv m ws s" "n \<in> set ws" "m \<noteq> n" "mbar s' = mbar s" "rounds s' = rounds s"
    "current s' = current s" "node_inv m s' n"
    and "\<And>k. k \<noteq> n \<Longrightarrow> bphase s' k = bphase s k \<and> enters s' k = enters s k \<and> releases s' k = releases s k \<and> issued s' k = issued s k \<and>
      entered s' k = entered s k \<and> passed s' k = passed s k"
  shows "barrier_inv m ws s'"
  using assms(3,8) master_inv_other [OF barrier_invD(2) [OF assms(1)], of s'] assms(4,6)
  by (intro barrier_inv_local [OF assms(1,4,5,7)]) simp_all

text \<open>Every step keeps the invariant, as long as no worker wakes up without reason.\<close>

lemma barrier_inv_step:
  assumes "barrier_step m ws sp s s'" "barrier_nodes m ws" "sp \<subseteq> {m}" "barrier_inv m ws s"
  shows "barrier_inv m ws s'"
proof -
  have ne: "m \<noteq> n" if "n \<in> set ws" for n
    using assms(2) that by (auto simp: barrier_nodes_def)
  note inv = barrier_invD [OF assms(4)]
  note change = node_inv_def barrier_change_defs
  from assms(1) show ?thesis
  proof cases
    case (worker_enter n)
    with inv(1) [of n] have "node_inv m s' n"
      by (auto simp: change)
    with worker_enter ne [of n] show ?thesis
      by (intro barrier_inv_worker [OF assms(4), of n]) (simp_all add: barrier_change_defs)
  next
    case (worker_wait n)
    with inv(1) [of n] have "node_inv m s' n"
      by (auto simp: change)
    with worker_wait ne [of n] show ?thesis
      by (intro barrier_inv_worker [OF assms(4), of n]) (simp_all add: barrier_change_defs)
  next
    case (worker_return n)
    with inv(1) [of n] ne [of n] have "node_inv m s' n"
      by (auto simp: change)
    with worker_return ne [of n] show ?thesis
      by (intro barrier_inv_worker [OF assms(4), of n]) (simp_all add: barrier_change_defs)
  next
    case (enter_arrives n k)
    with arrival_inv [OF in_hand_worker [OF assms(4,2)], of n k] show ?thesis by auto
  next
    case (release_arrives n k)
    with inv(1) [of n] ne [of n] have "node_inv m s' n"
      by (auto simp: change)
    with release_arrives ne [of n] show ?thesis
      by (intro barrier_inv_worker [OF assms(4), of n]) (simp_all add: barrier_change_defs)
  next
    case (master_enter t)
    with arrival_inv [OF in_hand_master [OF assms(4,2)]] enter_arrival [of m ws s t] show ?thesis by auto
  next
    case master_wait
    have "barrier_inv m ws (s\<lparr>current := barrier_id (mbar s)\<rparr>)"
      using inv(2) inv(1) [of m] master_wait(2)
      by (intro barrier_inv_local [OF assms(4), of _ m]) (simp_all add: node_inv_def master_inv_def)
    with master_wait show ?thesis
      by (simp add: master_look_inv)
  next
    case master_retest
    with inv(2) assms(4) show ?thesis
      by (simp add: master_look_inv master_inv_def)
  next
    case (spurious n)
    with assms(3) have n: "n = m" "s' = to_phase m Awake s" "bphase s m = Asleep"
      by auto
    have "node_inv m s' m" "master_inv m s'"
      using inv(1) [of m] inv(2) n by (auto simp: node_inv_def master_inv_def to_phase_def)
    then show ?thesis
      using n by (intro barrier_inv_local [OF assms(4), of _ m]) (simp_all add: to_phase_def)
  qed
qed

lemma barrier_inv_start: "barrier_start s \<Longrightarrow> barrier_inv m ws s"
  by (auto simp: barrier_start_def barrier_inv_def node_inv_def master_inv_def barrier_ok_def barrier_arrivals_def)

interpretation bar: inductive_invariant barrier_start "barrier_step m ws sp"
  "\<lambda>s. barrier_nodes m ws \<and> sp \<subseteq> {m} \<longrightarrow> barrier_inv m ws s"
  by unfold_locales (auto simp: barrier_inv_start intro: barrier_inv_step)

lemma barrier_inv_reach:
  "barrier_reach m ws sp s \<Longrightarrow> barrier_nodes m ws \<Longrightarrow> sp \<subseteq> {m} \<Longrightarrow> barrier_inv m ws s"
  by (drule bar.inv_reach) simp

section \<open>A release that found nobody waiting\<close>

text \<open>
  A node that waits although the rounds it has arrived at have all been released and no release is on
  its way to it.
\<close>

definition missed :: "barrier_net \<Rightarrow> u32 \<Rightarrow> bool" where
  "missed s n \<longleftrightarrow> bphase s n = Asleep \<and> releases s n = 0 \<and> entered s n = rounds s"

lemma missed_iff:
  assumes "node_inv m s n" "bphase s n = Asleep" "releases s n = 0"
  shows "missed s n \<longleftrightarrow> passed s n < rounds s"
  using assms by (auto simp: missed_def node_inv_def)

text \<open>An arrival that completes no round leaves it waiting; none can complete one without it.\<close>

lemma arrival_missed:
  assumes h: "in_hand m ws n s" and k: "k \<in> set (m # ws)" and c: "missed s k" and a: "arrival m ws n s = Inr s'"
    and ne: "k \<noteq> n"
  shows "missed s' k \<and> rounds s' = rounds s"
proof -
  have ok: "barrier_ok (mbar s)" and ws: "length ws < DSM_MAX_NODES"
    and le: "unat (arrived_count (mbar s)) \<le> length ws"
    and inv: "node_inv m (s\<lparr>enters := (enters s)(n := Suc (enters s n))\<rparr>) k"
    using h k unfolding in_hand_def barrier_nodes_def by blast+
  have zero: "count_list (barrier_arrivals (mbar s)) k = 0"
    using inv c ne by (simp add: node_inv_def missed_def)
  have "length (barrier_arrivals (mbar s)) \<noteq> length ws"
    using in_hand_full [OF h _ k] zero ne by auto
  then have "length (barrier_arrivals (mbar s)) < length ws"
    using le length_barrier_arrivals [OF ok] by simp
  with arrival_more [OF ok ws, of n m] a c show ?thesis
    by (auto simp: missed_def)
qed

lemma missed_step:
  assumes st: "barrier_step m ws sp s s'" and nodes: "barrier_nodes m ws" and inv: "barrier_inv m ws s"
    and k: "k \<in> set (m # ws)" "k \<notin> sp" and c: "missed s k"
  shows "missed s' k \<and> rounds s' = rounds s"
proof -
  have ne: "n \<noteq> k" if "bphase s n \<noteq> Asleep" for n
    using c that by (auto simp: missed_def)
  from st show ?thesis
  proof cases
    case (enter_arrives n j)
    have "k \<noteq> n"
      using barrier_invD(1) [OF inv k(1)] c enter_arrives(2) by (auto simp: node_inv_def missed_def)
    moreover have "missed (s\<lparr>enters := (enters s)(n := j)\<rparr>) k"
      using c by (simp add: missed_def)
    ultimately show ?thesis
      using arrival_missed [OF in_hand_worker [OF inv nodes enter_arrives(1,2)] k(1) _ enter_arrives(3)] by simp
  next
    case (master_enter t)
    have "missed (enter m s) k"
      using c ne [of m] master_enter(2) by (simp add: missed_def barrier_change_defs)
    with arrival_missed [OF in_hand_master [OF inv nodes master_enter(2)] k(1) _
        enter_arrival [OF master_enter(3,2)]] ne [of m] master_enter show ?thesis
      by (auto simp: barrier_change_defs)
  qed (use c k ne in \<open>auto simp: missed_def barrier_change_defs master_look_def\<close>)
qed

lemma missed_steps:
  assumes "(barrier_step m ws sp)\<^sup>*\<^sup>* s s'" "barrier_nodes m ws" "sp \<subseteq> {m}" "barrier_inv m ws s"
    "k \<in> set (m # ws)" "k \<notin> sp" "missed s k"
  shows "barrier_inv m ws s' \<and> missed s' k \<and> rounds s' = rounds s"
  using assms(1,4,7)
proof (induction rule: rtranclp_induct)
  case base
  then show ?case by simp
next
  case (step y z)
  then show ?case
    using barrier_inv_step [OF step.hyps(2) assms(2,3)] missed_step [OF step.hyps(2) assms(2) _ assms(5,6)]
    by auto
qed

section \<open>Two nodes\<close>

text \<open>
  A master 1 and a worker 2 that both arrive; the release of the round is on its way to the worker,
  which does not wait yet, nor does the master.
\<close>

definition demo_net :: barrier_net where
  "demo_net = \<lparr>mbar = zero_barrier, bphase = (\<lambda>_. Outside), current = 0, enters = (\<lambda>_. 0),
     releases = (\<lambda>_. 0), rounds = 0, issued = (\<lambda>_. 0), entered = (\<lambda>_. 0), passed = (\<lambda>_. 0)\<rparr>"

definition demo_released :: barrier_net where
  "demo_released = \<lparr>mbar = zero_barrier\<lparr>arrived := 2 # 1 # replicate 62 0, barrier_id := 1\<rparr>,
     bphase = (\<lambda>_. Outside)(2 := Arrived, 1 := Arrived), current = 0, enters = (\<lambda>_. 0),
     releases = (\<lambda>_. 0)(2 := 1), rounds = 1, issued = (\<lambda>_. 0)(2 := 1), entered = (\<lambda>_. 0)(2 := 1, 1 := 1), passed = (\<lambda>_. 0)\<rparr>"

lemma demo_net_start: "barrier_start demo_net"
  by (simp add: barrier_start_def demo_net_def zero_barrier_def)

abbreviation demo_reach :: "u32 set \<Rightarrow> barrier_net \<Rightarrow> bool" where
  "demo_reach sp \<equiv> reachable (\<lambda>s. s = demo_net) (barrier_step 1 [2] sp)"

lemma demo_net_reach: "demo_reach sp demo_net"
  by (rule reach_start) (rule refl)

lemma demo_reach_reach:
  assumes "demo_reach sp s"
  shows "barrier_reach 1 [2] sp s"
  using assms
proof (induction rule: reachable.induct)
  case (reach_start s)
  then show ?case
    using barrier_reach_start [OF demo_net_start] by simp
next
  case (reach_step s s')
  show ?case
    by (rule barrier_reach_step [OF reach_step.IH reach_step.hyps(2)])
qed

lemma replicate_64: "replicate 64 x = x # x # replicate 62 x"
  by (simp add: numeral_eq_Suc)

lemma demo_released_reach: "demo_reach sp demo_released"
proof -
  let ?a = "enter 2 (demo_net\<lparr>enters := (enters demo_net)(2 := Suc (enters demo_net 2))\<rparr>)"
  let ?b = "?a\<lparr>enters := (enters ?a)(2 := 0), mbar := zero_barrier\<lparr>arrived := 2 # 0 # replicate 62 0,
    arrived_count := 1\<rparr>\<rparr>"
  let ?c = "?b\<lparr>mbar := zero_barrier\<lparr>arrived := 2 # 1 # replicate 62 0, barrier_id := 1\<rparr>,
    rounds := 1, releases := (\<lambda>_. 0)(2 := 1), issued := (\<lambda>_. 0)(2 := 1)\<rparr>"
  have a: "demo_reach sp ?a"
    by (rule barrier_reach_step [OF demo_net_reach worker_enter]) (simp_all add: demo_net_def)
  have e: "arrival 1 [2] 2 (?a\<lparr>enters := (enters ?a)(2 := 0)\<rparr>) = Inr ?b"
    by (simp add: arrival_def barrier_enter_def demo_net_def barrier_change_defs zero_barrier_def release_round_def
        replicate_64 Let_def, simp add: word_le_nat_alt)
  have b: "demo_reach sp ?b"
    by (rule barrier_reach_step [OF a enter_arrives [OF _ _ e]]) (simp_all add: demo_net_def barrier_change_defs)
  have f: "arrival 1 [2] 1 ?b = Inr ?c"
    by (simp add: arrival_def barrier_enter_def demo_net_def barrier_change_defs zero_barrier_def release_round_def
        fun_eq_iff Let_def awaken_def upt_rec)
  have "demo_reach sp (enter 1 ?c)"
    by (rule barrier_reach_step [OF b master_enter [OF _ f]]) (simp_all add: demo_net_def barrier_change_defs)
  moreover have "enter 1 ?c = demo_released"
    by (simp add: demo_released_def demo_net_def barrier_change_defs fun_eq_iff)
  ultimately show ?thesis by simp
qed

text \<open>The release arrives before the worker waits.\<close>

lemma demo_lost_reach:
  "\<exists>s. demo_reach sp s \<and> bphase s 2 = Asleep \<and> releases s 2 = 0 \<and> passed s 2 = 0 \<and> rounds s = 1"
proof -
  let ?a = "awaken 2 (demo_released\<lparr>releases := (releases demo_released)(2 := 0)\<rparr>)"
  have "demo_reach sp ?a"
    by (rule barrier_reach_step [OF demo_released_reach release_arrives]) (simp_all add: demo_released_def)
  then have r: "demo_reach sp (to_phase 2 Asleep ?a)"
    by (rule barrier_reach_step [OF _ worker_wait]) (simp_all add: demo_released_def barrier_change_defs)
  show ?thesis
    by (rule exI, rule conjI, rule r) (simp add: demo_released_def barrier_change_defs)
qed

text \<open>
  The worker waits, is released and arrives at the next round before the master has the mutex.
\<close>

lemma demo_master_missed_reach:
  "\<exists>s. demo_reach sp s \<and> bphase s 1 = Asleep \<and> bphase s 2 = Asleep \<and> passed s 1 = 0 \<and> rounds s = 1 \<and>
    releases s 1 = 0 \<and> releases s 2 = 0 \<and> enters s 1 = 0 \<and> enters s 2 = 0"
proof -
  let ?a = "to_phase 2 Asleep demo_released"
  let ?b = "awaken 2 (?a\<lparr>releases := (releases ?a)(2 := 0)\<rparr>)"
  let ?c = "leave 2 ?b"
  let ?d = "enter 2 (?c\<lparr>enters := (enters ?c)(2 := Suc (enters ?c 2))\<rparr>)"
  let ?e = "?d\<lparr>enters := (enters ?d)(2 := 0), mbar := zero_barrier\<lparr>arrived := 2 # 1 # replicate 62 0,
    arrived_count := 1, barrier_id := 1\<rparr>\<rparr>"
  have "demo_reach sp ?a"
    by (rule barrier_reach_step [OF demo_released_reach worker_wait]) (simp_all add: demo_released_def)
  then have "demo_reach sp ?b"
    by (rule barrier_reach_step [OF _ release_arrives]) (simp_all add: demo_released_def barrier_change_defs)
  then have "demo_reach sp ?c"
    by (rule barrier_reach_step [OF _ worker_return]) (simp_all add: demo_released_def barrier_change_defs)
  then have d: "demo_reach sp ?d"
    by (rule barrier_reach_step [OF _ worker_enter]) (simp_all add: demo_released_def barrier_change_defs)
  have e: "arrival 1 [2] 2 (?d\<lparr>enters := (enters ?d)(2 := 0)\<rparr>) = Inr ?e"
    by (simp add: arrival_def barrier_enter_def demo_released_def barrier_change_defs zero_barrier_def
        release_round_def Let_def, simp add: word_le_nat_alt)
  have "demo_reach sp ?e"
    by (rule barrier_reach_step [OF d enter_arrives [OF _ _ e]])
       (simp_all add: demo_released_def barrier_change_defs)
  then have "demo_reach sp (to_phase 2 Asleep ?e)"
    by (rule barrier_reach_step [OF _ worker_wait]) (simp_all add: demo_released_def barrier_change_defs)
  then have r: "demo_reach sp (master_look 1 ((to_phase 2 Asleep ?e)\<lparr>current := barrier_id (mbar (to_phase 2 Asleep ?e))\<rparr>))"
    by (rule barrier_reach_step [OF _ master_wait]) (simp add: demo_released_def barrier_change_defs)
  show ?thesis
    by (rule exI, rule conjI, rule r)
       (simp add: demo_released_def barrier_change_defs master_look_def barrier_blocked_def)
qed

text \<open>A worker that wakes up without reason leaves the barrier although the master has not arrived.\<close>

lemma spurious_wakeup_passes:
  "\<exists>s. demo_reach {2} s \<and> passed s 2 = 1 \<and> entered s 1 = 0"
proof -
  let ?a = "enter 2 (demo_net\<lparr>enters := (enters demo_net)(2 := Suc (enters demo_net 2))\<rparr>)"
  have "demo_reach {2} ?a"
    by (rule barrier_reach_step [OF demo_net_reach worker_enter]) (simp_all add: demo_net_def)
  then have "demo_reach {2} (to_phase 2 Asleep ?a)"
    by (rule barrier_reach_step [OF _ worker_wait]) (simp_all add: demo_net_def barrier_change_defs)
  then have "demo_reach {2} (to_phase 2 Awake (to_phase 2 Asleep ?a))"
    by (rule barrier_reach_step [OF _ spurious]) (simp_all add: demo_net_def barrier_change_defs)
  then have r: "demo_reach {2} (leave 2 (to_phase 2 Awake (to_phase 2 Asleep ?a)))"
    by (rule barrier_reach_step [OF _ worker_return]) (simp_all add: demo_net_def barrier_change_defs)
  show ?thesis
    by (rule exI, rule conjI, rule r) (simp add: demo_net_def barrier_change_defs)
qed

section \<open>What the barrier does and how it stops\<close>

text \<open>
  The barrier holds every node back: as long as no worker wakes up without reason, no node has
  returned from \<^verbatim>\<open>dsm_barrier\<close> more often than every node, the master included, has arrived at it, and
  the next arrival of any node stays inside the array of arrivals.
\<close>

lemma net_synchronises:
  assumes "barrier_reach m ws sp s" "barrier_nodes m ws" "sp \<subseteq> {m}" "a \<in> set (m # ws)" "b \<in> set (m # ws)"
  shows "passed s a \<le> rounds s \<and> rounds s \<le> entered s b \<and>
    unat (arrived_count (mbar s)) < length (arrived (mbar s))"
proof -
  have inv: "barrier_inv m ws s"
    using assms(1-3) by (rule barrier_inv_reach)
  then have "barrier_ok (mbar s)"
    by (simp add: barrier_inv_def)
  with barrier_invD(1) [OF inv assms(4)] barrier_invD(1) [OF inv assms(5)] show ?thesis
    by (simp add: node_inv_def barrier_ok_def)
qed

text \<open>
  A release that reaches a node before it waits is lost, and with it the barrier: a node, worker or
  master, that waits with no release on its way to it, although a round it has arrived at has been
  released, never wakes up, and no round is ever released again.
\<close>

lemma net_lost_release:
  assumes "barrier_reach m ws sp s" "barrier_nodes m ws" "sp \<subseteq> {m}" "n \<in> set (m # ws)" "n \<notin> sp"
    and "bphase s n = Asleep" "releases s n = 0" "passed s n < rounds s"
    and "(barrier_step m ws sp)\<^sup>*\<^sup>* s s'"
  shows "bphase s' n = Asleep \<and> passed s' n = passed s n \<and> rounds s' = rounds s"
proof -
  have inv: "barrier_inv m ws s"
    using assms(1-3) by (rule barrier_inv_reach)
  have ms: "missed s n"
    using missed_iff [OF barrier_invD(1) [OF inv assms(4)] assms(6,7)] assms(8) by simp
  have s': "barrier_inv m ws s'" "missed s' n" "rounds s' = rounds s"
    using missed_steps [OF assms(9,2,3) inv assms(4,5) ms] by blast+
  then show ?thesis
    using barrier_invD(1) [OF inv assms(4)] barrier_invD(1) [OF s'(1) assms(4)] ms
    by (simp add: node_inv_def missed_def)
qed

text \<open>
  Only lost releases stop the barrier: when all nodes wait and no message is in flight, some node
  waits although a round that it has arrived at has been released.
\<close>

lemma net_no_deadlock:
  assumes "barrier_reach m ws sp s" "barrier_nodes m ws" "sp \<subseteq> {m}"
    and "\<forall>n \<in> set (m # ws). bphase s n = Asleep \<and> enters s n = 0 \<and> releases s n = 0"
  shows "\<exists>n \<in> set (m # ws). passed s n < rounds s"
proof (rule ccontr)
  assume none: "\<not> ?thesis"
  have inv: "barrier_inv m ws s"
    using assms(1-3) by (rule barrier_inv_reach)
  have "count_list (barrier_arrivals (mbar s)) n = 1" if "n \<in> set (m # ws)" for n
    using barrier_invD(1) [OF inv that] assms(4) none that by (force simp: node_inv_def)
  then have "set (m # ws) \<subseteq> set (barrier_arrivals (mbar s))"
    by (metis count_notin subsetI zero_neq_one)
  then have "card (set (m # ws)) \<le> length (barrier_arrivals (mbar s))"
    by (meson card_length card_mono finite_set le_trans)
  moreover have "card (set (m # ws)) = Suc (length ws)"
    using assms(2) distinct_card [of "m # ws"] by (simp add: barrier_nodes_def)
  ultimately show False
    using inv length_barrier_arrivals [of "mbar s"] by (simp add: barrier_inv_def)
qed

end
