(* ===== verification/DsmBarrierSystem.thy ===== *)
theory DsmBarrierSystem
  imports DsmBarrier DsmProcess
begin

text \<open>
  The barrier run by the processes themselves: one \<open>world\<close> per node, driven by the code of
  \<^verbatim>\<open>dsm_barrier\<close> and of the server threads, with the bytes in flight as the only messages. Every run of
  these processes is a run of the barrier of \<open>DsmBarrier\<close>, whose properties are taken back to them. One
  thread per node uses the barrier, the master's node table holds exactly these nodes, no other messages
  travel and the connections stay up. \<open>sp\<close> are the nodes on which \<^verbatim>\<open>pthread_cond_wait\<close> can return
  without reason: the master looks again, a worker passes the barrier (\<open>worker_passes_alone\<close>).
\<close>

section \<open>The processes and their steps\<close>

text \<open>
  \<open>bpc\<close> is where the application thread is, \<open>bcurrent\<close> its variable \<^verbatim>\<open>current_id\<close>; \<open>bentered\<close> and
  \<open>bpassed\<close> count its calls of \<^verbatim>\<open>dsm_barrier\<close> that have arrived and that have returned.
\<close>

record barrier_system = processes +
  bpc :: "u32 \<Rightarrow> bphase"
  bcurrent :: "u32 \<Rightarrow> u32"
  bentered :: "u32 \<Rightarrow> nat"
  bpassed :: "u32 \<Rightarrow> nat"

text \<open>
  The server thread of node \<open>n\<close> makes the process \<open>w\<close>. If it has signalled the barrier meanwhile, the
  application thread wakes up, provided that it waits.
\<close>

definition signalled :: "world \<Rightarrow> world \<Rightarrow> bool" where
  "signalled w w' \<longleftrightarrow> BroadcastBarrier \<in> set (drop (length (wakes w)) (wakes w'))"

definition served_by :: "u32 \<Rightarrow> world \<Rightarrow> barrier_system \<Rightarrow> barrier_system" where
  "served_by n w s = s\<lparr>proc := (proc s)(n := w),
     bpc := (if bpc s n = Asleep \<and> signalled (proc s n) w then (bpc s)(n := Awake) else bpc s)\<rparr>"

text \<open>The application thread has looked at the barrier, and waits or returns.\<close>

definition looked :: "u32 \<Rightarrow> progress \<Rightarrow> barrier_system \<Rightarrow> barrier_system" where
  "looked n r s =
     (case r of Blocked \<Rightarrow> s\<lparr>bpc := (bpc s)(n := Asleep)\<rparr>
      | Returned \<Rightarrow> s\<lparr>bpc := (bpc s)(n := Outside), bpassed := (bpassed s)(n := Suc (bpassed s n))\<rparr>)"

text \<open>A barrier message is a header.\<close>

abbreviation (input) barrier_msg_size :: nat where "barrier_msg_size \<equiv> 24"

inductive bsystem_step :: "u32 \<Rightarrow> u32 list \<Rightarrow> u32 set \<Rightarrow> barrier_system \<Rightarrow> barrier_system \<Rightarrow> bool" for m ws sp where
  arrives: "n \<in> set (m # ws) \<Longrightarrow> bpc s n = Outside \<Longrightarrow> dsm_barrier_arrive (proc s n) = Inr w \<Longrightarrow>
    bsystem_step m ws sp s (s\<lparr>proc := (proc s)(n := w), bpc := (bpc s)(n := Arrived),
                               bentered := (bentered s)(n := Suc (bentered s n))\<rparr>)"
| waits: "n \<in> set (m # ws) \<Longrightarrow> bpc s n = Arrived \<Longrightarrow> dsm_barrier_wait (proc s n) = (r, i) \<Longrightarrow>
    bsystem_step m ws sp s (looked n r (s\<lparr>bcurrent := (bcurrent s)(n := i)\<rparr>))"
| tests: "n \<in> set (m # ws) \<Longrightarrow> bpc s n = Awake \<Longrightarrow> dsm_barrier_test (bcurrent s n) (proc s n) = r \<Longrightarrow>
    bsystem_step m ws sp s (looked n r s)"
| master_reads: "n \<in> set ws \<Longrightarrow> up_bytes s n = bs @ rest \<Longrightarrow> length bs = Suc j * barrier_msg_size \<Longrightarrow>
    handle_client_data fd [Received bs] buf again (proc s m) = Some (Inr (es, buf', again', w)) \<Longrightarrow>
    bsystem_step m ws sp s ((served_by m w s)\<lparr>seen_up := (seen_up s)(n := seen_up s n + length bs)\<rparr>)"
| worker_reads: "n \<in> set ws \<Longrightarrow> down_bytes m s n = bs @ rest \<Longrightarrow> length bs = Suc j * barrier_msg_size \<Longrightarrow>
    handle_client_data fd [Received bs] buf again (proc s n) = Some (Inr (es, buf', again', w)) \<Longrightarrow>
    bsystem_step m ws sp s ((served_by n w s)\<lparr>seen_down := (seen_down s)(n := seen_down s n + length bs)\<rparr>)"
| wakes_up: "n \<in> sp \<Longrightarrow> n \<in> set (m # ws) \<Longrightarrow> bpc s n = Asleep \<Longrightarrow>
    bsystem_step m ws sp s (s\<lparr>bpc := (bpc s)(n := Awake)\<rparr>)"

text \<open>The master knows all nodes and nobody else.\<close>

definition barrier_master :: "u32 \<Rightarrow> u32 list \<Rightarrow> world \<Rightarrow> bool" where
  "barrier_master m ws w \<longleftrightarrow> master_linked m ws w \<and> dsm_node_table_count w = word_of_nat (Suc (length ws))"

definition bsystem_start :: "u32 \<Rightarrow> u32 list \<Rightarrow> barrier_system \<Rightarrow> bool" where
  "bsystem_start m ws s \<longleftrightarrow> barrier_nodes m ws \<and> barrier_master m ws (proc s m) \<and>
     length (arrived (barrier (ctx (proc s m)))) = DSM_MAX_NODES \<and>
     arrived_count (barrier (ctx (proc s m))) = 0 \<and> barrier_id (barrier (ctx (proc s m))) = 0 \<and>
     (\<forall>n \<in> set ws. worker_linked n (proc s n) \<and> links_ok m s n \<and> up_bytes s n = [] \<and> down_bytes m s n = []) \<and>
     (\<forall>n \<in> set (m # ws). bpc s n = Outside \<and> bentered s n = 0 \<and> bpassed s n = 0)"

abbreviation bsystem_reach :: "u32 \<Rightarrow> u32 list \<Rightarrow> u32 set \<Rightarrow> barrier_system \<Rightarrow> bool" where
  "bsystem_reach m ws sp \<equiv> reachable (bsystem_start m ws) (bsystem_step m ws sp)"

lemmas bsystem_reach_start = reach_start [where init = "bsystem_start m ws" and step = "bsystem_step m ws sp"] for m ws sp
lemmas bsystem_reach_step = reach_step [where init = "bsystem_start m ws" and step = "bsystem_step m ws sp"] for m ws sp

section \<open>What each operation does\<close>

lemma worker_arrive:
  assumes "worker_linked n w"
  shows "\<exists>w' h. dsm_barrier_arrive w = Inr w' \<and> worker_linked n w' \<and> msg_header n DSM_MSG_BARRIER_ENTER 0 h \<and>
    sent w' (master_fd (ctx w')) = sent w (master_fd (ctx w)) @ put_header h"
proof -
  let ?h = "dsm_create_header DSM_MSG_BARRIER_ENTER (master_id (ctx w)) 0 w"
  let ?w = "(snd ?h)\<lparr>sent := (sent w)(master_fd (ctx w) := sent w (master_fd (ctx w)) @ put_header (fst ?h))\<rparr>"
  have "dsm_barrier_arrive w = Inr ?w"
    using assms
    by (simp add: dsm_barrier_arrive_def worker_linked_def Let_def case_prod_beta master_socket_def send_raw_clear)
  moreover have "worker_linked n ?w" "msg_header n DSM_MSG_BARRIER_ENTER 0 (fst ?h)"
    using assms by (simp_all add: worker_linked_def msg_header_def)
  ultimately show ?thesis
    by (intro exI [of _ ?w] exI [of _ "fst ?h"]) simp
qed

text \<open>An arrival at the master: the record, and the releases when it was the last.\<close>

definition releases_to :: "u32 list option \<Rightarrow> u32 \<Rightarrow> nat" where
  "releases_to r j = (case r of None \<Rightarrow> 0 | Some ns \<Rightarrow> count_list ns j)"

lemma release_steps_script:
  assumes "\<And>fd. send_script w fd = []"
  shows "send_script (foldl (release_step hdr) w ns) fd = []"
  using assms
proof (induction ns arbitrary: w)
  case (Cons n ns)
  have "send_script (release_step hdr w n) f = []" for f
    using Cons.prems by (simp add: release_step_def tcp_send_header_clear split: option.splits)
  then show ?case
    using Cons.IH by simp
qed simp

lemma master_handles_enter:
  assumes ok: "barrier_master m ws w" and m: "m \<notin> set ws"
    and e: "barrier_enter n (dsm_node_table_count w) (barrier (ctx w)) = Inr (b, r)"
    and r: "\<And>ns. r = Some ns \<Longrightarrow> set ns \<subseteq> set (m # ws)"
  shows "\<exists>w'. dsm_sync_handle_barrier_enter n w = Inr w' \<and> barrier_master m ws w' \<and> barrier (ctx w') = b \<and>
    (\<forall>j. node_socket j w' = node_socket j w) \<and>
    (\<forall>j \<in> set ws. \<exists>h. msg_header m DSM_MSG_BARRIER_RELEASE 0 h \<and> sent w' (the (node_socket j w)) =
       sent w (the (node_socket j w)) @ concat (replicate (releases_to r j) (put_header h))) \<and>
    wakes w' = wakes w @ (if r = None then [] else [BroadcastBarrier])"
proof (cases r)
  case None
  let ?w = "w\<lparr>ctx := (ctx w)\<lparr>barrier := b\<rparr>\<rparr>"
  have "dsm_sync_handle_barrier_enter n w = Inr ?w"
    using e None by (simp add: dsm_sync_handle_barrier_enter_def)
  moreover have same: "node_socket j ?w = node_socket j w" for j
    by (rule node_socket_frame) simp
  moreover have "dsm_node_table_count ?w = dsm_node_table_count w"
    by (rule node_count_frame) simp
  then have "barrier_master m ws ?w"
    using ok same by (simp add: barrier_master_def master_linked_def)
  moreover have "\<exists>h. msg_header m DSM_MSG_BARRIER_RELEASE 0 h"
    by (rule exI [of _ "\<lparr>magic = DSM_MAGIC, msg_type = msg_code DSM_MSG_BARRIER_RELEASE, src_node = m, dst_node = 0,
      hdr_seq_num = 0, payload_len = 0\<rparr>"]) (simp add: msg_header_def)
  ultimately show ?thesis
    using None by (intro exI [of _ ?w]) (simp add: releases_to_def)
next
  case (Some ns)
  let ?h = "fst (dsm_create_header DSM_MSG_BARRIER_RELEASE 0 0 w)"
  let ?w = "snd (dsm_create_header DSM_MSG_BARRIER_RELEASE 0 0 w)"
  let ?v = "foldl (release_step ?h) ?w ns"
  let ?u = "wake BroadcastBarrier (?v\<lparr>ctx := (ctx ?v)\<lparr>barrier := b\<rparr>\<rparr>)"
  have clear: "send_script w fd = []" "send_script ?w fd = []" for fd
    using ok by (simp_all add: barrier_master_def master_linked_def)
  have "dsm_sync_handle_barrier_enter n w = Inr ?u"
    using e Some by (simp add: dsm_sync_handle_barrier_enter_def case_prod_beta Let_def)
  moreover have same: "node_socket j ?u = node_socket j w" for j
    by (rule node_socket_frame) simp
  moreover have "dsm_node_table_count ?u = dsm_node_table_count w"
    by (rule node_count_frame) simp
  then have "barrier_master m ws ?u"
    using ok same release_steps_script [OF clear(2)]
    by (simp add: barrier_master_def master_linked_def wake_fields)
  moreover have "\<exists>h. msg_header m DSM_MSG_BARRIER_RELEASE 0 h \<and> sent ?u (the (node_socket j w)) =
       sent w (the (node_socket j w)) @ concat (replicate (releases_to r j) (put_header h))" if j: "j \<in> set ws" for j
  proof -
    obtain fd where fd: "node_socket j w = Some fd"
      using ok j socket_known unfolding barrier_master_def by blast
    have "node_socket x ?w = node_socket x w" for x
      by (rule node_socket_frame) simp
    moreover have "x \<noteq> m \<and> node_socket x w = Some fd \<longleftrightarrow> x = j" if "x \<in> set ns" for x
      using r [OF Some] that j m fd ok socket_inj [of m ws w x j] unfolding barrier_master_def by auto
    ultimately have "sent ?v fd = sent w fd @ concat (replicate (count_list ns j) (put_header (?h\<lparr>dst_node := j\<rparr>)))"
      using release_steps_sent [of ?w ?h ns fd, OF clear(2)] ok
        concat_map_count [of ns "\<lambda>x. x \<noteq> m \<and> node_socket x w = Some fd" j "\<lambda>x. put_header (?h\<lparr>dst_node := x\<rparr>)"]
      by (simp add: barrier_master_def master_linked_def)
    moreover have "msg_header m DSM_MSG_BARRIER_RELEASE 0 (?h\<lparr>dst_node := j\<rparr>)"
      using ok by (simp add: msg_header_def barrier_master_def master_linked_def)
    ultimately show ?thesis
      using Some fd by (intro exI [of _ "?h\<lparr>dst_node := j\<rparr>"]) (simp add: releases_to_def wake_fields)
  qed
  ultimately show ?thesis
    using Some by (intro exI [of _ ?u]) (simp add: wake_def)
qed

section \<open>The processes run the barrier\<close>

text \<open>The last \<open>k\<close> messages sent to node \<open>n\<close> are releases of the barrier.\<close>

definition releases_sent :: "u32 \<Rightarrow> 'a processes_scheme \<Rightarrow> u32 \<Rightarrow> nat \<Rightarrow> bool" where
  "releases_sent m s n k \<longleftrightarrow>
     (\<exists>old bs. sent_down m s n = old @ bs \<and> encodes m [] (replicate k DSM_MSG_BARRIER_RELEASE) bs)"

lemma releases_sent_more:
  assumes "releases_sent m s n k" "msg_header m DSM_MSG_BARRIER_RELEASE 0 h"
    and "sent_down m s' n = sent_down m s n @ concat (replicate j (put_header h))"
  shows "releases_sent m s' n (k + j)"
proof -
  obtain old bs where o: "sent_down m s n = old @ bs" "encodes m [] (replicate k DSM_MSG_BARRIER_RELEASE) bs"
    using assms(1) by (auto simp: releases_sent_def)
  with encodes_more [of m DSM_MSG_BARRIER_RELEASE "[]" h _ bs j] assms(2,3) show ?thesis
    unfolding releases_sent_def
    by (intro exI [of _ old] exI [of _ "bs @ concat (replicate j (put_header h))"]) (simp add: replicate_add)
qed

lemma releases_sent_0 [simp]: "releases_sent m s n 0"
  by (simp add: releases_sent_def)

lemma releases_sent_same: "sent_down m s' n = sent_down m s n \<Longrightarrow> releases_sent m s' n k = releases_sent m s n k"
  by (simp add: releases_sent_def)

definition worker_bsim :: "u32 \<Rightarrow> barrier_system \<Rightarrow> barrier_net \<Rightarrow> u32 \<Rightarrow> bool" where
  "worker_bsim m s c n \<longleftrightarrow> worker_linked n (proc s n) \<and> bphase c n = bpc s n \<and>
     entered c n = bentered s n \<and> passed c n = bpassed s n \<and> links_ok m s n \<and>
     encodes n [] (replicate (enters c n) DSM_MSG_BARRIER_ENTER) (up_bytes s n) \<and>
     encodes m [] (replicate (releases c n) DSM_MSG_BARRIER_RELEASE) (down_bytes m s n) \<and>
     releases_sent m s n (issued c n)"

definition bsim :: "u32 \<Rightarrow> u32 list \<Rightarrow> barrier_system \<Rightarrow> barrier_net \<Rightarrow> bool" where
  "bsim m ws s c \<longleftrightarrow> barrier_master m ws (proc s m) \<and> mbar c = barrier (ctx (proc s m)) \<and>
     bphase c m = bpc s m \<and> current c = bcurrent s m \<and> entered c m = bentered s m \<and> passed c m = bpassed s m \<and>
     (\<forall>n \<in> set ws. worker_bsim m s c n)"

lemmas link_defs = links_ok_def sent_up_def sent_down_def up_bytes_def down_bytes_def releases_sent_def

lemma worker_bsim_same:
  assumes "worker_bsim m s c j" "proc s' j = proc s j" "bpc s' j = bpc s j" "bentered s' j = bentered s j"
    "bpassed s' j = bpassed s j" "seen_up s' j = seen_up s j" "seen_down s' j = seen_down s j"
    "sent_down m s' j = sent_down m s j"
    and "bphase c' j = bphase c j" "entered c' j = entered c j" "passed c' j = passed c j" "enters c' j = enters c j"
    "releases c' j = releases c j" "issued c' j = issued c j"
  shows "worker_bsim m s' c' j"
  using assms
  by (simp add: worker_bsim_def links_ok_def up_bytes_def down_bytes_def sent_up_def releases_sent_same [OF assms(8)])

lemma bsim_worker:
  assumes sim: "bsim m ws s c" and n: "n \<noteq> m" and c: "mbar c' = mbar c" "current c' = current c" "worker_bsim m s' c' n"
    and s: "bcurrent s' m = bcurrent s m"
    and same: "\<And>j. j \<noteq> n \<Longrightarrow> proc s' j = proc s j \<and> bpc s' j = bpc s j \<and> bentered s' j = bentered s j \<and>
      bpassed s' j = bpassed s j \<and> seen_up s' j = seen_up s j \<and> seen_down s' j = seen_down s j \<and>
      bphase c' j = bphase c j \<and> entered c' j = entered c j \<and> passed c' j = passed c j \<and>
      enters c' j = enters c j \<and> releases c' j = releases c j \<and> issued c' j = issued c j"
  shows "bsim m ws s' c'"
proof -
  have pm: "proc s' m = proc s m"
    using same [of m] n by simp
  have "worker_bsim m s' c' j" if "j \<in> set ws" for j
  proof (cases "j = n")
    case True
    with c(3) show ?thesis by simp
  next
    case False
    moreover have "worker_bsim m s c j"
      using sim that by (simp add: bsim_def)
    ultimately show ?thesis
      using same [of j] pm by (elim worker_bsim_same) (simp_all add: sent_down_def)
  qed
  then show ?thesis
    using sim c(1,2) s same [of m] n [symmetric] by (simp add: bsim_def)
qed

text \<open>The master's thread changes its phase.\<close>

lemma bsim_master_thread:
  assumes sim: "bsim m ws s c" and m: "m \<notin> set ws"
    and s: "proc s' = proc s" "seen_up s' = seen_up s" "seen_down s' = seen_down s"
    and c: "mbar c' = mbar c" "enters c' = enters c" "releases c' = releases c" "issued c' = issued c"
      "bphase c' m = bpc s' m" "current c' = bcurrent s' m" "entered c' m = bentered s' m" "passed c' m = bpassed s' m"
    and same: "\<And>j. j \<noteq> m \<Longrightarrow> bpc s' j = bpc s j \<and> bentered s' j = bentered s j \<and> bpassed s' j = bpassed s j \<and>
      bphase c' j = bphase c j \<and> entered c' j = entered c j \<and> passed c' j = passed c j"
  shows "bsim m ws s' c'"
proof -
  have "worker_bsim m s' c' j" if "j \<in> set ws" for j
  proof -
    have "j \<noteq> m"
      using that m by auto
    moreover have "worker_bsim m s c j"
      using sim that by (simp add: bsim_def)
    ultimately show ?thesis
      using same [of j] s c by (elim worker_bsim_same) (simp_all add: sent_down_def)
  qed
  then show ?thesis
    using sim s c by (simp add: bsim_def)
qed

text \<open>An arrival is put into the master's record.\<close>

lemma bsim_arrival:
  assumes sim: "bsim m ws s c" and m: "m \<notin> set ws" and w: "length ws < DSM_MAX_NODES"
    and a: "arrival m ws n c = Inr c'"
    and sub: "set (barrier_arrivals (mbar c)) \<subseteq> set (m # ws)" "n \<in> set (m # ws)" and ok: "barrier_ok (mbar c)"
    and v: "dsm_sync_handle_barrier_enter n (proc s m) = Inr v"
  shows "bsim m ws (served_by m v s) c' \<and> wakes v = wakes (proc s m) @ drop (length (wakes (proc s m))) (wakes v)"
proof -
  have master: "barrier_master m ws (proc s m)" and mb: "mbar c = barrier (ctx (proc s m))"
    using sim by (simp_all add: bsim_def)
  obtain b r where e: "barrier_enter n (word_of_nat (Suc (length ws))) (mbar c) = Inr (b, r)"
    and c': "c' = release_round m r (c\<lparr>mbar := b\<rparr>)"
    using a by (auto simp: arrival_def split: sum.splits)
  have ns: "set ns \<subseteq> set (m # ws)" if "r = Some ns" for ns
  proof -
    from barrier_enter_cases [OF ok, of "word_of_nat (Suc (length ws))" n] e that count_word [OF w] w
    have "ns = barrier_arrivals (mbar c) @ [n]"
      by (auto split: if_splits)
    with sub show ?thesis by auto
  qed
  have e': "barrier_enter n (dsm_node_table_count (proc s m)) (barrier (ctx (proc s m))) = Inr (b, r)"
    using e master mb by (simp add: barrier_master_def)
  obtain v' where v': "dsm_sync_handle_barrier_enter n (proc s m) = Inr v'" "barrier_master m ws v'" "barrier (ctx v') = b"
    "\<And>j. node_socket j v' = node_socket j (proc s m)"
    "\<And>j. j \<in> set ws \<Longrightarrow> \<exists>h. msg_header m DSM_MSG_BARRIER_RELEASE 0 h \<and> sent v' (the (node_socket j (proc s m))) =
       sent (proc s m) (the (node_socket j (proc s m))) @ concat (replicate (releases_to r j) (put_header h))"
    "wakes v' = wakes (proc s m) @ (if r = None then [] else [BroadcastBarrier])"
    using master_handles_enter [OF master m e' ns] by blast
  with v have "v' = v"
    by simp
  note v' = v' [unfolded this]
  let ?s = "served_by m v s"
  have sig: "signalled (proc s m) v \<longleftrightarrow> r \<noteq> None"
    by (simp add: signalled_def v'(6))
  have "worker_bsim m ?s c' j" if j: "j \<in> set ws" for j
  proof -
    have jm: "j \<noteq> m"
      using j m by auto
    have old: "worker_bsim m s c j"
      using sim j by (simp add: bsim_def)
    obtain h where h: "msg_header m DSM_MSG_BARRIER_RELEASE 0 h"
      "sent_down m ?s j = sent_down m s j @ concat (replicate (releases_to r j) (put_header h))"
      using v'(5) [OF j] v'(4) by (auto simp: sent_down_def served_by_def)
    have d: "down_bytes m ?s j = down_bytes m s j @ concat (replicate (releases_to r j) (put_header h))"
      using old h(2) by (simp add: down_bytes_def worker_bsim_def links_ok_def served_by_def)
    have "releases c' j = releases c j + releases_to r j" "issued c' j = issued c j + releases_to r j" "bphase c' j = bphase c j" "entered c' j = entered c j"
      "passed c' j = passed c j" "enters c' j = enters c j"
      using jm by (auto simp: c' release_round_def awaken_def to_phase_def releases_to_def split: option.splits)
    moreover have "encodes m [] (replicate (releases c j) DSM_MSG_BARRIER_RELEASE @
        replicate (releases_to r j) DSM_MSG_BARRIER_RELEASE) (down_bytes m ?s j)"
      using encodes_more [of m DSM_MSG_BARRIER_RELEASE "[]" h "replicate (releases c j) DSM_MSG_BARRIER_RELEASE"
          "down_bytes m s j" "releases_to r j"] h(1) old by (simp add: d worker_bsim_def)
    moreover have "releases_sent m ?s j (issued c j + releases_to r j)"
      using old h by (intro releases_sent_more [of m s]) (simp_all add: worker_bsim_def)
    moreover have "links_ok m ?s j"
      using old h(2) jm by (simp add: worker_bsim_def links_ok_def served_by_def sent_up_def)
    ultimately show ?thesis
      using old jm by (simp add: worker_bsim_def replicate_add) (simp add: served_by_def up_bytes_def sent_up_def)
  qed
  moreover have "mbar c' = b" "current c' = current c" "entered c' = entered c" "passed c' = passed c"
    "bphase c' m = (if bphase c m = Asleep \<and> r \<noteq> None then Awake else bphase c m)"
    by (auto simp: c' release_round_def awaken_def to_phase_def split: option.splits)
  ultimately have "bsim m ws ?s c'"
    using sim v'(2,3) sig by (simp add: bsim_def) (simp add: served_by_def)
  then show ?thesis
    using v'(6) by simp
qed

text \<open>The application threads.\<close>

lemma bsimD:
  assumes "bsim m ws s c" "n \<in> set ws"
  shows "worker_bsim m s c n" "worker_linked n (proc s n)" "bphase c n = bpc s n"
  using assms by (simp_all add: bsim_def worker_bsim_def)

lemma sim_worker_arrives:
  assumes sim: "bsim m ws s c" and n: "n \<in> set ws" "n \<noteq> m" and p: "bpc s n = Outside"
    and a: "dsm_barrier_arrive (proc s n) = Inr w"
  shows "bsim m ws (s\<lparr>proc := (proc s)(n := w), bpc := (bpc s)(n := Arrived),
      bentered := (bentered s)(n := Suc (bentered s n))\<rparr>)
    (enter n (c\<lparr>enters := (enters c)(n := Suc (enters c n))\<rparr>))" (is "bsim m ws ?s ?c")
proof -
  note old = bsimD [OF sim n(1)]
  obtain h where w: "worker_linked n w" "msg_header n DSM_MSG_BARRIER_ENTER 0 h"
    "sent w (master_fd (ctx w)) = sent_up s n @ put_header h"
    using worker_arrive [OF old(2)] a by (auto simp: sent_up_def)
  have "encodes n [] (replicate (enters c n) DSM_MSG_BARRIER_ENTER @ [DSM_MSG_BARRIER_ENTER])
      (up_bytes s n @ put_header h)"
    using encodes_snoc [of n "[]" _ "up_bytes s n" _ h] old(1) w(2) by (simp add: worker_bsim_def)
  then have "worker_bsim m ?s ?c n"
    using old(1) w n(2) by (simp add: worker_bsim_def link_defs barrier_change_defs replicate_append_same)
  then show ?thesis
    by (rule bsim_worker [OF sim n(2), rotated 2]) (simp_all add: barrier_change_defs n(2) [symmetric])
qed

lemma arrival_exists:
  assumes "bsim m ws s c" "dsm_sync_handle_barrier_enter n (proc s m) = Inr v" "mbar c' = mbar c"
  shows "\<exists>d. arrival m ws n c' = Inr d"
  using assms
  by (auto simp: bsim_def barrier_master_def arrival_def dsm_sync_handle_barrier_enter_def split: sum.splits prod.splits)

lemma sim_master_arrives:
  assumes sim: "bsim m ws s c" and inv: "record_inv m ws c" and nodes: "barrier_nodes m ws"
    and p: "bpc s m = Outside" and h: "dsm_sync_handle_barrier_enter m (proc s m) = Inr w"
    and d: "arrival m ws m c = Inr d"
  shows "bsim m ws (s\<lparr>proc := (proc s)(m := w), bpc := (bpc s)(m := Arrived),
    bentered := (bentered s)(m := Suc (bentered s m))\<rparr>) (enter m d)"
proof -
  have m: "m \<notin> set ws" and ws: "length ws < DSM_MAX_NODES"
    using nodes by (simp_all add: barrier_nodes_def)
  have ok: "barrier_ok (mbar c)" "set (barrier_arrivals (mbar c)) \<subseteq> set (m # ws)"
    using inv by (simp_all add: record_inv_def)
  have served: "bsim m ws (served_by m w s) d"
    using bsim_arrival [OF sim m ws d ok(2) _ ok(1) h] by simp
  show ?thesis
    by (rule bsim_master_thread [OF served m])
       (use served p in \<open>auto simp: served_by_def barrier_change_defs bsim_def\<close>)
qed

lemma master_arrive_eq:
  "bsim m ws s c \<Longrightarrow> dsm_barrier_arrive (proc s m) = dsm_sync_handle_barrier_enter m (proc s m)"
  by (simp add: dsm_barrier_arrive_def bsim_def barrier_master_def master_linked_def)

lemma looked_fields:
  "proc (looked n r s) = proc s" "seen_up (looked n r s) = seen_up s" "seen_down (looked n r s) = seen_down s"
  "bcurrent (looked n r s) = bcurrent s" "bentered (looked n r s) = bentered s"
  "bpc (looked n r s) = (bpc s)(n := if r = Blocked then Asleep else Outside)"
  "bpassed (looked n r s) = (if r = Blocked then bpassed s else (bpassed s)(n := Suc (bpassed s n)))"
  by (cases r; simp add: looked_def)+

lemma sim_worker_thread:
  assumes sim: "bsim m ws s c" and n: "n \<in> set ws" "n \<noteq> m"
  shows "bsim m ws (looked n Blocked (s\<lparr>bcurrent := (bcurrent s)(n := i)\<rparr>)) (to_phase n Asleep c)"
    "bsim m ws (looked n Returned s) (leave n c)"
proof -
  note old = bsimD(1) [OF sim n(1)]
  show "bsim m ws (looked n Blocked (s\<lparr>bcurrent := (bcurrent s)(n := i)\<rparr>)) (to_phase n Asleep c)"
    by (rule bsim_worker [OF sim n(2)])
       (use old n(2) in \<open>simp_all add: worker_bsim_def link_defs looked_fields to_phase_def\<close>)
  show "bsim m ws (looked n Returned s) (leave n c)"
    by (rule bsim_worker [OF sim n(2)])
       (use old n(2) in \<open>simp_all add: worker_bsim_def link_defs looked_fields leave_def to_phase_def\<close>)
qed

lemma sim_master_look:
  assumes sim: "bsim m ws s c" and m: "m \<notin> set ws"
    and r: "r = (if barrier_blocked (current c) (mbar c) then Blocked else Returned)"
  shows "bsim m ws (looked m r s) (master_look m c)"
  by (rule bsim_master_thread [OF sim m])
     (use sim in \<open>auto simp: r bsim_def looked_fields master_look_def leave_def to_phase_def\<close>)

lemma sim_worker_waits:
  assumes sim: "bsim m ws s c" and n: "n \<in> set ws" "n \<noteq> m" and r: "dsm_barrier_wait (proc s n) = (r, i)"
  shows "bsim m ws (looked n r (s\<lparr>bcurrent := (bcurrent s)(n := i)\<rparr>)) (to_phase n Asleep c)"
proof -
  have "r = Blocked"
    using r bsimD(2) [OF sim n(1)] by (simp add: dsm_barrier_wait_def worker_linked_def Let_def)
  with sim_worker_thread(1) [OF sim n, of i] show ?thesis by simp
qed

lemma sim_worker_tests:
  assumes sim: "bsim m ws s c" and n: "n \<in> set ws" "n \<noteq> m" and r: "dsm_barrier_test i (proc s n) = r"
  shows "bsim m ws (looked n r s) (leave n c)"
proof -
  have "r = Returned"
    using r bsimD(2) [OF sim n(1)] by (simp add: dsm_barrier_test_def worker_linked_def)
  with sim_worker_thread(2) [OF sim n] show ?thesis by simp
qed

lemma sim_master_waits:
  assumes sim: "bsim m ws s c" and m: "m \<notin> set ws" and r: "dsm_barrier_wait (proc s m) = (r, i)"
  shows "bsim m ws (looked m r (s\<lparr>bcurrent := (bcurrent s)(m := i)\<rparr>)) (master_look m (c\<lparr>current := barrier_id (mbar c)\<rparr>))"
proof -
  let ?c = "c\<lparr>current := barrier_id (mbar c)\<rparr>" and ?s = "s\<lparr>bcurrent := (bcurrent s)(m := i)\<rparr>"
  have ri: "i = barrier_id (mbar c)" "r = (if barrier_blocked (current ?c) (mbar ?c) then Blocked else Returned)"
    using r sim
    by (auto simp: dsm_barrier_wait_def dsm_barrier_test_def Let_def bsim_def barrier_master_def master_linked_def)
  have "bsim m ws ?s ?c"
    by (rule bsim_master_thread [OF sim m]) (use sim ri(1) in \<open>simp_all add: bsim_def\<close>)
  from sim_master_look [OF this m ri(2)] show ?thesis .
qed

lemma sim_master_tests:
  assumes sim: "bsim m ws s c" and m: "m \<notin> set ws" and r: "dsm_barrier_test (bcurrent s m) (proc s m) = r"
  shows "bsim m ws (looked m r s) (master_look m c)"
proof -
  have "r = (if barrier_blocked (current c) (mbar c) then Blocked else Returned)"
    using r sim by (simp add: dsm_barrier_test_def bsim_def barrier_master_def master_linked_def)
  from sim_master_look [OF sim m this] show ?thesis .
qed

lemma sim_wakes_up:
  assumes sim: "bsim m ws s c" and m: "m \<notin> set ws" and n: "n \<in> set (m # ws)"
  shows "bsim m ws (s\<lparr>bpc := (bpc s)(n := Awake)\<rparr>) (to_phase n Awake c)"
proof (cases "n = m")
  case True
  show ?thesis
    unfolding True by (rule bsim_master_thread [OF sim m]) (use sim in \<open>simp_all add: bsim_def to_phase_def\<close>)
next
  case False
  with n have ws: "n \<in> set ws"
    by simp
  show ?thesis
    by (rule bsim_worker [OF sim False])
       (use bsimD(1) [OF sim ws] False in \<open>simp_all add: worker_bsim_def link_defs to_phase_def\<close>)
qed

text \<open>The server threads.\<close>

lemma served_twice:
  assumes "wakes u = wakes (proc s n) @ es" "wakes v = wakes u @ es'"
  shows "served_by n v ((served_by n u s)\<lparr>seen_up := f\<rparr>) = (served_by n v s)\<lparr>seen_up := f\<rparr>"
    "served_by n v ((served_by n u s)\<lparr>seen_down := f\<rparr>) = (served_by n v s)\<lparr>seen_down := f\<rparr>"
  using assms by (auto simp: served_by_def signalled_def)

lemma served_none:
  "served_by n (proc s n) s = s"
  by (simp add: served_by_def signalled_def)

lemma bsim_worker_handles:
  assumes sim: "bsim m ws s c" and n: "n \<in> set ws" "n \<noteq> m"
    and k: "releases c n = Suc k" and h: "msg_header m DSM_MSG_BARRIER_RELEASE 0 h"
    and b: "down_bytes m s n = put_header h @ rest" "encodes m [] (replicate k DSM_MSG_BARRIER_RELEASE) rest"
    and v: "handle_one (h, []) buf (proc s n) = Inr v"
  shows "wakes v = wakes (proc s n) @ [BroadcastBarrier] \<and>
    bsim m ws ((served_by n v s)\<lparr>seen_down := (seen_down s)(n := seen_down s n + barrier_msg_size)\<rparr>)
      (awaken n (c\<lparr>releases := (releases c)(n := k)\<rparr>))"
proof -
  note old = bsimD [OF sim n(1)]
  have w: "v = wake BroadcastBarrier (proc s n)"
    using v h dispatch_barrier_release by (simp add: handle_one_def msg_header_def)
  have sig: "signalled (proc s n) v" and wakes: "wakes v = wakes (proc s n) @ [BroadcastBarrier]"
    by (simp_all add: w signalled_def wake_def)
  let ?c = "awaken n (c\<lparr>releases := (releases c)(n := k)\<rparr>)"
  let ?s = "(served_by n v s)\<lparr>seen_down := (seen_down s)(n := seen_down s n + barrier_msg_size)\<rparr>"
  have seen: "seen_down s n + barrier_msg_size \<le> length (sent_down m s n)"
    "drop (seen_down s n + barrier_msg_size) (sent_down m s n) = rest"
    using read_on [of "seen_down s n" "sent_down m s n" h "[]" rest] b(1) by (simp_all add: down_bytes_def)
  have "worker_bsim m ?s ?c n"
    using old b(2) seen n(2) sig
    by (simp add: worker_bsim_def link_defs served_by_def barrier_change_defs worker_linked_def w wake_fields)
  then have "bsim m ws ?s ?c"
    by (rule bsim_worker [OF sim n(2), rotated 2]) (simp_all add: barrier_change_defs served_by_def)
  with wakes show ?thesis
    by simp
qed

lemma bsim_master_handles:
  assumes sim: "bsim m ws s c" and inv: "record_inv m ws c" and nodes: "barrier_nodes m ws" and n: "n \<in> set ws"
    and k: "enters c n = Suc k" and h: "msg_header n DSM_MSG_BARRIER_ENTER 0 h"
    and b: "up_bytes s n = put_header h @ rest" "encodes n [] (replicate k DSM_MSG_BARRIER_ENTER) rest"
    and v: "handle_one (h, []) buf (proc s m) = Inr v"
  shows "(\<exists>d. arrival m ws n (c\<lparr>enters := (enters c)(n := k)\<rparr>) = Inr d) \<and>
    wakes v = wakes (proc s m) @ drop (length (wakes (proc s m))) (wakes v) \<and>
    (\<forall>d. arrival m ws n (c\<lparr>enters := (enters c)(n := k)\<rparr>) = Inr d \<longrightarrow>
      bsim m ws ((served_by m v s)\<lparr>seen_up := (seen_up s)(n := seen_up s n + barrier_msg_size)\<rparr>) d)"
proof -
  have m: "m \<notin> set ws" and ws: "length ws < DSM_MAX_NODES" and ne: "n \<noteq> m"
    using nodes n by (auto simp: barrier_nodes_def)
  note old = bsimD [OF sim n]
  let ?s = "s\<lparr>seen_up := (seen_up s)(n := seen_up s n + barrier_msg_size)\<rparr>"
  let ?c = "c\<lparr>enters := (enters c)(n := k)\<rparr>"
  have seen: "seen_up s n + barrier_msg_size \<le> length (sent_up s n)"
    "drop (seen_up s n + barrier_msg_size) (sent_up s n) = rest"
    using read_on [of "seen_up s n" "sent_up s n" h "[]" rest] b(1) by (simp_all add: up_bytes_def)
  have "worker_bsim m ?s ?c n"
    using old(1) b(2) seen by (simp add: worker_bsim_def link_defs)
  then have sim1: "bsim m ws ?s ?c"
    by (rule bsim_worker [OF sim ne, rotated 2]) simp_all
  have e: "dsm_sync_handle_barrier_enter n (proc ?s m) = Inr v"
    using v h sim dispatch_barrier_enter [of h None "proc s m"]
    by (simp add: handle_one_def msg_header_def bsim_def barrier_master_def master_linked_def)
  have ok: "barrier_ok (mbar ?c)" "set (barrier_arrivals (mbar ?c)) \<subseteq> set (m # ws)"
    using inv by (simp_all add: record_inv_def)
  have "served_by m v ?s = (served_by m v s)\<lparr>seen_up := (seen_up s)(n := seen_up s n + barrier_msg_size)\<rparr>"
    by (simp add: served_by_def)
  then show ?thesis
    using arrival_exists [OF sim1 e refl] bsim_arrival [OF sim1 m ws _ ok(2) _ ok(1) e] n by auto
qed

lemma arrival_enters: "arrival m ws n c = Inr d \<Longrightarrow> enters d = enters c"
  by (auto simp: arrival_def release_round_def barrier_change_defs split: sum.splits option.splits)

text \<open>Any number of messages at once.\<close>

lemma bsim_worker_reads:
  assumes sim: "bsim m ws s c" and n: "n \<in> set ws" "n \<noteq> m"
    and b: "down_bytes m s n = bs @ rest" "length bs = Suc j * barrier_msg_size"
    and r: "handle_client_data fd [Received bs] buf again (proc s n) = Some (Inr (es, buf', again', w))"
  shows "\<exists>c'. (barrier_step m ws sp)\<^sup>*\<^sup>* c c' \<and>
    bsim m ws ((served_by n w s)\<lparr>seen_down := (seen_down s)(n := seen_down s n + length bs)\<rparr>) c'"
proof -
  let ?s = "\<lambda>v i. (served_by n v s)\<lparr>seen_down := (seen_down s)(n := i)\<rparr>"
  let ?P = "\<lambda>ts pend v. \<exists>c' i ss. (barrier_step m ws sp)\<^sup>*\<^sup>* c c' \<and> bsim m ws (?s v i) c' \<and>
    ts = replicate (releases c' n) DSM_MSG_BARRIER_RELEASE \<and> down_bytes m (?s v i) n = pend \<and>
    wakes v = wakes (proc s n) @ ss"
  have base: "?P (replicate (releases c n) DSM_MSG_BARRIER_RELEASE) (bs @ rest) (proc s n)"
    using sim b(1) by (intro exI [of _ c] exI [of _ "seen_down s n"] exI [of _ "[]"]) (simp add: served_none)
  have enc: "encodes m [] (replicate (releases c n) DSM_MSG_BARRIER_RELEASE) (bs @ rest)"
    using bsimD(1) [OF sim n(1)] b(1) by (simp add: worker_bsim_def)
  have "\<exists>ts. ?P ts rest w"
  proof (rule reads_messages [OF r enc, of j ?P])
    fix t ts h r buf u v
    assume P: "?P (t # ts) (put_header h @ [] @ r) u" and h: "msg_header m t (length ([] :: u8 list)) h"
      and e: "encodes m [] ts r" and v: "handle_one (h, []) buf u = Inr v"
    from P obtain c' i ss where c': "(barrier_step m ws sp)\<^sup>*\<^sup>* c c'" "bsim m ws (?s u i) c'"
      "t # ts = replicate (releases c' n) DSM_MSG_BARRIER_RELEASE" "down_bytes m (?s u i) n = put_header h @ [] @ r"
      "wakes u = wakes (proc s n) @ ss"
      by (elim exE conjE) (rule that)
    obtain k where k: "releases c' n = Suc k" "t = DSM_MSG_BARRIER_RELEASE" "ts = replicate k DSM_MSG_BARRIER_RELEASE"
      using c'(3) by (cases "releases c' n") auto
    have "msg_header m DSM_MSG_BARRIER_RELEASE 0 h" "down_bytes m (?s u i) n = put_header h @ r"
      "encodes m [] (replicate k DSM_MSG_BARRIER_RELEASE) r" "handle_one (h, []) buf (proc (?s u i) n) = Inr v"
      using h c'(4) e v k(2,3) by (simp_all add: served_by_def)
    note handled = bsim_worker_handles [OF c'(2) n k(1) this]
    define d where "d = awaken n (c'\<lparr>releases := (releases c')(n := k)\<rparr>)"
    have d: "barrier_step m ws sp c' d" "releases d n = k" "wakes v = wakes u @ [BroadcastBarrier]"
      using barrier_step.release_arrives [OF n(1) k(1)] handled
      by (simp_all add: d_def) (simp_all add: barrier_change_defs served_by_def)
    have "bsim m ws ((served_by n v (?s u i))\<lparr>seen_down := (seen_down s)(n := i + barrier_msg_size)\<rparr>) d"
      using handled by (simp add: d_def served_by_def)
    then have "bsim m ws (?s v (i + barrier_msg_size)) d"
      by (simp add: served_twice(2) [OF c'(5) d(3)])
    moreover have "down_bytes m (?s v (i + barrier_msg_size)) n = r"
      using read_on [of i "sent_down m s n" h "[]" r] c'(4) n(2) by (simp add: down_bytes_def sent_down_def served_by_def)
    moreover have "wakes v = wakes (proc s n) @ ss @ [BroadcastBarrier]"
      by (simp add: d(3) c'(5))
    ultimately show "?P ts r v"
      using rtranclp.rtrancl_into_rtrancl [OF c'(1) d(1)] k(3) d(2) by blast
  qed (use b base in simp_all)
  then obtain c' i where c': "(barrier_step m ws sp)\<^sup>*\<^sup>* c c'" "bsim m ws (?s w i) c'" "down_bytes m (?s w i) n = rest"
    by blast
  have "i = seen_down s n + length bs"
    using read_count [OF b(1) [unfolded down_bytes_def], of i] c'(3) bsimD(1) [OF c'(2) n(1)] bsimD(1) [OF sim n(1)] n(2)
    by (simp add: worker_bsim_def links_ok_def down_bytes_def sent_down_def served_by_def)
  with c' show ?thesis by blast
qed

lemma bsim_master_reads:
  assumes sim: "bsim m ws s c" and inv: "record_inv m ws c" and nodes: "barrier_nodes m ws"
    and n: "n \<in> set ws" and b: "up_bytes s n = bs @ rest" "length bs = Suc j * barrier_msg_size"
    and r: "handle_client_data fd [Received bs] buf again (proc s m) = Some (Inr (es, buf', again', w))"
  shows "\<exists>c'. (barrier_step m ws sp)\<^sup>*\<^sup>* c c' \<and>
    bsim m ws ((served_by m w s)\<lparr>seen_up := (seen_up s)(n := seen_up s n + length bs)\<rparr>) c'"
proof -
  have ne: "n \<noteq> m"
    using nodes n by (auto simp: barrier_nodes_def)
  let ?s = "\<lambda>v i. (served_by m v s)\<lparr>seen_up := (seen_up s)(n := i)\<rparr>"
  let ?P = "\<lambda>ts pend v. \<exists>c' i ss. (barrier_step m ws sp)\<^sup>*\<^sup>* c c' \<and> record_inv m ws c' \<and> bsim m ws (?s v i) c' \<and>
    ts = replicate (enters c' n) DSM_MSG_BARRIER_ENTER \<and> up_bytes (?s v i) n = pend \<and> wakes v = wakes (proc s m) @ ss"
  have base: "?P (replicate (enters c n) DSM_MSG_BARRIER_ENTER) (bs @ rest) (proc s m)"
    using sim inv b(1) by (intro exI [of _ c] exI [of _ "seen_up s n"] exI [of _ "[]"]) (simp add: served_none)
  have enc: "encodes n [] (replicate (enters c n) DSM_MSG_BARRIER_ENTER) (bs @ rest)"
    using bsimD(1) [OF sim n] b(1) by (simp add: worker_bsim_def)
  have "\<exists>ts. ?P ts rest w"
  proof (rule reads_messages [OF r enc, of j ?P])
    fix t ts h r buf u v
    assume P: "?P (t # ts) (put_header h @ [] @ r) u" and h: "msg_header n t (length ([] :: u8 list)) h"
      and e: "encodes n [] ts r" and v: "handle_one (h, []) buf u = Inr v"
    from P obtain c' i ss where c': "(barrier_step m ws sp)\<^sup>*\<^sup>* c c'" "record_inv m ws c'" "bsim m ws (?s u i) c'"
      "t # ts = replicate (enters c' n) DSM_MSG_BARRIER_ENTER" "up_bytes (?s u i) n = put_header h @ [] @ r"
      "wakes u = wakes (proc s m) @ ss"
      by (elim exE conjE) (rule that)
    obtain k where k: "enters c' n = Suc k" "t = DSM_MSG_BARRIER_ENTER" "ts = replicate k DSM_MSG_BARRIER_ENTER"
      using c'(4) by (cases "enters c' n") auto
    have "msg_header n DSM_MSG_BARRIER_ENTER 0 h" "up_bytes (?s u i) n = put_header h @ r"
      "encodes n [] (replicate k DSM_MSG_BARRIER_ENTER) r" "handle_one (h, []) buf (proc (?s u i) m) = Inr v"
      using h c'(5) e v k(2,3) by (simp_all add: served_by_def)
    from bsim_master_handles [OF c'(3,2) nodes n k(1) this] obtain d where
      a: "arrival m ws n (c'\<lparr>enters := (enters c')(n := k)\<rparr>) = Inr d"
      and w: "wakes v = wakes u @ drop (length (wakes u)) (wakes v)"
      and b: "bsim m ws ((served_by m v (?s u i))\<lparr>seen_up := (seen_up s)(n := i + barrier_msg_size)\<rparr>) d"
      by (auto simp: served_by_def)
    have d: "barrier_step m ws sp c' d" "enters d n = k" "wakes v = wakes u @ drop (length (wakes u)) (wakes v)"
      using barrier_step.enter_arrives [OF n k(1) a] arrival_enters [OF a] w by simp_all
    from b have "bsim m ws (?s v (i + barrier_msg_size)) d"
      by (simp add: served_twice(1) [OF c'(6) d(3)])
    moreover have "up_bytes (?s v (i + barrier_msg_size)) n = r"
      using read_on [of i "sent_up s n" h "[]" r] c'(5) ne by (simp add: up_bytes_def sent_up_def served_by_def)
    moreover have "wakes v = wakes (proc s m) @ ss @ drop (length (wakes u)) (wakes v)"
      using d(3) c'(6) by simp
    moreover have "record_inv m ws d"
      by (rule record_inv_step [OF d(1) nodes c'(2)])
    ultimately show "?P ts r v"
      using rtranclp.rtrancl_into_rtrancl [OF c'(1) d(1)] k(3) d(2) by blast
  qed (use b base in simp_all)
  then obtain c' i where c': "(barrier_step m ws sp)\<^sup>*\<^sup>* c c'" "bsim m ws (?s w i) c'" "up_bytes (?s w i) n = rest"
    by blast
  have "i = seen_up s n + length bs"
    using read_count [OF b(1) [unfolded up_bytes_def], of i] c'(3) bsimD(1) [OF c'(2) n] bsimD(1) [OF sim n] ne
    by (simp add: worker_bsim_def links_ok_def up_bytes_def sent_up_def served_by_def)
  with c' show ?thesis by blast
qed

section \<open>The refinement\<close>

lemma bsystem_simulates:
  assumes st: "bsystem_step m ws sp s s'" and sim: "bsim m ws s c" and inv: "record_inv m ws c"
    and nodes: "barrier_nodes m ws"
  shows "\<exists>c'. (barrier_step m ws sp)\<^sup>*\<^sup>* c c' \<and> bsim m ws s' c'"
proof -
  have m: "m \<notin> set ws"
    using nodes by (simp add: barrier_nodes_def)
  then have ne: "n \<noteq> m" if "n \<in> set ws" for n
    using that by auto
  have single: ?thesis if "\<exists>c'. barrier_step m ws sp c c' \<and> bsim m ws s' c'"
    using that by blast
  from st show ?thesis
  proof cases
    case (arrives n w)
    show ?thesis
    proof (rule single, cases "n = m")
      case True
      with arrives have h: "dsm_sync_handle_barrier_enter m (proc s m) = Inr w"
        using master_arrive_eq [OF sim] by simp
      obtain d where d: "arrival m ws m c = Inr d"
        using arrival_exists [OF sim h] by blast
      have "bphase c m = Outside"
        using sim arrives True by (simp add: bsim_def)
      with sim_master_arrives [OF sim inv nodes _ h d] arrives True
      show "\<exists>c'. barrier_step m ws sp c c' \<and> bsim m ws s' c'"
        using barrier_step.master_enter [OF _ d, of sp] by auto
    next
      case False
      with arrives have n: "n \<in> set ws"
        by simp
      show "\<exists>c'. barrier_step m ws sp c c' \<and> bsim m ws s' c'"
        using sim_worker_arrives [OF sim n False, of w] barrier_step.worker_enter [OF n, of c m sp]
          bsimD(3) [OF sim n] arrives by auto
    qed
  next
    case (waits n r i)
    show ?thesis
    proof (rule single, cases "n = m")
      case True
      then show "\<exists>c'. barrier_step m ws sp c c' \<and> bsim m ws s' c'"
        using sim_master_waits [OF sim m, of r i] barrier_step.master_wait [of c m ws sp] waits sim
        by (auto simp: bsim_def)
    next
      case False
      with waits have n: "n \<in> set ws"
        by simp
      show "\<exists>c'. barrier_step m ws sp c c' \<and> bsim m ws s' c'"
        using sim_worker_waits [OF sim n False, of r i] barrier_step.worker_wait [OF n, of c m sp]
          bsimD(3) [OF sim n] waits by auto
    qed
  next
    case (tests n r)
    show ?thesis
    proof (rule single, cases "n = m")
      case True
      then show "\<exists>c'. barrier_step m ws sp c c' \<and> bsim m ws s' c'"
        using sim_master_tests [OF sim m, of r] barrier_step.master_retest [of c m ws sp] tests sim
        by (auto simp: bsim_def)
    next
      case False
      with tests have n: "n \<in> set ws"
        by simp
      show "\<exists>c'. barrier_step m ws sp c c' \<and> bsim m ws s' c'"
        using sim_worker_tests [OF sim n False, of "bcurrent s n" r] barrier_step.worker_return [OF n, of c m sp]
          bsimD(3) [OF sim n] tests by auto
    qed
  next
    case (master_reads n bs rest j fd buf again es buf' again' w)
    with bsim_master_reads [OF sim inv nodes] show ?thesis
      by simp
  next
    case (worker_reads n bs rest j fd buf again es buf' again' w)
    with bsim_worker_reads [OF sim _ ne] show ?thesis
      by simp
  next
    case (wakes_up n)
    have "bphase c n = Asleep"
      using wakes_up sim bsimD(3) [OF sim, of n] by (auto simp: bsim_def)
    then show ?thesis
      using wakes_up sim_wakes_up [OF sim m, of n] barrier_step.spurious [of n sp m ws c]
      by (intro single) auto
  qed
qed

text \<open>
  Conversely, whatever the protocol can do the processes can do: a server thread can always read the next
  message of a connection alone.
\<close>

lemma reads_one:
  assumes "msg_header src t 0 h" "handle_one (h, []) [] w = Inr v"
  shows "handle_client_data fd [Received (put_header h)] [] False w = Some (Inr ([], message_buffer (h, []) [], True, v))"
proof -
  have "message_ok (h, [])"
    using assms(1) by (simp add: message_ok_def msg_header_def)
  from client_single [OF this assms(2), of fd False] show ?thesis
    by (simp add: encode_message_def)
qed

lemma first_of:
  assumes "encodes src [] (replicate (Suc k) t) bs"
  shows "\<exists>h rest. msg_header src t 0 h \<and> bs = put_header h @ rest \<and> encodes src [] (replicate k t) rest"
  using assms by (simp add: encodes_Cons)

lemma handle_exists:
  assumes "bsim m ws s c" "arrival m ws n c' = Inr d" "mbar c' = mbar c"
  shows "\<exists>v. dsm_sync_handle_barrier_enter n (proc s m) = Inr v"
proof -
  obtain b r where "barrier_enter n (dsm_node_table_count (proc s m)) (barrier (ctx (proc s m))) = Inr (b, r)"
    using assms by (auto simp: arrival_def bsim_def barrier_master_def split: sum.splits)
  then show ?thesis
    by (cases r) (simp_all add: dsm_sync_handle_barrier_enter_def case_prod_beta Let_def)
qed

lemma master_reads_one:
  assumes sim: "bsim m ws s c" and inv: "record_inv m ws c" and nodes: "barrier_nodes m ws" and n: "n \<in> set ws"
    and k: "enters c n = Suc k" and d: "arrival m ws n (c\<lparr>enters := (enters c)(n := k)\<rparr>) = Inr d"
  shows "\<exists>s'. bsystem_step m ws sp s s' \<and> bsim m ws s' d"
proof -
  have ok: "barrier_master m ws (proc s m)" "mbar c = barrier (ctx (proc s m))" and m: "m \<notin> set ws"
    using sim nodes by (simp_all add: bsim_def barrier_nodes_def)
  obtain h rest where h: "msg_header n DSM_MSG_BARRIER_ENTER 0 h" "up_bytes s n = put_header h @ rest"
    "encodes n [] (replicate k DSM_MSG_BARRIER_ENTER) rest"
    using first_of [of n k DSM_MSG_BARRIER_ENTER "up_bytes s n"] bsimD(1) [OF sim n] k by (auto simp: worker_bsim_def)
  obtain v where v: "dsm_sync_handle_barrier_enter n (proc s m) = Inr v"
    using handle_exists [OF sim d] by auto
  then have one: "handle_one (h, []) [] (proc s m) = Inr v"
    using h(1) ok dispatch_barrier_enter [of h None "proc s m"]
    by (simp add: handle_one_def msg_header_def barrier_master_def master_linked_def)
  let ?s = "(served_by m v s)\<lparr>seen_up := (seen_up s)(n := seen_up s n + barrier_msg_size)\<rparr>"
  have "bsystem_step m ws sp s ?s"
    using bsystem_step.master_reads [OF n h(2) _ reads_one [OF h(1) one], of 0 sp] by simp
  moreover have "bsim m ws ?s d"
    using bsim_master_handles [OF sim inv nodes n k h one] d by blast
  ultimately show ?thesis
    by blast
qed

lemma worker_reads_one:
  assumes sim: "bsim m ws s c" and n: "n \<in> set ws" "n \<noteq> m" and k: "releases c n = Suc k"
  shows "\<exists>s'. bsystem_step m ws sp s s' \<and> bsim m ws s' (awaken n (c\<lparr>releases := (releases c)(n := k)\<rparr>))"
proof -
  obtain h rest where h: "msg_header m DSM_MSG_BARRIER_RELEASE 0 h" "down_bytes m s n = put_header h @ rest"
    "encodes m [] (replicate k DSM_MSG_BARRIER_RELEASE) rest"
    using first_of [of m k DSM_MSG_BARRIER_RELEASE "down_bytes m s n"] bsimD(1) [OF sim n(1)] k
    by (auto simp: worker_bsim_def)
  have one: "handle_one (h, []) [] (proc s n) = Inr (wake BroadcastBarrier (proc s n))"
    using h(1) dispatch_barrier_release [of h None "proc s n"] by (simp add: handle_one_def msg_header_def)
  let ?s = "(served_by n (wake BroadcastBarrier (proc s n)) s)
    \<lparr>seen_down := (seen_down s)(n := seen_down s n + barrier_msg_size)\<rparr>"
  have "bsystem_step m ws sp s ?s"
    using bsystem_step.worker_reads [OF n(1) h(2) _ reads_one [OF h(1) one], of 0 sp] by simp
  with bsim_worker_handles [OF sim n k h one] show ?thesis
    by blast
qed

lemma bsystem_realises:
  assumes st: "barrier_step m ws sp c c'" and sim: "bsim m ws s c" and inv: "record_inv m ws c"
    and nodes: "barrier_nodes m ws"
  shows "\<exists>s'. bsystem_step m ws sp s s' \<and> bsim m ws s' c'"
proof -
  have m: "m \<notin> set ws"
    using nodes by (simp add: barrier_nodes_def)
  then have ne: "n \<noteq> m" if "n \<in> set ws" for n
    using that by auto
  have pm: "bpc s m = bphase c m"
    using sim by (simp add: bsim_def)
  have pn: "bpc s n = bphase c n" if "n \<in> set ws" for n
    using bsimD(3) [OF sim that] by simp
  have w: "dsm_barrier_wait (proc s n) = (fst (dsm_barrier_wait (proc s n)), snd (dsm_barrier_wait (proc s n)))" for n
    by simp
  from st show ?thesis
  proof cases
    case (worker_enter n)
    obtain v where v: "dsm_barrier_arrive (proc s n) = Inr v"
      using worker_arrive [OF bsimD(2) [OF sim worker_enter(2)]] by blast
    show ?thesis
      using sim_worker_arrives [OF sim worker_enter(2) ne _ v] bsystem_step.arrives [of n m ws s v sp] v worker_enter
        pn ne by auto
  next
    case (worker_wait n)
    then show ?thesis
      using sim_worker_waits [OF sim worker_wait(2) ne w]
        bsystem_step.waits [where m = m and ws = ws and sp = sp and n = n, OF _ _ w] pn [of n] by auto
  next
    case (worker_return n)
    then show ?thesis
      using sim_worker_tests [OF sim worker_return(2) ne, of "bcurrent s n"]
        bsystem_step.tests [where m = m and ws = ws and sp = sp and s = s and n = n] pn [of n] by auto
  next
    case (enter_arrives n k)
    with master_reads_one [OF sim inv nodes] show ?thesis
      by blast
  next
    case (release_arrives n k)
    with worker_reads_one [OF sim _ ne] show ?thesis
      by blast
  next
    case (master_enter d)
    obtain v where v: "dsm_sync_handle_barrier_enter m (proc s m) = Inr v"
      using handle_exists [OF sim master_enter(3)] by auto
    then show ?thesis
      using sim_master_arrives [OF sim inv nodes _ v master_enter(3)] bsystem_step.arrives [of m m ws s v sp]
        master_arrive_eq [OF sim] master_enter pm by auto
  next
    case master_wait
    then show ?thesis
      using sim_master_waits [OF sim m w]
        bsystem_step.waits [where m = m and ws = ws and sp = sp and n = m, OF _ _ w] pm by auto
  next
    case master_retest
    then show ?thesis
      using sim_master_tests [OF sim m]
        bsystem_step.tests [where m = m and ws = ws and sp = sp and s = s and n = m] pm by auto
  next
    case (spurious n)
    then have "bpc s n = Asleep"
      using pm pn by auto
    then show ?thesis
      using sim_wakes_up [OF sim m, of n] bsystem_step.wakes_up [of n sp m ws s] spurious by blast
  qed
qed

lemma bsystem_start_simulates:
  assumes "bsystem_start m ws s"
  shows "\<exists>c. barrier_start c \<and> bsim m ws s c"
proof -
  let ?c = "\<lparr>mbar = barrier (ctx (proc s m)), bphase = (\<lambda>_. Outside), current = bcurrent s m, enters = (\<lambda>_. 0),
    releases = (\<lambda>_. 0), rounds = 0, issued = (\<lambda>_. 0), entered = (\<lambda>_. 0), passed = (\<lambda>_. 0)\<rparr>"
  have "barrier_start ?c" "bsim m ws s ?c"
    using assms by (simp_all add: barrier_start_def bsim_def worker_bsim_def bsystem_start_def)
  then show ?thesis by blast
qed

interpretation bar_sim: forward_simulation barrier_start "barrier_step m ws sp"
  "\<lambda>s. barrier_nodes m ws \<longrightarrow> record_inv m ws s"
  "bsystem_start m ws" "bsystem_step m ws sp" "\<lambda>s c. barrier_nodes m ws \<and> bsim m ws s c"
proof unfold_locales
  fix s assume "bsystem_start m ws s"
  then show "\<exists>a. barrier_start a \<and> barrier_nodes m ws \<and> bsim m ws s a"
    using bsystem_start_simulates [of m ws s] by (simp add: bsystem_start_def)
next
  fix s s' c
  assume "bsystem_step m ws sp s s'" "barrier_nodes m ws \<and> bsim m ws s c" "barrier_nodes m ws \<longrightarrow> record_inv m ws c"
  then show "\<exists>a'. (barrier_step m ws sp)\<^sup>*\<^sup>* c a' \<and> barrier_nodes m ws \<and> bsim m ws s' a'"
    using bsystem_simulates [of m ws sp s s' c] by simp
qed

lemma bsystem_runs_barrier:
  assumes "bsystem_reach m ws sp s"
  shows "\<exists>c. barrier_reach m ws sp c \<and> record_inv m ws c \<and> barrier_nodes m ws \<and> bsim m ws s c \<and>
    (sp \<subseteq> {m} \<longrightarrow> barrier_inv m ws c)"
proof -
  obtain c where c: "barrier_reach m ws sp c" "barrier_nodes m ws" "bsim m ws s c"
    using bar_sim.rel_reach [OF assms] by blast
  with barrier_inv_reach [OF c(1,2)] bar_record.inv_reach [OF c(1)] show ?thesis
    by auto
qed

text \<open>A run of the protocol is a run of processes that start where it starts.\<close>

lemma bsystem_realises_run:
  assumes "reachable (\<lambda>c. c = c0) (barrier_step m ws sp) c"
    and start: "bsystem_start m ws s0" "barrier_start c0" "bsim m ws s0 c0"
  shows "\<exists>s. bsystem_reach m ws sp s \<and> bsim m ws s c \<and> record_inv m ws c \<and> (sp \<subseteq> {m} \<longrightarrow> barrier_inv m ws c)"
  using assms(1)
proof (induction rule: reachable.induct)
  case (reach_start c)
  then show ?case
    using start bsystem_reach_start [OF start(1)] barrier_inv_start record_inv_start by blast
next
  case (reach_step c c')
  have nodes: "barrier_nodes m ws"
    using start(1) by (simp add: bsystem_start_def)
  from reach_step.IH obtain s where s: "bsystem_reach m ws sp s" "bsim m ws s c" "record_inv m ws c"
    "sp \<subseteq> {m} \<Longrightarrow> barrier_inv m ws c"
    by blast
  obtain s' where s': "bsystem_step m ws sp s s'" "bsim m ws s' c'"
    using bsystem_realises [OF reach_step.hyps(2) s(2,3) nodes] by blast
  show ?case
    using bsystem_reach_step [OF s(1) s'(1)] s'(2) record_inv_step [OF reach_step.hyps(2) nodes s(3)]
      barrier_inv_step [OF reach_step.hyps(2) nodes _ s(4)] by blast
qed

text \<open>The arrival of a node is in the master's record, or on its way there.\<close>

definition accounted :: "u32 \<Rightarrow> barrier_system \<Rightarrow> u32 \<Rightarrow> bool" where
  "accounted m s n \<longleftrightarrow> n \<in> set (barrier_arrivals (barrier (ctx (proc s m)))) \<or> n \<noteq> m \<and> up_bytes s n \<noteq> []"

section \<open>A master and a worker\<close>

definition pair_nodes :: world where
  "pair_nodes =
     (let (_, w) = dsm_node_table_init boot_world;
          (_, w) = dsm_node_table_add demo_ip 9000 10 DSM_ROLE_MASTER (-1) w;
          (_, w) = dsm_node_table_add demo_ip 9001 20 DSM_ROLE_WORKER 7 w
      in w)"

definition pair_processes :: "u32 \<Rightarrow> world" where
  "pair_processes n =
     (if n = 1 then pair_nodes\<lparr>ctx := (ctx pair_nodes)\<lparr>local_role := DSM_ROLE_MASTER, local_node_id := 1\<rparr>\<rparr>
      else demo_processes n)"

definition pair_system :: barrier_system where
  "pair_system = \<lparr>proc = pair_processes, seen_up = (\<lambda>n. length (sent (pair_processes n) 5)),
     seen_down = (\<lambda>n. length (sent (pair_processes 1) 7)),
     bpc = (\<lambda>_. Outside), bcurrent = (\<lambda>_. 0), bentered = (\<lambda>_. 0), bpassed = (\<lambda>_. 0)\<rparr>"

lemma pair_process:
  "local_role (ctx (pair_processes 1)) = DSM_ROLE_MASTER" "local_node_id (ctx (pair_processes 1)) = 1"
  "send_script (pair_processes 1) fd = []" "barrier (ctx (pair_processes 1)) = zero_barrier"
  by (simp_all add: pair_processes_def pair_nodes_def case_prod_beta Let_def add_send_script init_send_script
      add_frame init_frame)
     (simp_all add: boot_world_def zero_context_def)

lemma pair_table: "node_socket 2 (pair_processes 1) = Some 7" "dsm_node_table_count (pair_processes 1) = 2"
  by code_simp+

lemma pair_system_start: "bsystem_start 1 [2] pair_system" and pair_system_sim: "bsim 1 [2] pair_system demo_net"
proof -
  have master: "barrier_master 1 [2] (pair_processes 1)"
    by (simp add: barrier_master_def master_linked_def pair_process pair_table)
  have worker: "worker_linked 2 (pair_processes 2)" "master_fd (ctx (pair_processes 2)) = 5"
    by (simp_all add: worker_linked_def pair_processes_def demo_process)
  show "bsystem_start 1 [2] pair_system"
    using master worker
    by (simp add: bsystem_start_def pair_system_def barrier_nodes_def link_defs pair_process pair_table)
       (simp add: zero_barrier_def)
  show "bsim 1 [2] pair_system demo_net"
    using master worker
    by (simp add: bsim_def worker_bsim_def pair_system_def demo_net_def link_defs pair_process pair_table)
qed

lemma pair_runs:
  assumes "demo_reach sp c"
  shows "\<exists>s. bsystem_reach 1 [2] sp s \<and> bsim 1 [2] s c \<and> (sp \<subseteq> {1} \<longrightarrow> barrier_inv 1 [2] c)"
  using bsystem_realises_run [OF _ pair_system_start demo_net_start pair_system_sim] assms by blast

text \<open>
  The first round is over and the worker, released before it waited, sleeps; and the master sleeps too
  after the worker arrived again before it.
\<close>

lemma pair_lost:
  "\<exists>s. bsystem_reach 1 [2] {} s \<and> bpc s 2 = Asleep \<and> \<not> accounted 1 s 2 \<and> down_bytes 1 s 2 = []"
proof -
  obtain c where c: "demo_reach {} c" "bphase c 2 = Asleep" "releases c 2 = 0" "passed c 2 = 0" "rounds c = 1"
    using demo_lost_reach by blast
  obtain s where s: "bsystem_reach 1 [2] {} s" "bsim 1 [2] s c" "barrier_inv 1 [2] c"
    using pair_runs [OF c(1)] by auto
  have w: "worker_bsim 1 s c 2"
    using s(2) by (simp add: bsim_def)
  have "count_list (barrier_arrivals (mbar c)) 2 = 0" "enters c 2 = 0"
    using barrier_invD(1) [OF s(3), of 2] c by (simp_all add: node_inv_def)
  then have "\<not> accounted 1 s 2"
    using w s(2) by (simp add: accounted_def worker_bsim_def bsim_def count_list_0_iff)
  with s(1) w c show ?thesis
    by (intro exI [of _ s]) (simp add: worker_bsim_def)
qed

lemma pair_stuck:
  "\<exists>s. bsystem_reach 1 [2] {} s \<and> bpc s 1 = Asleep \<and> bpc s 2 = Asleep \<and> \<not> accounted 1 s 1 \<and>
    up_bytes s 2 = [] \<and> down_bytes 1 s 2 = []"
proof -
  obtain c where c: "demo_reach {} c" "bphase c 1 = Asleep" "bphase c 2 = Asleep" "passed c 1 = 0" "rounds c = 1"
    "releases c 2 = 0" "enters c 1 = 0" "enters c 2 = 0"
    using demo_master_missed_reach by blast
  obtain s where s: "bsystem_reach 1 [2] {} s" "bsim 1 [2] s c" "barrier_inv 1 [2] c"
    using pair_runs [OF c(1)] by auto
  have "count_list (barrier_arrivals (mbar c)) 1 = 0"
    using barrier_invD(1) [OF s(3), of 1] c by (simp add: node_inv_def)
  then have "\<not> accounted 1 s 1"
    using s(2) by (simp add: accounted_def bsim_def count_list_0_iff)
  with s(1,2) c show ?thesis
    by (intro exI [of _ s]) (simp add: bsim_def worker_bsim_def)
qed

text \<open>
  A worker whose wait ends without reason passes the barrier, although the master has not arrived: the code
  waits once and tests nothing.
\<close>

lemma worker_passes_alone:
  "\<exists>s. bsystem_reach 1 [2] {2} s \<and> bpassed s 2 = 1 \<and> bentered s 1 = 0"
proof -
  obtain c where c: "demo_reach {2} c" "passed c 2 = 1" "entered c 1 = 0"
    using spurious_wakeup_passes by blast
  obtain s where "bsystem_reach 1 [2] {2} s" "bsim 1 [2] s c"
    using pair_runs [OF c(1)] by blast
  with c(2,3) show ?thesis
    by (intro exI [of _ s]) (simp add: bsim_def worker_bsim_def)
qed

section \<open>Properties\<close>

text \<open>
  C3. The barrier holds every node back: the nodes run \<^verbatim>\<open>dsm_barrier\<close> and their server threads and talk
  only by the bytes they send. As long as no worker wakes up without reason, no node has returned from
  \<^verbatim>\<open>dsm_barrier\<close> more often than every node, the master included, has arrived at it, and the next arrival
  of any node stays inside the master's array of arrivals.
\<close>

theorem barrier_synchronises:
  assumes "bsystem_reach m ws sp s" "sp \<subseteq> {m}" "a \<in> set (m # ws)" "b \<in> set (m # ws)"
  shows "bpassed s a \<le> bentered s b \<and>
    unat (arrived_count (barrier (ctx (proc s m)))) < length (arrived (barrier (ctx (proc s m))))"
proof -
  obtain c where c: "barrier_reach m ws sp c" "barrier_nodes m ws" "bsim m ws s c"
    using bsystem_runs_barrier [OF assms(1)] by blast
  from net_synchronises [OF c(1,2) assms(2-4)] c(3) assms(3,4) show ?thesis
    by (auto simp: bsim_def worker_bsim_def)
qed

theorem barrier_synchronises_witness:
  "\<exists>s. bsystem_reach 1 [2] {} s \<and> bpc s 2 = Asleep \<and> bpassed s 1 \<le> bentered s 2 \<and> bpassed s 2 \<le> bentered s 1"
proof -
  obtain s where "bsystem_reach 1 [2] {} s" "bpc s 2 = Asleep"
    using pair_lost by blast
  with barrier_synchronises [of 1 "[2]" "{}" s 1 2] barrier_synchronises [of 1 "[2]" "{}" s 2 1] show ?thesis
    by auto
qed

text \<open>
  C4. The processes and the protocol match, step by step, whichever nodes \<open>sp\<close> wake up without reason: a state the processes reach shows, at every
  node, what a state of the protocol of \<open>DsmBarrier\<close> shows, with the messages in flight there as the bytes
  that nobody has read yet (\<open>bsim\<close>); what the processes do next is some steps of the protocol, and
  whatever step the protocol can take the processes can take.
\<close>

theorem barrier_system_refines:
  assumes "bsystem_reach m ws sp s"
  shows "\<exists>c. barrier_reach m ws sp c \<and> bsim m ws s c \<and>
    (\<forall>s'. bsystem_step m ws sp s s' \<longrightarrow>
       (\<exists>c'. (barrier_step m ws sp)\<^sup>*\<^sup>* c c' \<and> bsim m ws s' c')) \<and>
    (\<forall>c'. barrier_step m ws sp c c' \<longrightarrow> (\<exists>s'. bsystem_step m ws sp s s' \<and> bsim m ws s' c'))"
proof -
  obtain c where c: "barrier_reach m ws sp c" "record_inv m ws c" "barrier_nodes m ws" "bsim m ws s c"
    using bsystem_runs_barrier [OF assms] by blast
  with bsystem_simulates [OF _ c(4,2,3)] bsystem_realises [OF _ c(4,2,3)] show ?thesis
    by (intro exI [of _ c]) simp
qed

theorem barrier_system_refines_witness:
  "\<exists>c. barrier_reach 1 [2] {} c \<and> bsim 1 [2] pair_system c \<and> bphase c 1 = Outside"
  using barrier_system_refines [OF bsystem_reach_start [OF pair_system_start], of "{}"]
  by (auto simp: bsim_def pair_system_def)

text \<open>
  C9. A release that reaches a node before it waits is lost, and with it the barrier: a node, worker or
  master, that waits in \<^verbatim>\<open>dsm_barrier\<close> although its arrival is neither recorded at the master nor on its
  way there, and with no release on its way to it, never wakes up again, and the barrier never opens again
  for anybody, unless \<^verbatim>\<open>pthread_cond_wait\<close> returns without reason, on this node or on a worker.
\<close>

theorem barrier_lost_release:
  assumes "bsystem_reach m ws sp s" "n \<in> set (m # ws)" "sp \<subseteq> {m} - {n}"
    and "bpc s n = Asleep" "\<not> accounted m s n" "n \<noteq> m \<Longrightarrow> down_bytes m s n = []"
    and "(bsystem_step m ws sp)\<^sup>*\<^sup>* s s'"
  shows "bpc s' n = Asleep \<and> bpassed s' n = bpassed s n \<and>
    barrier_id (barrier (ctx (proc s' m))) = barrier_id (barrier (ctx (proc s m)))"
proof -
  have sp: "sp \<subseteq> {m}" "n \<notin> sp"
    using assms(3) by auto
  obtain c where c: "barrier_reach m ws sp c" "barrier_inv m ws c" "barrier_nodes m ws" "bsim m ws s c"
    using bsystem_runs_barrier [OF assms(1)] sp(1) by blast
  obtain c' where c': "(barrier_step m ws sp)\<^sup>*\<^sup>* c c'" "bsim m ws s' c'"
    using bar_sim.rel_steps [OF assms(7), of c] bar_record.inv_reach [OF c(1)] c(3,4) by blast
  have field: "bphase d n = bpc x n \<and> passed d n = bpassed x n" if "bsim m ws x d" for x d
    using that assms(2) by (auto simp: bsim_def worker_bsim_def)
  have "enters c n = 0 \<and> releases c n = 0"
  proof (cases "n = m")
    case True
    with barrier_invD(2) [OF c(2)] show ?thesis
      by (simp add: master_inv_def)
  next
    case False
    with assms(2,5,6) bsimD(1) [OF c(4), of n] show ?thesis
      by (auto simp: accounted_def worker_bsim_def encodes_empty)
  qed
  moreover have "count_list (barrier_arrivals (mbar c)) n = 0"
    using assms(5) c(4) by (auto simp: accounted_def bsim_def count_list_0_iff)
  ultimately have "passed c n < rounds c" "releases c n = 0" "bphase c n = Asleep"
    using barrier_invD(1) [OF c(2) assms(2)] assms(4) field [OF c(4)] by (auto simp: node_inv_def)
  from net_lost_release [OF c(1,3) sp(1) assms(2) sp(2) this(3,2,1) c'(1)]
  have kept: "bphase c' n = Asleep" "passed c' n = passed c n" "rounds c' = rounds c"
    by blast+
  have "barrier_inv m ws c'"
    using bar.inv_steps [OF c'(1)] c(2,3) sp(1) by blast
  then have "barrier_id (mbar c') = barrier_id (mbar c)"
    using c(2) kept(3) by (simp add: barrier_inv_def)
  with kept field [OF c(4)] field [OF c'(2)] c(4) c'(2) show ?thesis
    by (simp add: bsim_def)
qed

theorem barrier_lost_release_witness:
  "(\<exists>s. bsystem_reach 1 [2] {} s \<and> \<not> (\<exists>s'. (bsystem_step 1 [2] {})\<^sup>*\<^sup>* s s' \<and> bpc s' 2 \<noteq> Asleep)) \<and>
   (\<exists>s. bsystem_reach 1 [2] {} s \<and> \<not> (\<exists>s'. (bsystem_step 1 [2] {})\<^sup>*\<^sup>* s s' \<and> bpc s' 1 \<noteq> Asleep))"
proof -
  obtain s where s: "bsystem_reach 1 [2] {} s" "bpc s 2 = Asleep" "\<not> accounted 1 s 2" "down_bytes 1 s 2 = []"
    using pair_lost by blast
  obtain t where t: "bsystem_reach 1 [2] {} t" "bpc t 1 = Asleep" "\<not> accounted 1 t 1"
    using pair_stuck by blast
  show ?thesis
    using s(1) t(1) barrier_lost_release [OF s(1) _ _ s(2,3)] s(4) barrier_lost_release [OF t(1) _ _ t(2,3)] by auto
qed

text \<open>
  C10. Only lost releases stop the barrier, when no worker wakes up without reason. Where all nodes wait and
  every byte sent has been read, let \<open>k\<close> be the number of rounds the master has opened. The last \<open>k\<close>
  messages on the connection of every worker are releases; a node whose arrival is recorded has arrived
  \<open>k + 1\<close> times and waits for the round to come; and there is a node that is not recorded: it has arrived
  \<open>k\<close> times and been released as often, but has returned only \<open>k - 1\<close> times.
\<close>

theorem barrier_no_deadlock:
  assumes "bsystem_reach m ws sp s" "sp \<subseteq> {m}" "\<forall>n \<in> set (m # ws). bpc s n = Asleep"
    and "\<forall>n \<in> set ws. up_bytes s n = [] \<and> down_bytes m s n = []"
  shows "\<exists>k. barrier_id (barrier (ctx (proc s m))) = word_of_nat k \<and> (\<forall>n \<in> set ws. releases_sent m s n k) \<and>
    (\<forall>n \<in> set (m # ws). bentered s n = Suc (bpassed s n) \<and> bentered s n = (if accounted m s n then Suc k else k)) \<and>
    (\<exists>n \<in> set (m # ws). \<not> accounted m s n)"
proof -
  obtain c where c: "barrier_reach m ws sp c" "barrier_inv m ws c" "barrier_nodes m ws" "bsim m ws s c"
    using bsystem_runs_barrier [OF assms(1)] assms(2) by blast
  have quiet: "bphase c n = Asleep \<and> enters c n = 0 \<and> releases c n = 0" if "n \<in> set (m # ws)" for n
  proof (cases "n = m")
    case True
    with barrier_invD(2) [OF c(2)] c(4) assms(3) show ?thesis
      by (simp add: master_inv_def bsim_def)
  next
    case False
    with that assms(3,4) bsimD(1) [OF c(4), of n] show ?thesis
      by (auto simp: worker_bsim_def encodes_empty)
  qed
  have counts: "entered c n = bentered s n \<and> passed c n = bpassed s n" if "n \<in> set (m # ws)" for n
    using that c(4) by (auto simp: bsim_def worker_bsim_def)
  have node: "bentered s n = Suc (bpassed s n) \<and> bentered s n = (if accounted m s n then Suc (rounds c) else rounds c)"
    if n: "n \<in> set (m # ws)" for n
  proof -
    have "accounted m s n \<longleftrightarrow> count_list (barrier_arrivals (mbar c)) n \<noteq> 0"
      using n assms(4) c(4) by (auto simp: accounted_def bsim_def count_list_0_iff)
    with barrier_invD(1) [OF c(2) n] quiet [OF n] counts [OF n] show ?thesis
      by (auto simp: node_inv_def)
  qed
  moreover have "releases_sent m s n (rounds c)" if n: "n \<in> set ws" for n
  proof -
    have "n \<noteq> m"
      using n c(3) by (auto simp: barrier_nodes_def)
    then show ?thesis
      using barrier_invD(1) [OF c(2), of n] bsimD(1) [OF c(4) n] n by (simp add: node_inv_def worker_bsim_def)
  qed
  moreover obtain n where n: "n \<in> set (m # ws)" "passed c n < rounds c"
    using net_no_deadlock [OF c(1,3) assms(2)] quiet by blast
  then have "\<not> accounted m s n"
    using node [OF n(1)] counts [OF n(1)] by (auto split: if_splits)
  moreover have "barrier_id (barrier (ctx (proc s m))) = word_of_nat (rounds c)"
    using c(2,4) by (simp add: barrier_inv_def bsim_def)
  ultimately show ?thesis
    using n(1) by blast
qed

theorem barrier_no_deadlock_witness:
  "\<exists>s k. bsystem_reach 1 [2] {} s \<and> bpc s 1 = Asleep \<and> bpc s 2 = Asleep \<and> releases_sent 1 s 2 k \<and>
     bpassed s 1 < k \<and> bentered s 1 = k"
proof -
  obtain s where s: "bsystem_reach 1 [2] {} s" "bpc s 1 = Asleep" "bpc s 2 = Asleep" "\<not> accounted 1 s 1"
    "up_bytes s 2 = []" "down_bytes 1 s 2 = []"
    using pair_stuck by blast
  then obtain k where "releases_sent 1 s 2 k" "bentered s 1 = Suc (bpassed s 1)" "bentered s 1 = k"
    using barrier_no_deadlock [OF s(1)] by auto
  with s(1-3) show ?thesis
    by (intro exI [of _ s] exI [of _ k]) simp
qed

end
