(* ===== verification/DsmUdp.thy ===== *)
theory DsmUdp
  imports DsmDispatch "HOL-Library.Monad_Syntax"
begin

text \<open>
  Discovery over UDP, \<^verbatim>\<open>src/dsm_udp.c\<close>: the text messages as \<^verbatim>\<open>snprintf\<close> writes them and \<^verbatim>\<open>sscanf\<close>
  reads them, the listener thread over a list of events, the socket's life cycle and the wait for a
  master. A C string is the list of its bytes without the NUL.
\<close>

section \<open>Decimal numbers\<close>

text \<open>\<^verbatim>\<open>%d\<close> of \<^verbatim>\<open>printf\<close>.\<close>

fun digits_of :: "nat \<Rightarrow> u8 list" where
  "digits_of n = (if n < 10 then [48 + word_of_nat n] else digits_of (n div 10) @ [48 + word_of_nat (n mod 10)])"

declare digits_of.simps [simp del]

definition show_int :: "int \<Rightarrow> u8 list" where
  "show_int i = (if i < 0 then 45 # digits_of (nat (- i)) else digits_of (nat i))"

text \<open>
  \<^verbatim>\<open>%d\<close> of \<^verbatim>\<open>scanf\<close>: white space, a sign, digits; the value is that of \<^verbatim>\<open>strtol\<close> (64 bits, clamped),
  stored as an \<^verbatim>\<open>int\<close>. \<^verbatim>\<open>atoi\<close> reads the same and is 0 where \<^verbatim>\<open>%d\<close> does not match.
\<close>

definition is_space :: "u8 \<Rightarrow> bool" where
  "is_space b \<longleftrightarrow> b = 32 \<or> 9 \<le> b \<and> b \<le> 13"

definition is_digit :: "u8 \<Rightarrow> bool" where
  "is_digit b \<longleftrightarrow> 48 \<le> b \<and> b \<le> 57"

definition decimal_value :: "u8 list \<Rightarrow> nat" where
  "decimal_value ds = foldl (\<lambda>n d. 10 * n + unat (d - 48)) 0 ds"

definition strtol_value :: "bool \<Rightarrow> u8 list \<Rightarrow> int" where
  "strtol_value neg ds =
     (let v = int (decimal_value ds) in if neg then max (- (2 ^ 63)) (- v) else min (2 ^ 63 - 1) v)"

definition scan_int :: "u8 list \<Rightarrow> (u32 \<times> u8 list) option" where
  "scan_int bs =
     (let bs = dropWhile is_space bs;
          neg = (take 1 bs = [45]);
          bs = (if neg \<or> take 1 bs = [43] then drop 1 bs else bs);
          ds = takeWhile is_digit bs
      in if ds = [] then None else Some (word_of_int (strtol_value neg ds), dropWhile is_digit bs))"

definition atoi :: "u8 list \<Rightarrow> u32" where
  "atoi bs = (case scan_int bs of None \<Rightarrow> 0 | Some (v, _) \<Rightarrow> v)"

section \<open>The two messages\<close>

definition UDP_BUFFER_SIZE :: nat where "UDP_BUFFER_SIZE = 1024"

definition ascii :: "string \<Rightarrow> u8 list" where "ascii s = map of_char s"

definition DISCOVER_MSG :: "u8 list" where "DISCOVER_MSG = ascii ''DISCOVER_DSM/''"
definition DISCOVER_REPLY :: "u8 list" where "DISCOVER_REPLY = ascii ''DISCOVER_REPLY/''"

text \<open>\<^verbatim>\<open>snprintf(msg, sizeof(msg), prefix "%s/%d/%d", ip, port, chunks)\<close>\<close>

definition format_message :: "u8 list \<Rightarrow> u8 list \<Rightarrow> u16 \<Rightarrow> u32 \<Rightarrow> u8 list" where
  "format_message prefix a p c =
     take (UDP_BUFFER_SIZE - 1)
       (prefix @ cstr a @ [47] @ show_int (uint p) @ [47] @ show_int (sint c))"

definition expect :: "u8 list \<Rightarrow> u8 list \<Rightarrow> u8 list option" where
  "expect lit bs = (if take (length lit) bs = lit then Some (drop (length lit) bs) else None)"

text \<open>\<^verbatim>\<open>%15[^/]\<close>\<close>

definition scan_field :: "u8 list \<Rightarrow> (u8 list \<times> u8 list) option" where
  "scan_field bs =
     (let s = takeWhile (\<lambda>b. b \<noteq> 47) (take 15 bs) in
      if s = [] then None else Some (s, drop (length s) bs))"

text \<open>\<^verbatim>\<open>sscanf(buf, prefix "%15[^/]/%d/%d", ip, &port, &chunks) == 3\<close>\<close>

definition scan_message :: "u8 list \<Rightarrow> u8 list \<Rightarrow> (u8 list \<times> u32 \<times> u32) option" where
  "scan_message prefix bs = do {
     bs \<leftarrow> expect prefix bs;
     (a, bs) \<leftarrow> scan_field bs;
     bs \<leftarrow> expect [47] bs;
     (p, bs) \<leftarrow> scan_int bs;
     bs \<leftarrow> expect [47] bs;
     (c, bs) \<leftarrow> scan_int bs;
     Some (a, p, c)
   }"

section \<open>The listener thread\<close>

text \<open>A datagram to the address written in a string, or to all.\<close>

definition sendto :: "u8 list option \<Rightarrow> u8 list \<Rightarrow> world \<Rightarrow> bool \<times> world" where
  "sendto dst bs w =
     (let (ok, w) = sys_call w in
      (ok, if ok then w\<lparr>datagrams := datagrams w @ [(dst, bs)]\<rparr> else w))"

text \<open>The join response, and the new table for everybody.\<close>

definition welcome_node :: "int \<Rightarrow> u32 \<Rightarrow> world \<Rightarrow> world" where
  "welcome_node sockfd nid w =
     (let (hdr, w) = dsm_create_header DSM_MSG_JOIN_RESPONSE nid 4 w;
          (_, w) = dsm_tcp_send_raw sockfd (put_header hdr) w;
          (_, w) = dsm_tcp_send_raw sockfd (put32 nid) w
      in snd (dsm_node_table_broadcast w))"

text \<open>
  \<^verbatim>\<open>msg_port\<close> and \<^verbatim>\<open>msg_chunks\<close> are \<^verbatim>\<open>int\<close>s; the port is cut to 16 bits on its way into the table.
\<close>

definition handle_discover :: "u8 list \<Rightarrow> u32 \<Rightarrow> u32 \<Rightarrow> world \<Rightarrow> world" where
  "handle_discover a p c w =
     (if a = cstr (local_ip (ctx w)) \<and> sint p = uint (local_port (ctx w)) then w
      else if local_role (ctx w) \<noteq> DSM_ROLE_MASTER then w
      else
        let reply = format_message DISCOVER_REPLY (local_ip (ctx w)) (local_port (ctx w))
                      (local_chunks (ctx w));
            (_, w) = sendto (Some a) reply w;
            (sockfd, w) = dsm_tcp_connect a (ucast p) w
        in if sockfd < 0 then w
           else let (nid, w) = dsm_node_table_add a (ucast p) c DSM_ROLE_WORKER sockfd w in
                if 0 < nid then welcome_node sockfd (word_of_int nid) w else w)"

definition handle_discover_reply :: "u8 list \<Rightarrow> u32 \<Rightarrow> world \<Rightarrow> world" where
  "handle_discover_reply a p w =
     wake SignalDiscovery
       (w\<lparr>ctx := (ctx w)\<lparr>master_found := True,
            master_ip := take (DSM_MAX_IP_LEN - 1) a @
              replicate (DSM_MAX_IP_LEN - length (take (DSM_MAX_IP_LEN - 1) a)) 0,
            master_port := ucast p\<rparr>\<rparr>)"

definition handle_datagram :: "u8 list \<Rightarrow> world \<Rightarrow> world" where
  "handle_datagram bs w =
     (let buf = cstr (take (UDP_BUFFER_SIZE - 1) bs) in
      case scan_message DISCOVER_MSG buf of
        Some (a, p, c) \<Rightarrow> handle_discover a p c w
      | None \<Rightarrow>
          (case scan_message DISCOVER_REPLY buf of
             Some (a, p, _) \<Rightarrow> handle_discover_reply a p w
           | None \<Rightarrow> w))"

text \<open>
  What a round of the loop meets: \<^verbatim>\<open>select\<close> times out, is interrupted or fails, \<^verbatim>\<open>recvfrom\<close> fails, or
  a datagram comes. The thread ends when it is told to or \<^verbatim>\<open>select\<close> fails; otherwise the result is
  the state after the events.
\<close>

datatype udp_event =
  SelectTimeout | SelectInterrupted | SelectError | RecvfromError | Datagram "u8 list"

fun udp_listener_thread_func :: "udp_event list \<Rightarrow> world \<Rightarrow> world" where
  "udp_listener_thread_func [] w = w"
| "udp_listener_thread_func (e # es) w =
     (if \<not> (g_udp_running w \<and> running (ctx w)) then w
      else case e of
        SelectError \<Rightarrow> w
      | Datagram bs \<Rightarrow> udp_listener_thread_func es (handle_datagram bs w)
      | _ \<Rightarrow> udp_listener_thread_func es w)"

section \<open>The socket and the thread\<close>

definition dsm_udp_init :: "world \<Rightarrow> int \<times> world" where
  "dsm_udp_init w =
     (let (fd, w) = sys_fd w; w = w\<lparr>g_udp_socket := fd\<rparr> in
      if fd < 0 then (-1, w)
      else let (bcast_ok, w) = sys_call w in
        if \<not> bcast_ok then (-1, (close_fd fd w)\<lparr>g_udp_socket := -1\<rparr>)
        else let (_, w) = sys_call w; (bind_ok, w) = sys_call w in
          if \<not> bind_ok then (-1, (close_fd fd w)\<lparr>g_udp_socket := -1\<rparr>)
          else (0, w\<lparr>ctx := (ctx w)\<lparr>udp_fd := fd\<rparr>\<rparr>))"

definition dsm_udp_shutdown :: "world \<Rightarrow> world" where
  "dsm_udp_shutdown w =
     (let w = (if 0 \<le> g_udp_socket w then (close_fd (g_udp_socket w) w)\<lparr>g_udp_socket := -1\<rparr> else w)
      in w\<lparr>ctx := (ctx w)\<lparr>udp_fd := -1\<rparr>\<rparr>)"

definition dsm_udp_broadcast_discover :: "u8 list \<Rightarrow> u16 \<Rightarrow> u32 \<Rightarrow> world \<Rightarrow> int \<times> world" where
  "dsm_udp_broadcast_discover a p c w =
     (if g_udp_socket w < 0 then (-1, w)
      else let (ok, w) = sendto None (format_message DISCOVER_MSG a p c) w in (if ok then 0 else -1, w))"

definition dsm_udp_start_listener :: "world \<Rightarrow> int \<times> world" where
  "dsm_udp_start_listener w =
     (if g_udp_running w then (0, w)
      else let w = w\<lparr>g_udp_running := True\<rparr>; (ok, w) = sys_call w in
        if \<not> ok then (-1, w\<lparr>g_udp_running := False\<rparr>) else (0, w))"

definition dsm_udp_stop_listener :: "world \<Rightarrow> world" where
  "dsm_udp_stop_listener w = (if \<not> g_udp_running w then w else w\<lparr>g_udp_running := False\<rparr>)"

text \<open>
  The wait for a master, over the returns of \<^verbatim>\<open>pthread_cond_timedwait\<close>: woken, out of time, or in
  error, each with the events the listener thread went through since the last one; what the server
  thread does meanwhile is left out. \<open>None\<close>: still waiting when the returns run out.
\<close>

datatype wait_return = Woken "udp_event list" | TimedOut "udp_event list" | WaitError "udp_event list"

fun dsm_udp_wait_discovery :: "wait_return list \<Rightarrow> world \<Rightarrow> (dsm_role \<times> world) option" where
  "dsm_udp_wait_discovery rs w =
     (if master_found (ctx w) \<or> \<not> running (ctx w)
      then Some (if master_found (ctx w) then DSM_ROLE_WORKER else DSM_ROLE_MASTER, w)
      else case rs of
        [] \<Rightarrow> None
      | Woken es # rs \<Rightarrow> dsm_udp_wait_discovery rs (udp_listener_thread_func es w)
      | TimedOut es # rs \<Rightarrow>
          (let w = udp_listener_thread_func es w
           in Some (if master_found (ctx w) then DSM_ROLE_WORKER else DSM_ROLE_MASTER, w))
      | WaitError es # rs \<Rightarrow>
          (let w = udp_listener_thread_func es w
           in Some (if master_found (ctx w) then DSM_ROLE_WORKER else DSM_ROLE_MASTER, w)))"

declare dsm_udp_wait_discovery.simps [simp del]

section \<open>Reading back what was written\<close>

lemma digit_byte: "n < 10 \<Longrightarrow> unat ((48 + word_of_nat n :: u8) - 48) = n"
  by (simp add: unat_of_nat)

lemma digit_is_digit:
  assumes "n < 10"
  shows "is_digit (48 + word_of_nat n)"
proof -
  have "unat (48 + word_of_nat n :: u8) = 48 + n"
    using assms by (simp add: unat_word_ariths unat_of_nat)
  with assms show ?thesis
    by (simp add: is_digit_def word_le_nat_alt)
qed

lemma digits_all: "list_all is_digit (digits_of n) \<and> digits_of n \<noteq> []"
proof (induction n rule: digits_of.induct)
  case (1 n)
  show ?case
    using 1 by (subst (1 2) digits_of.simps) (auto simp: digit_is_digit)
qed

lemma digits_value: "decimal_value (digits_of n) = n"
proof (induction n rule: digits_of.induct)
  case (1 n)
  have step: "decimal_value (ds @ [d]) = 10 * decimal_value ds + unat (d - 48)" for ds d
    by (simp add: decimal_value_def)
  show ?case
  proof (cases "n < 10")
    case True
    then show ?thesis
      by (subst digits_of.simps) (simp add: decimal_value_def digit_byte unat_of_nat)
  next
    case False
    then show ?thesis
      using 1 by (subst digits_of.simps) (simp add: step unat_of_nat)
  qed
qed

lemma digit_first:
  assumes "is_digit b"
  shows "\<not> is_space b" "b \<noteq> 45" "b \<noteq> 43"
proof -
  have "48 \<le> unat b" "unat b \<le> 57"
    using assms by (simp_all add: is_digit_def word_le_nat_alt)
  then show "\<not> is_space b" "b \<noteq> 45" "b \<noteq> 43"
    by (auto simp: is_space_def word_le_nat_alt)
qed

lemma scan_show_int:
  assumes "- (2 ^ 63) \<le> i" "i < 2 ^ 63" "rest = [] \<or> \<not> is_digit (hd rest)"
  shows "scan_int (show_int i @ rest) = Some (word_of_int i, rest)"
proof -
  have run: "takeWhile is_digit (digits_of n @ rest) = digits_of n"
      "dropWhile is_digit (digits_of n @ rest) = rest" for n
  proof -
    have all: "\<forall>d \<in> set (digits_of n). is_digit d"
      using digits_all [of n] by (simp add: list_all_iff)
    have "takeWhile is_digit rest = []" "dropWhile is_digit rest = rest"
      using assms(3) by (cases rest; simp)+
    with all show "takeWhile is_digit (digits_of n @ rest) = digits_of n"
      "dropWhile is_digit (digits_of n @ rest) = rest"
      by (simp_all add: takeWhile_append2 dropWhile_append2)
  qed
  have first: "dropWhile is_space (digits_of n @ rest) = digits_of n @ rest"
      "take (Suc 0) (digits_of n @ rest) \<noteq> [45]" "take (Suc 0) (digits_of n @ rest) \<noteq> [43]" for n
    using digits_all [of n] by (cases "digits_of n"; auto simp: digit_first)+
  have none: "digits_of n \<noteq> []" for n
    using digits_all [of n] by simp
  have "strtol_value True (digits_of (nat (- i))) = i" if "i < 0"
    using that assms(1) by (simp add: strtol_value_def digits_value max_def)
  moreover have "strtol_value False (digits_of (nat i)) = i" if "\<not> i < 0"
    using that assms(2) by (auto simp: strtol_value_def digits_value min_def)
  moreover have "\<not> is_space 45"
    by (simp add: is_space_def)
  ultimately show ?thesis
    by (simp add: scan_int_def show_int_def run first none Let_def del: take_append)
qed

lemma digits_length:
  assumes "n < 10 ^ k" "0 < k"
  shows "length (digits_of n) \<le> k"
  using assms
proof (induction k arbitrary: n)
  case 0
  then show ?case by simp
next
  case (Suc k)
  show ?case
  proof (cases "n < 10")
    case True
    then show ?thesis by (subst digits_of.simps) simp
  next
    case False
    then have "0 < k" "n div 10 < 10 ^ k"
      using Suc.prems(1) by (auto intro: gr0I simp: less_mult_imp_div_less mult.commute)
    with Suc.IH [of "n div 10"] False show ?thesis
      by (subst digits_of.simps) simp
  qed
qed

lemma show_int_length:
  assumes "\<bar>i\<bar> < 10 ^ 10"
  shows "length (show_int i) \<le> 11"
  using digits_length [of "nat i" 10] digits_length [of "nat (- i)" 10] assms
  by (auto simp: show_int_def nat_less_iff)

lemma show_int_text: "list_all (\<lambda>b. b \<noteq> 0) (show_int i)"
proof -
  have "list_all (\<lambda>b. b \<noteq> 0) (digits_of n)" for n
    using digits_all [of n] by (auto simp: list_all_iff is_digit_def)
  then show ?thesis
    by (simp add: show_int_def)
qed

lemma cstr_text: "list_all (\<lambda>b. b \<noteq> 0) bs \<Longrightarrow> cstr bs = bs"
  by (simp add: cstr_def takeWhile_eq_all_conv list_all_iff)

lemma prefixes:
  "DISCOVER_MSG = [68, 73, 83, 67, 79, 86, 69, 82, 95, 68, 83, 77, 47]"
  "DISCOVER_REPLY = [68, 73, 83, 67, 79, 86, 69, 82, 95, 82, 69, 80, 76, 89, 47]"
  by code_simp+

lemma prefix_text:
  "length DISCOVER_MSG \<le> 15" "list_all (\<lambda>b. b \<noteq> 0) DISCOVER_MSG"
  "length DISCOVER_REPLY \<le> 15" "list_all (\<lambda>b. b \<noteq> 0) DISCOVER_REPLY"
  by (simp_all add: prefixes)

text \<open>An address as the code passes it around: not empty, at most 15 bytes, no slash.\<close>

definition address_ok :: "u8 list \<Rightarrow> bool" where
  "address_ok a \<longleftrightarrow> cstr a \<noteq> [] \<and> length (cstr a) \<le> 15 \<and> 47 \<notin> set (cstr a)"

lemma format_whole:
  assumes "address_ok a" "length prefix \<le> 15" "list_all (\<lambda>b. b \<noteq> 0) prefix"
  shows "cstr (take (UDP_BUFFER_SIZE - 1) (format_message prefix a p c)) =
    prefix @ cstr a @ [47] @ show_int (uint p) @ [47] @ show_int (sint c)" (is "_ = ?text")
proof -
  have "uint p < 2 ^ 16" "0 \<le> uint p"
    using uint_lt2p [of p] by simp_all
  moreover have "sint c < 2 ^ 31" "- (2 ^ 31) \<le> sint c"
    using sint_lt [of c] sint_ge [of c] by simp_all
  ultimately have "length (show_int (uint p)) \<le> 11" "length (show_int (sint c)) \<le> 11"
    by (intro show_int_length; simp)+
  then have "length ?text \<le> UDP_BUFFER_SIZE - 1"
    using assms by (simp add: address_ok_def UDP_BUFFER_SIZE_def)
  moreover have "cstr ?text = ?text"
    using assms(3) show_int_text by (intro cstr_text) (auto simp: list_all_iff dest: cstr_no_nul)
  ultimately show ?thesis
    by (simp add: format_message_def)
qed

lemma slash: "\<not> is_digit 47"
  by (simp add: is_digit_def)

lemma scan_format:
  assumes "address_ok a"
  shows "scan_message prefix (prefix @ cstr a @ [47] @ show_int (uint p) @ [47] @ show_int (sint c)) =
    Some (cstr a, ucast (p :: u16), c)"
proof -
  let ?rest = "show_int (uint p) @ [47] @ show_int (sint c)"
  have a: "cstr a \<noteq> []" "length (cstr a) \<le> 15" "\<forall>b \<in> set (cstr a). b \<noteq> 47"
    using assms by (auto simp: address_ok_def)
  have "takeWhile (\<lambda>b. b \<noteq> 47) (take 15 (cstr a @ [47] @ ?rest)) = cstr a"
  proof -
    have "take 15 (cstr a @ [47] @ ?rest) = cstr a @ take (15 - length (cstr a)) ([47] @ ?rest)"
      using a(2) by simp
    also have "takeWhile (\<lambda>b. b \<noteq> 47) \<dots> = cstr a"
      using a(3) by (cases "15 - length (cstr a)") (simp_all add: takeWhile_append2)
    finally show ?thesis .
  qed
  then have field: "scan_field (cstr a @ [47] @ ?rest) = Some (cstr a, [47] @ ?rest)"
    using a(1) by (simp add: scan_field_def del: append_Cons append.simps take_append)
  have p: "scan_int ?rest = Some (ucast p, [47] @ show_int (sint c))"
  proof -
    have "- (2 ^ 63) \<le> uint p"
      by (rule order_trans [of _ 0]) simp_all
    moreover have "uint p < 2 ^ 63"
      using uint_lt2p [of p] by simp
    ultimately show ?thesis
      by (subst scan_show_int) (simp_all add: slash word_of_int_uint)
  qed
  have c: "scan_int (show_int (sint c)) = Some (c, [])"
    using sint_lt [of c] sint_ge [of c] scan_show_int [of "sint c" "[]"] by simp
  have lit: "expect lit (lit @ bs) = Some bs" for lit bs
    by (simp add: expect_def)
  show ?thesis
    unfolding scan_message_def by (simp only: lit field p c bind.bind_lunit split)
qed

lemma scan_other:
  "scan_message DISCOVER_REPLY (DISCOVER_MSG @ bs) = None"
  "scan_message DISCOVER_MSG (DISCOVER_REPLY @ bs) = None"
  by (simp_all add: scan_message_def expect_def prefixes)

section \<open>What the listener does to a node that is not the master\<close>

definition is_reply :: "u8 list \<Rightarrow> bool" where
  "is_reply bs \<longleftrightarrow> (let buf = cstr (take (UDP_BUFFER_SIZE - 1) bs) in
     scan_message DISCOVER_MSG buf = None \<and> scan_message DISCOVER_REPLY buf \<noteq> None)"

lemma datagram_cases:
  assumes "local_role (ctx w) \<noteq> DSM_ROLE_MASTER"
  shows "is_reply bs \<Longrightarrow> \<exists>a p. handle_datagram bs w = handle_discover_reply a p w"
    and "\<not> is_reply bs \<Longrightarrow> handle_datagram bs w = w"
  using assms
  by (auto simp: handle_datagram_def is_reply_def Let_def handle_discover_def split: option.splits)

lemma reply_frame [simp]:
  "local_role (ctx (handle_discover_reply a p w)) = local_role (ctx w)"
  "running (ctx (handle_discover_reply a p w)) = running (ctx w)"
  "g_udp_running (handle_discover_reply a p w) = g_udp_running w"
  "master_found (ctx (handle_discover_reply a p w))"
  by (simp_all add: handle_discover_reply_def wake_def)

lemma listener_flags:
  assumes "local_role (ctx w) \<noteq> DSM_ROLE_MASTER" "running (ctx w)" "g_udp_running w" "SelectError \<notin> set es"
  shows "local_role (ctx (udp_listener_thread_func es w)) = local_role (ctx w) \<and>
    running (ctx (udp_listener_thread_func es w)) \<and> g_udp_running (udp_listener_thread_func es w) \<and>
    (master_found (ctx (udp_listener_thread_func es w)) \<longleftrightarrow>
       master_found (ctx w) \<or> (\<exists>bs. Datagram bs \<in> set es \<and> is_reply bs))"
  using assms
proof (induction es arbitrary: w)
  case Nil
  then show ?case by simp
next
  case (Cons e es)
  show ?case
  proof (cases e)
    case (Datagram bs)
    show ?thesis
    proof (cases "is_reply bs")
      case True
      then obtain a p where "handle_datagram bs w = handle_discover_reply a p w"
        using datagram_cases(1) [OF Cons.prems(1)] by blast
      then show ?thesis
        using Cons.IH [of "handle_discover_reply a p w"] Cons.prems Datagram True by auto
    next
      case False
      then show ?thesis
        using Cons.IH [of w] datagram_cases(2) [OF Cons.prems(1)] Cons.prems Datagram by auto
    qed
  qed (use Cons.IH [of w] Cons.prems in auto)
qed

text \<open>The events the node goes through until the wait is over.\<close>

fun heard :: "wait_return list \<Rightarrow> udp_event list" where
  "heard [] = []"
| "heard (Woken es # rs) = es @ heard rs"
| "heard (TimedOut es # rs) = es"
| "heard (WaitError es # rs) = es"

lemma wait_role:
  assumes "local_role (ctx w) \<noteq> DSM_ROLE_MASTER" "running (ctx w)" "g_udp_running w"
    "SelectError \<notin> set (heard rs)" "dsm_udp_wait_discovery rs w = Some (r, w')"
  shows "r = (if master_found (ctx w) \<or> (\<exists>bs. Datagram bs \<in> set (heard rs) \<and> is_reply bs)
    then DSM_ROLE_WORKER else DSM_ROLE_MASTER)"
  using assms
proof (induction rs arbitrary: w)
  case Nil
  then show ?case
    by (subst (asm) dsm_udp_wait_discovery.simps) (auto split: if_splits)
next
  case (Cons x rs)
  show ?case
  proof (cases "master_found (ctx w)")
    case True
    then show ?thesis
      using Cons.prems(5) by (subst (asm) dsm_udp_wait_discovery.simps) simp
  next
    case False
    note flags = listener_flags [OF Cons.prems(1-3)]
    show ?thesis
    proof (cases x)
      case (Woken es)
      let ?w = "udp_listener_thread_func es w"
      have es: "SelectError \<notin> set es" "SelectError \<notin> set (heard rs)"
        using Cons.prems(4) Woken by auto
      have run: "dsm_udp_wait_discovery rs ?w = Some (r, w')"
        using Cons.prems(2,5) False Woken by (subst (asm) dsm_udp_wait_discovery.simps) simp
      show ?thesis
        using Cons.IH [of ?w, OF _ _ _ es(2) run] flags [OF es(1)] Cons.prems(1) False Woken by auto
    next
      case (TimedOut es)
      then show ?thesis
        using Cons.prems(2,4,5) False flags [of es]
        by (subst (asm) dsm_udp_wait_discovery.simps) (auto simp: Let_def)
    next
      case (WaitError es)
      then show ?thesis
        using Cons.prems(2,4,5) False flags [of es]
        by (subst (asm) dsm_udp_wait_discovery.simps) (auto simp: Let_def)
    qed
  qed
qed

lemma wait_ends: "TimedOut es \<in> set rs \<Longrightarrow> dsm_udp_wait_discovery rs w \<noteq> None"
proof (induction rs arbitrary: w)
  case Nil
  then show ?case by simp
next
  case (Cons x rs)
  then show ?case
    by (subst dsm_udp_wait_discovery.simps) (cases x; auto simp: Let_def)
qed

section \<open>Joining\<close>

text \<open>
  What the master puts on the connection of a node it has just added, when its sockets take what they
  are given: a join response with the id, then the table.
\<close>

definition join_header :: "dsm_msg_header \<Rightarrow> bool" where
  "join_header h \<longleftrightarrow> magic h = DSM_MAGIC \<and> msg_type h = msg_code DSM_MSG_JOIN_RESPONSE \<and> payload_len h = 4"

definition table_header :: "u8 list \<Rightarrow> dsm_msg_header \<Rightarrow> bool" where
  "table_header bs h \<longleftrightarrow> magic h = DSM_MAGIC \<and> msg_type h = msg_code DSM_MSG_NODE_TABLE \<and>
     unat (payload_len h) = length bs \<and> length bs \<le> DSM_MAX_MESSAGE_SIZE"

lemma send_raw_datagrams [simp]:
  "datagrams (snd (dsm_tcp_send_raw fd data w)) = datagrams w"
  "connects (snd (dsm_tcp_send_raw fd data w)) = connects w"
  by (simp_all add: dsm_tcp_send_raw_def case_prod_beta)

lemma broadcast_frame [simp]:
  "datagrams (snd (dsm_tcp_broadcast hdr p w)) = datagrams w" "ctx (snd (dsm_tcp_broadcast hdr p w)) = ctx w"
  "connects (snd (dsm_tcp_broadcast hdr p w)) = connects w"
proof -
  let ?same = "\<lambda>v u. datagrams v = datagrams u \<and> ctx v = ctx u \<and> connects v = connects u"
  have one: "?same (snd (broadcast_step hdr p i s)) (snd s)" for i s
    by (cases s) (auto simp: broadcast_step_def Let_def case_prod_beta split: option.splits)
  have "?same (snd (foldl (\<lambda>s i. broadcast_step hdr p i s) s is)) (snd s)" for s "is"
    by (induction "is" arbitrary: s) (simp_all add: one)
  then show "datagrams (snd (dsm_tcp_broadcast hdr p w)) = datagrams w" "ctx (snd (dsm_tcp_broadcast hdr p w)) = ctx w"
    "connects (snd (dsm_tcp_broadcast hdr p w)) = connects w"
    by (simp_all add: dsm_tcp_broadcast_def case_prod_beta Let_def split: option.splits)
qed

lemma serialize_length:
  "nodes_ok w \<Longrightarrow> dsm_node_table_serialize len w = Some bs \<Longrightarrow> length bs \<le> 2180"
proof -
  assume ok: "nodes_ok w" and bs: "dsm_node_table_serialize len w = Some bs"
  obtain t where t: "node_table (ctx w) = Some t" "table_ok t"
    using ok bs by (auto simp: nodes_ok_def dsm_node_table_serialize_def split: option.splits)
  have fits: "sizeof_node_table + length (live_nodes t) * sizeof_node_info \<le> len"
    using bs t by (auto simp: dsm_node_table_serialize_def length_live_nodes Let_def split: if_splits)
  have infos: "\<forall>i \<in> set (map node_info_of (live_nodes t)). node_info_ok i"
    by (simp add: node_info_of_ok)
  have "length bs = sizeof_node_table + length (live_nodes t) * sizeof_node_info"
    using node_info_codec.length_put_array [OF infos] serialize_bytes [OF t fits] bs by simp
  moreover have "length (live_nodes t) \<le> DSM_MAX_NODES"
    using t(2) by (simp add: length_live_nodes table_ok_def)
  ultimately show ?thesis by simp
qed

lemma serialize_frame:
  "node_table (ctx w') = node_table (ctx w) \<Longrightarrow> dsm_node_table_serialize len w' = dsm_node_table_serialize len w"
  by (simp add: dsm_node_table_serialize_def)

lemma welcome_sent:
  assumes ok: "nodes_ok w" "local_role (ctx w) = DSM_ROLE_MASTER" and clear: "\<And>f. send_script w f = []"
    and nodes: "abs_nodes w = ns @ [n]" "node_id n \<noteq> local_node_id (ctx w)" "tcp_fd n \<notin> tcp_fd ` set ns"
    and fd: "tcp_fd n = fd" "0 \<le> fd"
  shows "node_table (ctx (welcome_node fd nid w)) = node_table (ctx w) \<and>
    datagrams (welcome_node fd nid w) = datagrams w \<and> connects (welcome_node fd nid w) = connects w \<and>
    (\<exists>h h' bs. join_header h \<and> table_header bs h' \<and> dsm_node_table_serialize DSM_MAX_MESSAGE_SIZE w = Some bs \<and>
      sent (welcome_node fd nid w) fd = sent w fd @ encode_message (h, put32 nid) @ encode_message (h', bs))"
proof -
  obtain t where t: "node_table (ctx w) = Some t" "table_ok t" "live_nodes t = ns @ [n]"
    using ok(1) nodes(1) by (auto simp: nodes_ok_def abs_nodes_def split: option.splits)
  obtain bs where bs: "dsm_node_table_serialize DSM_MAX_MESSAGE_SIZE w = Some bs"
    using serialize_fits [OF ok(1), of DSM_MAX_MESSAGE_SIZE] t(1) by auto
  have len: "length bs \<le> 2180"
    by (rule serialize_length [OF ok(1) bs])
  let ?h = "dsm_create_header DSM_MSG_JOIN_RESPONSE nid 4 w"
  let ?w1 = "(snd ?h)\<lparr>sent := (sent w)(fd := sent w fd @ put_header (fst ?h))\<rparr>"
  let ?w2 = "?w1\<lparr>sent := (sent ?w1)(fd := sent ?w1 fd @ put32 nid)\<rparr>"
  let ?h' = "dsm_create_header DSM_MSG_NODE_TABLE 0 (length bs) ?w2"
  let ?h'' = "(fst ?h')\<lparr>dst_node := node_id n\<rparr>"
  have "dsm_tcp_send_raw fd (put_header (fst ?h)) (snd ?h) = (0, ?w1)" "dsm_tcp_send_raw fd (put32 nid) ?w1 = (0, ?w2)"
    using clear by (simp_all add: send_raw_clear)
  moreover have "dsm_node_table_serialize DSM_MAX_MESSAGE_SIZE ?w2 = Some bs"
    using bs serialize_frame [of ?w2 w] by simp
  ultimately have "welcome_node fd nid w = snd (dsm_tcp_broadcast (fst ?h') (Some bs) (snd ?h'))"
    using ok(2) by (simp add: welcome_node_def dsm_node_table_broadcast_def case_prod_beta Let_def)
  moreover have "sent (snd (dsm_tcp_broadcast (fst ?h') (Some bs) (snd ?h'))) (tcp_fd n) =
      sent (snd ?h') (tcp_fd n) @ put_header ?h'' @ bs"
    using t clear nodes fd len by (intro broadcast_to_last [of _ t ns n]) (simp_all add: unat_of_nat)
  moreover have "sent (snd ?h') fd = sent w fd @ put_header (fst ?h) @ put32 nid" "datagrams (snd ?h') = datagrams w"
    "connects (snd ?h') = connects w"
    by (simp, simp_all add: dsm_create_header_def dsm_get_next_seq_def)
  moreover have "join_header (fst ?h)" "table_header bs ?h''"
    using len by (simp_all add: join_header_def table_header_def unat_of_nat)
  ultimately show ?thesis
    using bs fd(1) by (auto simp: encode_message_def)
qed

lemma abs_nodes_eq: "node_table (ctx w') = node_table (ctx w) \<Longrightarrow> abs_nodes w' = abs_nodes w"
  by (simp add: abs_nodes_def)

text \<open>Small words read the same signed and unsigned.\<close>

lemma sint_small: "uint (x :: u32) < 2 ^ 31 \<Longrightarrow> sint x = uint x"
  unfolding sint_uint
  by (intro signed_take_bit_int_eq_self) (auto intro: order_trans [of _ 0])

lemma port_as_int: "sint (ucast (p :: u16) :: u32) = uint p" "ucast (ucast p :: u32) = p"
proof -
  have "uint (ucast p :: u32) = uint p"
    by (rule uint_up_ucast) (simp add: is_up)
  moreover have "uint p < 2 ^ 31"
    using uint_lt2p [of p] by simp
  ultimately show "sint (ucast p :: u32) = uint p"
    by (metis sint_small)
  show "ucast (ucast p :: u32) = p"
    by (intro bit_word_eqI) (auto simp: bit_simps)
qed

text \<open>The result of an addition that appends.\<close>

lemma add_result:
  assumes "nodes_ok w" "node_table (ctx w) \<noteq> None" "length (abs_nodes w) < DSM_MAX_NODES"
    "\<forall>n \<in> set (abs_nodes w). \<not> same_endpoint a p n" "res_script w = []"
  shows "fst (dsm_node_table_add a p c DSM_ROLE_WORKER fd w) = int (Suc (length (abs_nodes w)))"
proof -
  obtain t where t: "node_table (ctx w) = Some t" "table_ok t"
    using assms(1,2) by (auto simp: nodes_ok_def)
  have abs: "abs_nodes w = live_nodes t" "length (live_nodes t) = unat (node_count t)"
    using t by (simp_all add: abs_nodes_def length_live_nodes)
  have none: "first_index (same_endpoint a p) (nodes t) 0 (unat (node_count t)) = None"
    using first_index_ex [of "same_endpoint a p" "live_nodes t"] assms(4)
    by (simp add: table_search [OF t(2)] abs)
  have "sint (node_count t + 1) = int (Suc (unat (node_count t)))"
  proof -
    have u: "unat (node_count t + 1) = Suc (unat (node_count t))"
      using assms(3) by (intro unat_plus1_u32) (simp add: abs)
    then have "uint (node_count t + 1) = int (Suc (unat (node_count t)))"
      by (metis uint_nat)
    moreover have "int (Suc (unat (node_count t))) < 2 ^ 31"
      using assms(3) unfolding abs(1) abs(2) [symmetric] by simp
    ultimately have "sint (node_count t + 1) = uint (node_count t + 1)"
      by (intro sint_small) (simp only:)
    with \<open>uint (node_count t + 1) = int (Suc (unat (node_count t)))\<close> show ?thesis
      by (simp only:)
  qed
  then show ?thesis
    using none t assms(3,5)
    by (simp add: dsm_node_table_add_def Let_def abs sys_call_ok put_table_def)
qed

text \<open>A message that was written whole is read whole.\<close>

lemma datagram_discover:
  assumes "address_ok a"
  shows "handle_datagram (format_message DISCOVER_MSG a p c) w = handle_discover (cstr a) (ucast p) c w"
  unfolding handle_datagram_def Let_def format_whole [OF assms prefix_text(1,2)] scan_format [OF assms]
  by simp

lemma datagram_reply:
  assumes "address_ok a"
  shows "handle_datagram (format_message DISCOVER_REPLY a p c) w = handle_discover_reply (cstr a) (ucast p) w"
  unfolding handle_datagram_def Let_def format_whole [OF assms prefix_text(3,4)] scan_format [OF assms]
    scan_other by simp

lemma is_reply_format:
  assumes "address_ok a"
  shows "is_reply (format_message DISCOVER_REPLY a p c)"
  unfolding is_reply_def Let_def format_whole [OF assms prefix_text(3,4)] scan_format [OF assms] scan_other
  by simp

text \<open>
  Discovery on the master lets a node in: for a new address and port, with a connection that can be
  made, the reply goes to the address in the message, the node is appended to the table with the next
  id and the connection, and the new node gets its id and the table.
\<close>

lemma discovery_join:
  assumes ok: "nodes_ok w" "node_table (ctx w) \<noteq> None" "length (abs_nodes w) < DSM_MAX_NODES"
    and master: "local_role (ctx w) = DSM_ROLE_MASTER" "ids_in_order (abs_nodes w)"
      "local_node_id (ctx w) \<in> node_id ` set (abs_nodes w)"
    and addr: "address_ok a" "cstr a \<noteq> cstr (local_ip (ctx w)) \<or> p \<noteq> local_port (ctx w)"
      "\<forall>n \<in> set (abs_nodes w). \<not> same_endpoint a p n"
    and sys: "res_script w = []" "fd_script w = fd # fds" "0 \<le> fd" "fd \<notin> tcp_fd ` set (abs_nodes w)"
      "\<And>f. send_script w f = []"
  shows "\<exists>w' h h' bs. handle_datagram (format_message DISCOVER_MSG a p c) w = w' \<and> nodes_ok w' \<and>
    abs_nodes w' = abs_nodes w @ [new_entry (cstr a) p c DSM_ROLE_WORKER fd (now w) (length (abs_nodes w))] \<and>
    datagrams w' = datagrams w @ [(Some (cstr a),
      format_message DISCOVER_REPLY (local_ip (ctx w)) (local_port (ctx w)) (local_chunks (ctx w)))] \<and>
    connects w' = connects w @ [(fd, cstr a, p)] \<and> join_header h \<and> table_header bs h' \<and> dsm_node_table_serialize DSM_MAX_MESSAGE_SIZE w' = Some bs \<and>
    sent w' fd = sent w fd @ encode_message (h, put32 (word_of_nat (Suc (length (abs_nodes w))))) @
      encode_message (h', bs)"
proof -
  let ?r = "format_message DISCOVER_REPLY (local_ip (ctx w)) (local_port (ctx w)) (local_chunks (ctx w))"
  let ?w1 = "w\<lparr>datagrams := datagrams w @ [(Some (cstr a), ?r)], fd_script := fds,
    connects := connects w @ [(fd, cstr a, p)]\<rparr>"
  let ?add = "dsm_node_table_add (cstr a) p c DSM_ROLE_WORKER fd ?w1"
  let ?id = "word_of_nat (Suc (length (abs_nodes w))) :: u32"
  let ?n = "new_entry (cstr a) p c DSM_ROLE_WORKER fd (now w) (length (abs_nodes w))"
  have abs: "abs_nodes ?w1 = abs_nodes w" "nodes_ok ?w1"
    using ok(1) by (simp_all add: abs_nodes_def nodes_ok_def)
  have new: "\<forall>n \<in> set (abs_nodes ?w1). \<not> same_endpoint (cstr a) p n"
    using addr(3) unfolding abs same_endpoint_def by simp
  have id: "fst ?add = int (Suc (length (abs_nodes w)))"
    using ok(2,3) sys(1) new abs by (subst add_result) simp_all
  have nodes: "abs_nodes (snd ?add) = abs_nodes w @ [?n]"
    using add_refines [of ?w1 "cstr a" p c DSM_ROLE_WORKER fd] ok(2,3) new abs sys(1)
    by (auto simp: spec_add_def sys_call_ok)
  have other: "\<not> (cstr a = cstr (local_ip (ctx w)) \<and> uint p = uint (local_port (ctx w)))"
    using addr(2) by (metis word_uint_eq_iff)
  have connect: "sendto (Some (cstr a)) ?r w = (True, w\<lparr>datagrams := datagrams w @ [(Some (cstr a), ?r)]\<rparr>)"
    "dsm_tcp_connect (cstr a) p (w\<lparr>datagrams := datagrams w @ [(Some (cstr a), ?r)]\<rparr>) = (fd, ?w1)"
    using sys by (simp_all add: sendto_def sys_call_ok dsm_tcp_connect_def sys_fd_def)
  have frame: "send_script (snd ?add) f = []" "datagrams (snd ?add) = datagrams ?w1"
      "connects (snd ?add) = connects ?w1"
      "sent (snd ?add) fd = sent w fd" "local_role (ctx (snd ?add)) = DSM_ROLE_MASTER"
      "local_node_id (ctx (snd ?add)) = local_node_id (ctx w)" for f
    using sys(1,5) master(1) by (auto simp: add_send_script dsm_node_table_add_def case_prod_beta Let_def put_table_def
        sys_call_ok split: option.splits)
  have "ids_in_order (abs_nodes w @ [?n])"
    using master(2) by (simp add: ids_in_order_append new_entry_def add.commute)
  then have "distinct (map node_id (abs_nodes w @ [?n]))"
    using ok(3) by (intro ids_in_order_distinct) simp_all
  then have fresh: "node_id ?n \<noteq> local_node_id (ctx w)" "tcp_fd ?n = fd"
    using master(3) by (auto simp: new_entry_def image_iff)
  have "handle_datagram (format_message DISCOVER_MSG a p c) w = welcome_node fd ?id (snd ?add)"
    using master(1) other sys(3) id
    unfolding datagram_discover [OF addr(1), of p c w] handle_discover_def port_as_int if_not_P [OF other]
    by (simp add: connect case_prod_beta Let_def)
  moreover have sends: "node_table (ctx (welcome_node fd ?id (snd ?add))) = node_table (ctx (snd ?add)) \<and>
    datagrams (welcome_node fd ?id (snd ?add)) = datagrams (snd ?add) \<and>
    connects (welcome_node fd ?id (snd ?add)) = connects (snd ?add) \<and>
    (\<exists>h h' bs. join_header h \<and> table_header bs h' \<and>
      dsm_node_table_serialize DSM_MAX_MESSAGE_SIZE (snd ?add) = Some bs \<and>
      sent (welcome_node fd ?id (snd ?add)) fd =
        sent (snd ?add) fd @ encode_message (h, put32 ?id) @ encode_message (h', bs))"
    by (rule welcome_sent [OF _ frame(5,1) nodes])
       (use add_nodes_ok [OF abs(2)] fresh sys(3,4) frame(6) in simp_all)
  moreover note serialize_frame [OF conjunct1 [OF sends]] abs_nodes_eq [OF conjunct1 [OF sends]]
  moreover have "nodes_ok (welcome_node fd ?id (snd ?add))"
    using sends add_nodes_ok [OF abs(2), of "cstr a" p c DSM_ROLE_WORKER fd] by (simp add: nodes_ok_def)
  ultimately show ?thesis
    using nodes frame(2-4) by auto
qed

text \<open>The new node reads them: it takes its id and copies the table.\<close>

lemma joined:
  assumes hs: "join_header h" "table_header bs h'"
    and w: "nodes_ok w" "distinct (map node_id (abs_nodes w))" "dsm_node_table_serialize len w = Some bs"
    and v: "node_table (ctx v) \<noteq> None" "nodes_ok v" "abs_nodes v = []"
  shows "\<exists>buf' t. handle_client_data fd [Received (encode_message (h, put32 nid) @ encode_message (h', bs))] buf again v =
      Some (Inr ([], buf', True, put_table t (v\<lparr>ctx := (ctx v)\<lparr>local_node_id := nid\<rparr>\<rparr>))) \<and>
    list_all2 copy_of (live_nodes t) (abs_nodes w)"
proof -
  let ?v = "v\<lparr>ctx := (ctx v)\<lparr>local_node_id := nid\<rparr>\<rparr>" and ?m = "(h, put32 nid)" and ?m' = "(h', bs)"
  have p32: "put32 k \<noteq> []" for k
    by (metis length_put_int(2) list.size(3) zero_neq_numeral)
  then have ne: "put32 nid \<noteq> []" "bs \<noteq> []"
    using w(3) by (auto simp: dsm_node_table_serialize_def Let_def split: option.splits if_splits)
  have v': "node_table (ctx ?v) \<noteq> None" "nodes_ok ?v" "abs_nodes ?v = []"
    using v by (simp_all add: nodes_ok_def abs_nodes_def)
  obtain t where t: "dsm_node_table_deserialize (bs @ drop (length bs) (message_buffer ?m buf)) (length bs) ?v =
      (0, put_table t ?v)" "list_all2 copy_of (live_nodes t) (abs_nodes w)"
    using table_copied [OF w v'] by blast
  have "handle_one ?m buf v = Inr ?v"
    using hs(1) ne(1) dispatch_join_response [of h "put32 nid @ drop 4 buf" v]
    by (simp add: handle_one_def message_buffer_def join_header_def)
  moreover have "handle_one ?m' (message_buffer ?m buf) ?v = Inr (put_table t ?v)"
    using hs(2) ne(2) t(1) dispatch_node_table [of h' "bs @ drop (length bs) (message_buffer ?m buf)" ?v]
    by (simp add: handle_one_def message_buffer_def table_header_def)
  moreover have "message_ok ?m" "message_ok ?m'"
    using hs by (simp_all add: message_ok_def join_header_def table_header_def)
  ultimately show ?thesis
    using client_two [of ?m ?m' buf v ?v "put_table t ?v" fd again] t(2) by blast
qed

text \<open>A master with two workers that a third node can reach.\<close>

definition demo_listener :: world where
  "demo_listener = demo_nodes\<lparr>fd_script := [9],
     ctx := (ctx demo_nodes)\<lparr>local_role := DSM_ROLE_MASTER, local_node_id := 1, local_ip := demo_ip,
       local_port := 9000\<rparr>\<rparr>"

section \<open>Properties\<close>

text \<open>
  C24. What one node writes the other reads: a discovery and a reply built from an address, a port and
  a number of chunks are recognised as what they are and handled with that address, port and number,
  and a node ignores the discovery it sent itself.
\<close>

theorem discovery_roundtrip:
  assumes "address_ok a"
  shows "handle_datagram (format_message DISCOVER_MSG a p c) w = handle_discover (cstr a) (ucast p) c w \<and>
    handle_datagram (format_message DISCOVER_REPLY a p c) w = handle_discover_reply (cstr a) (ucast p) w \<and>
    (a = local_ip (ctx w) \<and> p = local_port (ctx w) \<longrightarrow>
       handle_datagram (format_message DISCOVER_MSG a p c) w = w)"
proof -
  have "handle_datagram (format_message DISCOVER_MSG a p c) w = w"
    if "a = local_ip (ctx w)" "p = local_port (ctx w)"
    unfolding datagram_discover [OF assms] using that by (simp add: handle_discover_def port_as_int)
  then show ?thesis
    using datagram_discover [OF assms] datagram_reply [OF assms] by blast
qed

theorem discovery_roundtrip_witness:
  "handle_datagram (format_message DISCOVER_REPLY demo_ip 9000 64) boot_world =
     handle_discover_reply demo_ip 9000 boot_world"
proof -
  have "cstr demo_ip = demo_ip" "address_ok demo_ip"
    by (simp_all add: address_ok_def demo_ip_def cstr_def)
  then show ?thesis
    using discovery_roundtrip [of demo_ip 9000 64 boot_world] by simp
qed

text \<open>
  C27. Finding out the role: a node that is not the master yet, whose listener does not fail, becomes a
  worker exactly when some datagram it hears before the wait ends is a reply, and otherwise the
  master; and the wait ends, since the time limit comes.
\<close>

theorem discovery_role:
  assumes "local_role (ctx w) \<noteq> DSM_ROLE_MASTER" "running (ctx w)" "g_udp_running w"
    and "\<not> master_found (ctx w)" "SelectError \<notin> set (heard rs)" "TimedOut es \<in> set rs"
  shows "\<exists>w'. dsm_udp_wait_discovery rs w =
    Some (if \<exists>bs. Datagram bs \<in> set (heard rs) \<and> is_reply bs then DSM_ROLE_WORKER else DSM_ROLE_MASTER, w')"
proof -
  obtain r w' where "dsm_udp_wait_discovery rs w = Some (r, w')"
    using wait_ends [OF assms(6), of w] by (cases "dsm_udp_wait_discovery rs w") auto
  then show ?thesis
    using wait_role [OF assms(1-3,5)] assms(4) by auto
qed

theorem discovery_role_witness:
  "\<exists>w'. dsm_udp_wait_discovery [Woken [SelectTimeout, Datagram (format_message DISCOVER_REPLY demo_ip 9000 5)], TimedOut []]
     (boot_world\<lparr>ctx := fresh_context\<lparr>running := True\<rparr>, g_udp_running := True\<rparr>) = Some (DSM_ROLE_WORKER, w')"
proof -
  have "address_ok demo_ip"
    by code_simp
  then have "is_reply (format_message DISCOVER_REPLY demo_ip 9000 5)"
    by (rule is_reply_format)
  then show ?thesis
    using discovery_role [of "boot_world\<lparr>ctx := fresh_context\<lparr>running := True\<rparr>, g_udp_running := True\<rparr>"
        "[Woken [SelectTimeout, Datagram (format_message DISCOVER_REPLY demo_ip 9000 5)], TimedOut []]" "[]"]
    by (auto simp: fresh_context_def zero_context_def split: if_splits)
qed

text \<open>
  Nodes started together all become master: while their waits last, none of them is, so none
  answers, and however many discoveries they hear from each other each takes the silence for the
  absence of a master.
\<close>

lemma simultaneous_start_two_masters:
  assumes "local_role (ctx w) \<noteq> DSM_ROLE_MASTER" "running (ctx w)" "g_udp_running w"
    and "\<not> master_found (ctx w)"
    and "list_all (\<lambda>(a, p, c). address_ok a) others"
  shows "dsm_udp_wait_discovery
      [TimedOut (map (\<lambda>(a, p, c). Datagram (format_message DISCOVER_MSG a p c)) others)] w =
    Some (DSM_ROLE_MASTER, w)"
proof -
  have ignored: "udp_listener_thread_func
      (map (\<lambda>(a, p, c). Datagram (format_message DISCOVER_MSG a p c)) others) w = w"
    using assms(5)
  proof (induction others)
    case (Cons x xs)
    then show ?case
      using assms(1-3) by (cases x) (simp add: datagram_discover handle_discover_def)
  qed simp
  show ?thesis
    using assms(2,4) ignored by (subst dsm_udp_wait_discovery.simps) simp
qed

end
