(* ===== verification/DsmInvariant.thy ===== *)
theory DsmInvariant
  imports DsmDispatch
begin

text \<open>
  What every message keeps: an invariant of the tables of one process, preserved by each handler of
  \<^verbatim>\<open>src/dsm_tcp.c\<close> whatever the message, by the receiving loop whatever the bytes, and by the server
  thread whatever comes in; and the messages that can crash a process in such a state.
\<close>

section \<open>The invariant\<close>

text \<open>At most 64 nodes, 256 well-formed locks, room in the barrier's array, pages within capacity.\<close>

definition state_ok :: "world \<Rightarrow> bool" where
  "state_ok w \<longleftrightarrow> nodes_ok w \<and> locks_ok w \<and> barrier_ok (barrier (ctx w)) \<and> page_table_ok w"

text \<open>An operation that changes one of the four parts leaves the others alone.\<close>

lemma state_ok_nodes:
  assumes "state_ok w" "nodes_ok w'" "locks (ctx w') = locks (ctx w)" "barrier (ctx w') = barrier (ctx w)"
    "page_table (ctx w') = page_table (ctx w)"
  shows "state_ok w'"
  using assms by (simp add: state_ok_def locks_ok_def page_table_ok_def)

lemma state_ok_locks:
  assumes "state_ok w" "locks_ok w'" "node_table (ctx w') = node_table (ctx w)"
    "barrier (ctx w') = barrier (ctx w)" "page_table (ctx w') = page_table (ctx w)"
  shows "state_ok w'"
  using assms by (simp add: state_ok_def nodes_ok_def page_table_ok_def)

lemma state_ok_pages:
  assumes "state_ok w" "page_table_ok w'" "node_table (ctx w') = node_table (ctx w)"
    "locks (ctx w') = locks (ctx w)" "barrier (ctx w') = barrier (ctx w)"
  shows "state_ok w'"
  using assms by (simp add: state_ok_def nodes_ok_def locks_ok_def)

lemma state_ok_frame:
  assumes "node_table (ctx w') = node_table (ctx w)" "locks (ctx w') = locks (ctx w)"
    "barrier (ctx w') = barrier (ctx w)" "page_table (ctx w') = page_table (ctx w)"
  shows "state_ok w' \<longleftrightarrow> state_ok w"
  using assms by (simp add: state_ok_def nodes_ok_def locks_ok_def page_table_ok_def)

lemma state_ok_ctx: "ctx w' = ctx w \<Longrightarrow> state_ok w' \<longleftrightarrow> state_ok w"
  by (rule state_ok_frame) simp_all

section \<open>The operations of the components\<close>

named_theorems keeps_ok \<open>operations that keep the invariant\<close>

lemma remove_rest:
  "locks (ctx (snd (dsm_node_table_remove n w))) = locks (ctx w)"
  "barrier (ctx (snd (dsm_node_table_remove n w))) = barrier (ctx w)"
  "page_table (ctx (snd (dsm_node_table_remove n w))) = page_table (ctx w)"
  by (simp_all add: dsm_node_table_remove_def put_table_def split: option.splits)

lemma heartbeat_rest:
  "locks (ctx (dsm_node_table_heartbeat n w)) = locks (ctx w)"
  "barrier (ctx (dsm_node_table_heartbeat n w)) = barrier (ctx w)"
  "page_table (ctx (dsm_node_table_heartbeat n w)) = page_table (ctx w)"
  by (simp_all add: dsm_node_table_heartbeat_def update_node_def put_table_def split: option.splits)

lemma deserialize_rest:
  "locks (ctx (snd (dsm_node_table_deserialize buf n w))) = locks (ctx w)"
  "barrier (ctx (snd (dsm_node_table_deserialize buf n w))) = barrier (ctx w)"
  "page_table (ctx (snd (dsm_node_table_deserialize buf n w))) = page_table (ctx w)"
  by (simp_all add: dsm_node_table_deserialize_def put_table_def Let_def split: option.splits)

lemma remove_keeps [keeps_ok]: "state_ok w \<Longrightarrow> state_ok (snd (dsm_node_table_remove n w))"
  by (rule state_ok_nodes) (simp_all add: remove_rest remove_nodes_ok state_ok_def)

lemma heartbeat_keeps [keeps_ok]: "state_ok w \<Longrightarrow> state_ok (dsm_node_table_heartbeat n w)"
  by (rule state_ok_nodes) (simp_all add: heartbeat_rest heartbeat_nodes_ok state_ok_def)

lemma deserialize_keeps [keeps_ok]: "state_ok w \<Longrightarrow> state_ok (snd (dsm_node_table_deserialize buf n w))"
  by (rule state_ok_nodes) (simp_all add: deserialize_rest deserialize_nodes_ok state_ok_def)

lemma lock_state_keeps:
  assumes "state_ok w" "lock_ok l"
  shows "state_ok (put_lock k l w)" "state_ok (send_grant n k (put_lock k l w))"
proof -
  show *: "state_ok (put_lock k l w)"
    using assms by (intro state_ok_locks [OF assms(1)])
      (simp_all add: locks_ok_put state_ok_def, simp_all add: put_lock_def)
  show "state_ok (send_grant n k (put_lock k l w))"
    by (rule state_ok_frame [THEN iffD2, OF _ _ _ _ *]) (simp_all add: send_grant_def case_prod_beta)
qed

lemma lock_request_keeps [keeps_ok]: "state_ok w \<Longrightarrow> state_ok (snd (dsm_sync_handle_lock_request n k w))"
  using lm.request_inv [of "lock_at k w" n] locks_ok_at [of w k]
  by (auto simp: dsm_sync_handle_lock_request_def case_prod_beta Let_def lock_state_keeps not_le state_ok_def [of w]
      split: option.splits)

lemma lock_release_keeps [keeps_ok]: "state_ok w \<Longrightarrow> state_ok (snd (dsm_sync_handle_lock_release n k w))"
  using lm.release_inv [of "lock_at k w" n] locks_ok_at [of w k]
  by (auto simp: dsm_sync_handle_lock_release_def Let_def lock_state_keeps not_le state_ok_def [of w]
      split: option.splits)

lemma lock_grant_keeps: "state_ok w \<Longrightarrow> handle_lock_grant k w = Inr w' \<Longrightarrow> state_ok w'"
proof -
  assume ok: "state_ok w" and w': "handle_lock_grant k w = Inr w'"
  then have "unat k < DSM_MAX_LOCKS" "locks_ok w"
    by (auto simp: handle_lock_grant_def state_ok_def locks_ok_def split: if_splits)
  then have "lock_ok (lock_granted (local_node_id (ctx w)) (lock_at k w))"
    using locks_ok_at [of w k] by (simp add: lock_granted_def lock_ok_def)
  then have "state_ok (put_lock k (lock_granted (local_node_id (ctx w)) (lock_at k w)) w)"
    by (rule lock_state_keeps [OF ok])
  then show ?thesis
    using w' by (auto simp: handle_lock_grant_def state_ok_ctx [OF wake_frame(1)] split: if_splits)
qed

lemma barrier_enter_keeps:
  assumes "state_ok w"
  shows "\<exists>w'. dsm_sync_handle_barrier_enter n w = Inr w' \<and> state_ok w'"
proof -
  have ok: "nodes_ok w" "barrier_ok (barrier (ctx w))"
    using assms by (simp_all add: state_ok_def)
  obtain w' where w': "dsm_sync_handle_barrier_enter n w = Inr w'" "nodes_ok w'" "barrier_ok (barrier (ctx w'))"
    using barrier_never_overflows [OF ok] by blast
  then have "locks (ctx w') = locks (ctx w)" "page_table (ctx w') = page_table (ctx w)"
    by (auto simp: dsm_sync_handle_barrier_enter_def case_prod_beta Let_def split: sum.splits option.splits)
  then show ?thesis
    using assms w' by (auto simp: state_ok_def locks_ok_def page_table_ok_def)
qed

lemma tcp_sendD: "dsm_tcp_send n h p w = (r, w') \<Longrightarrow> ctx w' = ctx w"
  by (metis tcp_send_frame(1) snd_conv)

lemma mprotectD: "mprotect a n p w = (b, w') \<Longrightarrow> ctx w' = ctx w"
  by (metis mprotect_frame(1) snd_conv)

lemma memcpy_inD: "memcpy_in a bs w = Inr w' \<Longrightarrow> ctx w' = ctx w"
  by (auto simp: memcpy_in_def split: if_splits)

lemma page_send_keeps:
  assumes "state_ok w" "dsm_page_send n ga w = Inr (r, w')"
  shows "state_ok w'"
proof -
  have "node_table (ctx w') = node_table (ctx w) \<and> locks (ctx w') = locks (ctx w) \<and>
      barrier (ctx w') = barrier (ctx w) \<and> page_table (ctx w') = page_table (ctx w)"
    using assms(2)
    by (auto simp: dsm_page_send_def case_prod_beta Let_def split: option.splits if_splits sum.splits
        dest!: tcp_sendD)
  then show ?thesis
    using assms(1) state_ok_frame [of w' w] by blast
qed

lemma update_page_keeps:
  assumes "state_ok w"
  shows "state_ok (update_page i f w)"
proof (rule state_ok_pages [OF assms])
  show "page_table_ok (update_page i f w)"
    using assms by (simp add: state_ok_def page_table_ok_def update_page_def put_pages_def split: option.splits)
qed (simp_all add: update_page_def put_pages_def split: option.splits)

lemma finish_keeps:
  assumes "state_ok w" "ctx v = ctx w"
  shows "state_ok (wake BroadcastFault ((update_page i f v)\<lparr>ctx := (ctx (update_page i f v))\<lparr>fault_handled := True\<rparr>\<rparr>))"
proof -
  have "state_ok (update_page i f v)"
    using assms state_ok_ctx [OF assms(2)] update_page_keeps by blast
  then show ?thesis
    by (rule state_ok_frame [THEN iffD2, rotated 4]) simp_all
qed

lemma page_install_keeps:
  assumes "state_ok w" "dsm_page_install ga bs n ver w = Inr (r, w')"
  shows "state_ok w'"
proof (cases "dsm_page_lookup ga w")
  case None
  with assms show ?thesis
    by (simp add: dsm_page_install_def)
next
  case (Some i)
  let ?f = "\<lambda>p. p\<lparr>pstate := DSM_PAGE_SHARED, version := ver\<rparr>"
  have "(\<exists>v. ctx v = ctx w \<and> (w' = v \<or>
      w' = wake BroadcastFault ((update_page i ?f v)\<lparr>ctx := (ctx (update_page i ?f v))\<lparr>fault_handled := True\<rparr>\<rparr>)))"
    using assms(2) Some
    by (auto simp: dsm_page_install_def Let_def split: if_splits sum.splits prod.splits
        dest!: mprotectD memcpy_inD)
  then show ?thesis
    using finish_keeps [OF assms(1)] state_ok_ctx [of _ w] assms(1) by blast
qed

lemma alloc_request_keeps [keeps_ok]: "state_ok w \<Longrightarrow> state_ok (handle_alloc_request src bs w)"
  by (rule state_ok_frame [THEN iffD2, rotated 4], assumption)
     (simp_all add: handle_alloc_request_def case_prod_beta Let_def)

lemma heartbeat_answer_keeps [keeps_ok]:
  assumes "state_ok w"
  shows "state_ok (handle_heartbeat src w)"
  by (rule state_ok_frame [THEN iffD2, OF _ _ _ _ heartbeat_keeps [OF assms, of src]])
     (simp_all add: handle_heartbeat_def case_prod_beta Let_def split: option.splits)

lemma new_connection_keeps [keeps_ok]:
  assumes "state_ok w"
  shows "state_ok (handle_new_connection fd w)"
  by (rule state_ok_frame [THEN iffD2, OF _ _ _ _ assms])
     (simp_all add: handle_new_connection_def case_prod_beta Let_def close_fd_def)

lemma close_keeps [keeps_ok]: "state_ok (close_fd fd w) \<longleftrightarrow> state_ok w"
  by (rule state_ok_ctx) (simp add: close_fd_def)

section \<open>Messages, bytes, rounds\<close>

lemma drop_resultD: "drop_result x = Inr w \<Longrightarrow> \<exists>r. x = Inr (r, w)"
  by (auto simp: drop_result_def split: sum.splits)

lemma derefD: "deref p f = Inr w \<Longrightarrow> \<exists>bs. f bs = Inr w"
  by (auto simp: deref_def split: option.splits)

lemma handle_message_keeps:
  assumes "state_ok w" "dsm_handle_message h p w = Inr w'"
  shows "state_ok w'"
proof (cases "msg_type_of (msg_type h)")
  case None
  with assms show ?thesis
    by (simp add: dsm_handle_message_def)
next
  case (Some t)
  have id: "state_ok (w\<lparr>ctx := (ctx w)\<lparr>local_node_id := n\<rparr>\<rparr>)" for n
    by (rule state_ok_frame [THEN iffD2, OF _ _ _ _ assms(1)]) simp_all
  have wake: "state_ok (wake e w)" for e
    using assms(1) state_ok_ctx [OF wake_frame(1)] by blast
  have barrier: "state_ok v" if "dsm_sync_handle_barrier_enter n w = Inr v" for n v
    using barrier_enter_keeps [OF assms(1), of n] that by auto
  show ?thesis
    using assms Some
    by (cases t)
       (auto simp: dsm_handle_message_def Let_def id wake keeps_ok split: if_splits
         dest!: derefD drop_resultD dest: barrier page_send_keeps page_install_keeps lock_grant_keeps)
qed

lemma page_send_crash: "dsm_page_send n ga w = Inl e \<Longrightarrow> e = SegFault"
  by (auto simp: dsm_page_send_def memcpy_out_def case_prod_beta Let_def split: option.splits if_splits sum.splits)

lemma page_install_crash: "dsm_page_install ga bs n ver w = Inl e \<Longrightarrow> e = OutOfBounds \<or> e = SegFault"
  by (auto simp: dsm_page_install_def memcpy_in_def Let_def split: option.splits if_splits sum.splits prod.splits)

lemma drop_result_crash: "drop_result x = Inl e \<Longrightarrow> x = Inl e"
  by (auto simp: drop_result_def split: sum.splits)

text \<open>
  The crashes left in a well-formed state: an allocation request without payload, a grant of a lock that
  does not exist, and the memory behind the page of a transfer, where the server thread gets a
  \<^verbatim>\<open>SIGSEGV\<close> on an address that need not be outside the regions.
\<close>

definition crash_cause :: "dsm_msg_type \<Rightarrow> u8 list option \<Rightarrow> crash \<Rightarrow> bool" where
  "crash_cause t p e \<longleftrightarrow>
     t = DSM_MSG_ALLOC_REQUEST \<and> p = None \<and> e = NullDeref \<or>
     t = DSM_MSG_LOCK_GRANT \<and> e = OutOfBounds \<and> (\<exists>bs. p = Some bs \<and> DSM_MAX_LOCKS \<le> unat (get32 bs)) \<or>
     t = DSM_MSG_PAGE_REQUEST \<and> e = SegFault \<or>
     t = DSM_MSG_PAGE_DATA \<and> (e = OutOfBounds \<or> e = SegFault)"

lemma handle_message_crash:
  assumes "state_ok w" "dsm_handle_message h p w = Inl e" "p = None \<longleftrightarrow> payload_len h = 0"
  shows "\<exists>t. msg_type_of (msg_type h) = Some t \<and> crash_cause t p e"
proof (cases "msg_type_of (msg_type h)")
  case None
  with assms show ?thesis
    by (simp add: dsm_handle_message_def)
next
  case (Some t)
  have len: "length (locks (ctx w)) = DSM_MAX_LOCKS"
    using assms(1) by (simp add: state_ok_def locks_ok_def)
  have barrier: "dsm_sync_handle_barrier_enter n w \<noteq> Inl e" for n
    using barrier_enter_keeps [OF assms(1), of n] by auto
  show ?thesis
    using assms(2,3) Some
    by (cases t)
       (auto simp: dsm_handle_message_def Let_def deref_def crash_cause_def handle_lock_grant_def len barrier
         split: if_splits option.splits
         dest!: drop_result_crash dest: page_send_crash page_install_crash)
qed

lemma client_data_keeps:
  "handle_client_data fd es buf again w = Some (Inr (es', buf', again', w')) \<Longrightarrow> state_ok w \<Longrightarrow> state_ok w'"
proof (induction fd es buf again w rule: handle_client_data.induct)
  case (1 fd es buf again w)
  note run = "1.prems"(1) [unfolded handle_client_data.simps [of fd es buf again w]]
  note keeps = handle_message_keeps [OF "1.prems"(2)]
  show ?case
  proof (cases "\<exists>bs es2. es = Received bs # es2 \<and> sizeof_header \<le> length bs \<and> magic (get_header bs) = DSM_MAGIC \<and>
      unat (payload_len (get_header bs)) \<le> TCP_BUFFER_SIZE")
    case False
    then show ?thesis
      using run "1.prems"(2)
      by (auto simp: Let_def keeps_ok split: list.splits recv_event.splits if_splits)
  next
    case True
    then obtain bs es2 where es: "es = Received bs # es2" and bs: "bs \<noteq> []" "\<not> length bs < sizeof_header"
        "\<not> magic (get_header bs) \<noteq> DSM_MAGIC" "\<not> TCP_BUFFER_SIZE < unat (payload_len (get_header bs))"
      by force
    note IH = "1.IH" [OF es refl bs(1,2) refl refl bs(3)]
    show ?thesis
    proof (cases "payload_len (get_header bs) = 0")
      case True
      then show ?thesis
        using run bs es IH(1) [OF True] keeps by (auto simp: Let_def split: sum.splits)
    next
      case False
      with run bs es consider p rest again2 w2 where
        "recv_payload (after_header bs es2) again (unat (payload_len (get_header bs))) [] = Some (Some p, rest, again2)"
          "dsm_handle_message (get_header bs) (Some (p @ drop (length p) buf)) w = Inr w2"
          "handle_client_data fd rest (p @ drop (length p) buf) again2 w2 = Some (Inr (es', buf', again', w'))"
        | "w' = w"
        by (auto simp: Let_def split: option.splits sum.splits)
      then show ?thesis
      proof cases
        case 1
        then show ?thesis
          using IH(2) [OF False bs(4) 1(1) refl refl refl refl 1(2)] keeps by blast
      next
        case 2
        with "1.prems"(2) show ?thesis by simp
      qed
    qed
  qed
qed

lemma serve_item_keeps: "serve_item i buf w = Some (Inr (buf', w')) \<Longrightarrow> state_ok w \<Longrightarrow> state_ok w'"
  by (auto simp: serve_item_def keeps_ok split: if_splits option.splits sum.splits dest: client_data_keeps)

lemma serve_items_keeps: "serve_items is buf w = Some (Inr (buf', w')) \<Longrightarrow> state_ok w \<Longrightarrow> state_ok w'"
  by (induction "is" arbitrary: buf w) (auto split: option.splits sum.splits dest: serve_item_keeps)

section \<open>Properties\<close>

lemma grant_outside:
  assumes "state_ok w" "msg_type h = msg_code DSM_MSG_LOCK_GRANT" "4 \<le> payload_len h" "DSM_MAX_LOCKS \<le> unat (get32 bs)"
  shows "dsm_handle_message h (Some bs) w = Inl OutOfBounds"
  using assms dispatch_type [OF assms(2)]
  by (simp add: dsm_handle_message_def Let_def deref_def handle_lock_grant_def state_ok_def locks_ok_def word_le_nat_alt)

text \<open>
  C14. What a message can do: in a well-formed state the handler, given any header and any payload (none
  exactly when the header announces none), leaves a well-formed state, or crashes for one of the causes in
  \<open>crash_cause\<close>. So no message makes the code use an index outside the node table, the queues of waiters or
  the array of the barrier, and only a \<^verbatim>\<open>LOCK_GRANT\<close> whose lock number is 256 or more makes it use one
  outside the locks; each such message, with a payload of 4 bytes or more announced, does.
\<close>

theorem handler_type_safe:
  assumes "state_ok w" "p = None \<longleftrightarrow> payload_len h = 0"
  shows "(case dsm_handle_message h p w of
      Inr w' \<Rightarrow> state_ok w'
    | Inl e \<Rightarrow> \<exists>t. msg_type_of (msg_type h) = Some t \<and> crash_cause t p e) \<and>
    (\<forall>bs. msg_type h = msg_code DSM_MSG_LOCK_GRANT \<and> 4 \<le> payload_len h \<and> p = Some bs \<and>
      DSM_MAX_LOCKS \<le> unat (get32 bs) \<longrightarrow> dsm_handle_message h p w = Inl OutOfBounds)"
  using handle_message_keeps [OF assms(1)] handle_message_crash [OF assms(1) _ assms(2)] grant_outside [OF assms(1)]
  by (simp split: sum.split)

text \<open>A master with three nodes whose server thread runs.\<close>

definition demo_serving :: world where
  "demo_serving = demo_nodes\<lparr>ctx := (ctx demo_nodes)\<lparr>local_role := DSM_ROLE_MASTER, local_node_id := 1,
     running := True\<rparr>, g_tcp_running := True, g_tcp_listen_fd := 4\<rparr>"

lemma demo_serving_ok: "state_ok demo_serving"
proof -
  have "nodes_ok demo_serving"
    using demo_nodes_ok by (simp add: demo_serving_def nodes_ok_def)
  moreover have "page_table (ctx demo_nodes) = None"
    by code_simp
  moreover have "locks_ok demo_serving"
    by (subst locks_ok_frame [of _ demo_nodes]) (simp_all add: demo_serving_def)
  ultimately show ?thesis
    by (simp add: state_ok_def page_table_ok_def barrier_ok_def demo_serving_def zero_barrier_def)
qed

definition demo_shutdown :: dsm_msg_header where
  "demo_shutdown = \<lparr>magic = DSM_MAGIC, msg_type = msg_code DSM_MSG_SHUTDOWN, src_node = 2, dst_node = 1,
     hdr_seq_num = 0, payload_len = 0\<rparr>"

lemma demo_shutdown_handled:
  "dsm_handle_message demo_shutdown None w = Inr (snd (dsm_node_table_remove 2 w))"
proof -
  have "msg_type_of (msg_type demo_shutdown) = Some DSM_MSG_SHUTDOWN"
    by (rule dispatch_type) (simp add: demo_shutdown_def)
  moreover have "src_node demo_shutdown = 2"
    by (simp add: demo_shutdown_def)
  ultimately show ?thesis
    unfolding dsm_handle_message_def Let_def by simp
qed

definition demo_grant :: dsm_msg_header where
  "demo_grant = demo_shutdown\<lparr>msg_type := msg_code DSM_MSG_LOCK_GRANT, payload_len := 4\<rparr>"

theorem handler_type_safe_witness:
  "state_ok (snd (dsm_node_table_remove 2 demo_serving)) \<and>
   dsm_handle_message demo_grant (Some (put32 256)) demo_serving = Inl OutOfBounds"
proof
  show "state_ok (snd (dsm_node_table_remove 2 demo_serving))"
    using handler_type_safe [OF demo_serving_ok, of None demo_shutdown]
    by (simp add: demo_shutdown_handled) (simp add: demo_shutdown_def)
  show "dsm_handle_message demo_grant (Some (put32 256)) demo_serving = Inl OutOfBounds"
    using handler_type_safe [OF demo_serving_ok, of "Some (put32 256)" demo_grant]
    by (simp add: demo_grant_def)
qed

text \<open>
  C15. The server thread keeps the tables well formed for as long as it runs, whatever \<^verbatim>\<open>epoll_wait\<close>
  reports, whatever connections are made and whatever bytes they bring.
\<close>

theorem server_keeps_state:
  assumes "state_ok w" "tcp_server_thread_func rs buf w = Some (Inr (buf', w'))"
  shows "state_ok w'"
  using assms
proof (induction rs buf w rule: tcp_server_thread_func.induct)
  case (1 buf w)
  then show ?case by simp
next
  case (2 r rs buf w)
  then show ?case
    by (auto split: if_splits epoll_round.splits option.splits sum.splits) (blast dest: serve_items_keeps)
qed

theorem server_keeps_state_witness:
  "\<exists>buf w'. tcp_server_thread_func [EpollInterrupted, EpollReady
       [\<lparr>ei_fd = 7, ei_wanted = True, ei_accept = -1, ei_data = [Received (put_header demo_shutdown)], ei_again = False\<rparr>,
        \<lparr>ei_fd = 4, ei_wanted = True, ei_accept = 9, ei_data = [], ei_again = False\<rparr>]] [] demo_serving =
     Some (Inr (buf, w')) \<and> state_ok w'"
proof -
  let ?i = "\<lparr>ei_fd = 7, ei_wanted = True, ei_accept = -1, ei_data = [Received (put_header demo_shutdown)], ei_again = False\<rparr>"
  let ?j = "\<lparr>ei_fd = 4, ei_wanted = True, ei_accept = 9, ei_data = [], ei_again = False\<rparr>"
  let ?w = "snd (dsm_node_table_remove 2 demo_serving)"
  have "handle_one (demo_shutdown, []) [] demo_serving = Inr ?w"
    by (simp add: handle_one_def demo_shutdown_handled)
  then have "handle_client_data 7 [Received (put_header demo_shutdown)] [] False demo_serving =
      Some (Inr ([], [], True, ?w))"
    using client_single [of "(demo_shutdown, [])" "[]" demo_serving ?w 7 False]
    by (simp add: message_ok_def encode_message_def message_buffer_def demo_shutdown_def)
  then have "serve_item ?i [] demo_serving = Some (Inr ([], ?w))"
    by (simp add: serve_item_def) (simp add: demo_serving_def)
  then have "serve_items [?i, ?j] [] demo_serving = serve_items [?j] [] ?w"
    by simp
  moreover have "g_tcp_listen_fd ?w = 4"
    by (simp add: dsm_node_table_remove_def put_table_def split: option.split) (simp add: demo_serving_def)
  then have "serve_items [?j] [] ?w = Some (Inr ([], handle_new_connection 9 ?w))"
    by (simp add: serve_item_def)
  moreover have "g_tcp_running demo_serving" "running (ctx demo_serving)"
    by (simp_all add: demo_serving_def)
  ultimately have "tcp_server_thread_func [EpollInterrupted, EpollReady [?i, ?j]] [] demo_serving =
      Some (Inr ([], handle_new_connection 9 ?w))"
    by simp
  then show ?thesis
    using server_keeps_state [OF demo_serving_ok] by blast
qed

end
