(* ===== verification/DsmInit.thy ===== *)
theory DsmInit
  imports DsmUdp DsmInvariant
begin

text \<open>
  Starting and stopping the library, the rest of \<^verbatim>\<open>src/dsm_init.c\<close>: the choice of the local address,
  \<^verbatim>\<open>dsm_init\<close> with its nine steps and their error paths, and \<^verbatim>\<open>dsm_finalize\<close>.
\<close>

section \<open>The local address\<close>

text \<open>
  The list \<^verbatim>\<open>getifaddrs\<close> makes: the name of an interface and its address, when it has one, as
  \<^verbatim>\<open>inet_ntoa\<close> writes it when it is an IPv4 address.
\<close>

datatype sockaddr = Inet "u8 list" | OtherFamily

record ifaddr =
  ifa_name :: "u8 list"
  ifa_addr :: "sockaddr option"

definition starts_with :: "string \<Rightarrow> u8 list \<Rightarrow> bool" where
  "starts_with s bs \<longleftrightarrow> take (length s) bs = ascii s"

definition preferred_name :: "u8 list \<Rightarrow> bool" where
  "preferred_name n \<longleftrightarrow>
     starts_with ''wl'' n \<or> starts_with ''wifi'' n \<or> starts_with ''en'' n \<or> starts_with ''eth'' n"

text \<open>The loop; the buffer is the 16 bytes of \<^verbatim>\<open>local_ip\<close>.\<close>

fun walk_interfaces :: "ifaddr list \<Rightarrow> bool \<Rightarrow> u8 list \<Rightarrow> bool \<times> u8 list" where
  "walk_interfaces [] found buf = (found, buf)"
| "walk_interfaces (i # is) found buf =
     (case ifa_addr i of
        None \<Rightarrow> walk_interfaces is found buf
      | Some OtherFamily \<Rightarrow> walk_interfaces is found buf
      | Some (Inet a) \<Rightarrow>
          if ifa_name i = ascii ''lo'' then walk_interfaces is found buf
          else if starts_with ''127.'' a then walk_interfaces is found buf
          else if preferred_name (ifa_name i) then (True, set_ip buf a)
          else if \<not> found then walk_interfaces is True (set_ip buf a)
          else walk_interfaces is found buf)"

text \<open>\<open>None\<close>: \<^verbatim>\<open>getifaddrs\<close> failed.\<close>

definition dsm_net_get_local_ip :: "ifaddr list option \<Rightarrow> u8 list \<Rightarrow> int \<times> u8 list" where
  "dsm_net_get_local_ip ifs buf =
     (case ifs of
        None \<Rightarrow> (-1, buf)
      | Some is \<Rightarrow> (let (found, buf) = walk_interfaces is False buf in (if found then 0 else -1, buf)))"

section \<open>Initialisation\<close>

text \<open>What the error paths undo, in the order of the code.\<close>

definition undo_nodes :: "world \<Rightarrow> world" where
  "undo_nodes w = dsm_context_destroy (dsm_node_table_destroy w)"

definition undo_tcp :: "world \<Rightarrow> world" where
  "undo_tcp w = undo_nodes (dsm_tcp_shutdown w)"

definition undo_udp :: "world \<Rightarrow> world" where
  "undo_udp w = undo_tcp (dsm_udp_shutdown w)"

definition undo_memory :: "world \<Rightarrow> world" where
  "undo_memory w = undo_udp (dsm_mem_shutdown w)"

definition undo_pagefault :: "world \<Rightarrow> world" where
  "undo_pagefault w = undo_memory (dsm_pagefault_shutdown w)"

text \<open>Steps 1 to 5: the context, the address, the node table, TCP, UDP and the broadcast.\<close>

definition init_network :: "u16 \<Rightarrow> u32 \<Rightarrow> ifaddr list option \<Rightarrow> world \<Rightarrow> int \<times> world" where
  "init_network p c ifs w =
     (let (r, w) = dsm_context_init w in
      if r \<noteq> 0 then (-1, w)
      else let w = w\<lparr>ctx := (ctx w)\<lparr>local_port := p, local_chunks := c\<rparr>\<rparr>;
               (r, a) = dsm_net_get_local_ip ifs (local_ip (ctx w));
               w = w\<lparr>ctx := (ctx w)\<lparr>local_ip := a\<rparr>\<rparr> in
        if r \<noteq> 0 then (-1, dsm_context_destroy w)
        else let (r, w) = dsm_node_table_init w in
          if r \<noteq> 0 then (-1, dsm_context_destroy w)
          else let (r, w) = dsm_tcp_init w in
            if r \<noteq> 0 then (-1, undo_nodes w)
            else let (r, w) = dsm_tcp_start_server w in
              if r \<noteq> 0 then (-1, undo_tcp w)
              else let (r, w) = dsm_udp_init w in
                if r \<noteq> 0 then (-1, undo_tcp w)
                else let (r, w) = dsm_udp_start_listener w in
                  if r \<noteq> 0 then (-1, undo_udp w)
                  else let (r, w) = dsm_udp_broadcast_discover (local_ip (ctx w)) p c w in
                    if r \<noteq> 0 then (-1, undo_udp w) else (0, w))"

text \<open>Step 6, after the wait.\<close>

definition take_role :: "dsm_role \<Rightarrow> world \<Rightarrow> world" where
  "take_role chosen w =
     (if chosen = DSM_ROLE_MASTER
      then let w = w\<lparr>ctx := (ctx w)\<lparr>local_role := DSM_ROLE_MASTER, local_node_id := 1\<rparr>\<rparr>
           in snd (dsm_node_table_add (local_ip (ctx w)) (local_port (ctx w)) (local_chunks (ctx w))
                     DSM_ROLE_MASTER (-1) w)
      else w\<lparr>ctx := (ctx w)\<lparr>local_role := DSM_ROLE_WORKER\<rparr>\<rparr>)"

text \<open>Steps 7 to 9: memory, page faults, locks and the barrier. \<open>addr\<close> is what \<^verbatim>\<open>mmap\<close> returns.\<close>

definition init_memory :: "u32 \<Rightarrow> u64 option \<Rightarrow> world \<Rightarrow> crash + (int \<times> world)" where
  "init_memory c addr w =
     (case dsm_mem_init c addr w of
        Inl e \<Rightarrow> Inl e
      | Inr (r, w) \<Rightarrow>
          if r \<noteq> 0 then Inr (-1, undo_udp w)
          else let (r, w) = dsm_pagefault_init w in
            if r \<noteq> 0 then Inr (-1, undo_memory w)
            else let (r, w) = dsm_pagefault_start_handler w in
              if r \<noteq> 0 then Inr (-1, undo_pagefault w)
              else let (r, w) = dsm_sync_init w in
                if r \<noteq> 0 then Inr (-1, undo_pagefault w)
                else Inr (0, w\<lparr>ctx := (ctx w)\<lparr>initialized := True\<rparr>\<rparr>))"

text \<open>\<open>None\<close>: still waiting for a master when the returns of the wait run out.\<close>

definition dsm_init_with_params ::
  "u16 \<Rightarrow> u32 \<Rightarrow> ifaddr list option \<Rightarrow> wait_return list \<Rightarrow> u64 option \<Rightarrow> world \<Rightarrow>
     (crash + (int \<times> world)) option" where
  "dsm_init_with_params p c ifs rs addr w =
     (let (r, w) = init_network p c ifs w in
      if r \<noteq> 0 then Some (Inr (-1, w))
      else case dsm_udp_wait_discovery rs w of
             None \<Rightarrow> None
           | Some (chosen, w) \<Rightarrow> Some (init_memory c addr (take_role chosen w)))"

text \<open>\<open>args\<close> is \<^verbatim>\<open>argv\<close> with its \<^verbatim>\<open>argc\<close> strings.\<close>

definition dsm_init ::
  "u8 list list \<Rightarrow> ifaddr list option \<Rightarrow> wait_return list \<Rightarrow> u64 option \<Rightarrow> world \<Rightarrow>
     (crash + (int \<times> world)) option" where
  "dsm_init args ifs rs addr w =
     (if length args < 3 then Some (Inr (-1, w))
      else let p = ucast (atoi (args ! 1)) :: u16; c = atoi (args ! 2) in
        if p < 1024 then Some (Inr (-1, w))
        else if c < 1 \<or> word_of_nat DSM_MAX_CHUNKS < c then Some (Inr (-1, w))
        else dsm_init_with_params p c ifs rs addr w)"

section \<open>Finalisation and status\<close>

definition dsm_finalize :: "world \<Rightarrow> world" where
  "dsm_finalize w =
     (if \<not> initialized (ctx w) then w
      else
        let w = w\<lparr>ctx := (ctx w)\<lparr>running := False\<rparr>\<rparr>;
            w = dsm_tcp_stop_server (dsm_udp_stop_listener (dsm_pagefault_stop_handler w));
            w = dsm_sync_shutdown w;
            w = dsm_pagefault_shutdown w;
            w = dsm_mem_shutdown w;
            w = dsm_udp_shutdown w;
            w = dsm_tcp_shutdown w;
            w = dsm_node_table_destroy w;
            w = dsm_context_destroy w
        in w\<lparr>ctx := (ctx w)\<lparr>initialized := False\<rparr>\<rparr>)"

definition dsm_get_node_count :: "world \<Rightarrow> u32" where
  "dsm_get_node_count w = dsm_node_table_count w"

section \<open>The network steps\<close>

text \<open>The state after steps 1 to 5, when the system refuses nothing.\<close>

definition network_up :: "u16 \<Rightarrow> u32 \<Rightarrow> u8 list \<Rightarrow> int \<times> int \<times> int \<times> int \<Rightarrow> int list \<Rightarrow> world \<Rightarrow> world" where
  "network_up p c a fd fds w = (case fd of (efd, lfd, pfd, ufd) \<Rightarrow>
     w\<lparr>ctx := fresh_context\<lparr>fault_eventfd := efd, running := True, initialized := False, local_port := p,
          local_chunks := c, local_ip := a,
          node_table := Some \<lparr>nodes = replicate DSM_MAX_NODES zero_node, node_count = 0\<rparr>,
          tcp_listen_fd := lfd, epoll_fd := pfd, udp_fd := ufd\<rparr>,
       fd_script := fds, g_tcp_listen_fd := lfd, g_epoll_fd := pfd, g_tcp_running := True,
       g_udp_socket := ufd, g_udp_running := True,
       datagrams := datagrams w @ [(None, format_message DISCOVER_MSG a p c)]\<rparr>)"

lemma calls_ok: "res_script w = [] \<Longrightarrow> sys_calls n w = (True, w)"
  by (induction n) (simp_all add: sys_call_ok)

text \<open>The first three steps, up to the listening socket.\<close>

definition tcp_up :: "u16 \<Rightarrow> u32 \<Rightarrow> u8 list \<Rightarrow> int \<times> int \<times> int \<Rightarrow> int list \<Rightarrow> world \<Rightarrow> world" where
  "tcp_up p c a fd fds w = (case fd of (efd, lfd, pfd) \<Rightarrow>
     w\<lparr>ctx := fresh_context\<lparr>fault_eventfd := efd, running := True, initialized := False, local_port := p,
          local_chunks := c, local_ip := a,
          node_table := Some \<lparr>nodes = replicate DSM_MAX_NODES zero_node, node_count = 0\<rparr>,
          tcp_listen_fd := lfd, epoll_fd := pfd\<rparr>,
       fd_script := fds, g_tcp_listen_fd := lfd, g_epoll_fd := pfd\<rparr>)"

definition server_up :: "u16 \<Rightarrow> u32 \<Rightarrow> world \<Rightarrow> int \<times> world" where
  "server_up p c w =
     (let (r, w) = dsm_tcp_start_server w in
      if r \<noteq> 0 then (-1, undo_tcp w)
      else let (r, w) = dsm_udp_init w in
        if r \<noteq> 0 then (-1, undo_tcp w)
        else let (r, w) = dsm_udp_start_listener w in
          if r \<noteq> 0 then (-1, undo_udp w)
          else let (r, w) = dsm_udp_broadcast_discover (local_ip (ctx w)) p c w in
            if r \<noteq> 0 then (-1, undo_udp w) else (0, w))"

lemma init_network_tcp:
  assumes "res_script w = []" "fd_script w = efd # lfd # pfd # fds" "0 \<le> efd" "0 \<le> lfd" "0 \<le> pfd"
    and "dsm_net_get_local_ip ifs (replicate DSM_MAX_IP_LEN 0) = (0, a)"
  shows "init_network p c ifs w = server_up p c (tcp_up p c a (efd, lfd, pfd) fds w)"
proof -
  define w1 where "w1 = w\<lparr>ctx := fresh_context\<lparr>fault_eventfd := efd, running := True, initialized := False\<rparr>,
    fd_script := lfd # pfd # fds\<rparr>"
  have s1: "dsm_context_init w = (0, w1)"
    using assms(1-3) by (simp add: dsm_context_init_def calls_ok sys_fd_def w1_def)
  define w2 where "w2 = w1\<lparr>ctx := (ctx w1)\<lparr>local_port := p, local_chunks := c, local_ip := a,
    node_table := Some \<lparr>nodes = replicate DSM_MAX_NODES zero_node, node_count = 0\<rparr>\<rparr>\<rparr>"
  have s2: "dsm_node_table_init (w1\<lparr>ctx := (ctx w1)\<lparr>local_port := p, local_chunks := c, local_ip := a\<rparr>\<rparr>) = (0, w2)"
    using assms(1) by (simp add: dsm_node_table_init_def sys_call_ok put_table_def w1_def w2_def)
  have s3: "dsm_tcp_init w2 = (0, tcp_up p c a (efd, lfd, pfd) fds w)"
    using assms(1,4,5) by (simp add: dsm_tcp_init_def sys_call_ok sys_fd_def w1_def w2_def tcp_up_def)
  have "local_ip (ctx w1) = replicate DSM_MAX_IP_LEN 0"
    by (simp add: w1_def fresh_context_def zero_context_def)
  then show ?thesis
    using assms(6) by (simp add: init_network_def server_up_def s1 s2 s3)
qed

lemma init_network_up:
  assumes "res_script w = []" "fd_script w = efd # lfd # pfd # ufd # fds"
    and "0 \<le> efd" "0 \<le> lfd" "0 \<le> pfd" "0 \<le> ufd" "\<not> g_tcp_running w" "\<not> g_udp_running w"
    and "dsm_net_get_local_ip ifs (replicate DSM_MAX_IP_LEN 0) = (0, a)"
  shows "init_network p c ifs w = (0, network_up p c a (efd, lfd, pfd, ufd) fds w)"
proof -
  define w3 where "w3 = tcp_up p c a (efd, lfd, pfd) (ufd # fds) w"
  have s4: "dsm_tcp_start_server w3 = (0, w3\<lparr>g_tcp_running := True\<rparr>)"
    using assms(1,7) by (simp add: dsm_tcp_start_server_def sys_call_ok w3_def tcp_up_def)
  define w5 where "w5 = w3\<lparr>g_tcp_running := True, fd_script := fds, g_udp_socket := ufd,
    ctx := (ctx w3)\<lparr>udp_fd := ufd\<rparr>\<rparr>"
  have s5: "dsm_udp_init (w3\<lparr>g_tcp_running := True\<rparr>) = (0, w5)"
    using assms(1,6) by (simp add: dsm_udp_init_def sys_call_ok sys_fd_def w3_def tcp_up_def w5_def)
  have s6: "dsm_udp_start_listener w5 = (0, w5\<lparr>g_udp_running := True\<rparr>)"
    using assms(1,8) by (simp add: dsm_udp_start_listener_def sys_call_ok w3_def tcp_up_def w5_def)
  have s7: "dsm_udp_broadcast_discover a p c (w5\<lparr>g_udp_running := True\<rparr>) =
      (0, network_up p c a (efd, lfd, pfd, ufd) fds w)"
    using assms(1,6)
    by (simp add: dsm_udp_broadcast_discover_def sendto_def sys_call_ok network_up_def
        w3_def tcp_up_def w5_def)
  have "local_ip (ctx w5) = a"
    by (simp add: w5_def w3_def tcp_up_def)
  then show ?thesis
    using init_network_tcp [OF assms(1-5,9), of p c]
    by (simp add: server_up_def w3_def [symmetric] s4 s5 s6 s7)
qed

text \<open>Without a reply the wait changes nothing.\<close>

lemma listener_silent:
  assumes "local_role (ctx w) \<noteq> DSM_ROLE_MASTER" "\<forall>bs. Datagram bs \<in> set es \<longrightarrow> \<not> is_reply bs"
  shows "udp_listener_thread_func es w = w"
  using assms
proof (induction es)
  case (Cons e es)
  then show ?case
    by (cases e) (auto simp: datagram_cases(2))
qed simp

lemma wait_silent:
  assumes "local_role (ctx w) \<noteq> DSM_ROLE_MASTER" "running (ctx w)" "\<not> master_found (ctx w)"
    and "\<forall>bs. Datagram bs \<in> set (heard rs) \<longrightarrow> \<not> is_reply bs" "TimedOut es \<in> set rs"
  shows "dsm_udp_wait_discovery rs w = Some (DSM_ROLE_MASTER, w)"
  using assms(4,5)
proof (induction rs)
  case (Cons r rs)
  have silent: "udp_listener_thread_func fs w = w" if "set fs \<subseteq> set (heard (r # rs))" for fs
    using that Cons.prems(1) by (intro listener_silent assms(1)) blast
  show ?case
    using Cons.IH Cons.prems silent assms(2,3)
    by (subst dsm_udp_wait_discovery.simps) (cases r; auto simp: Let_def)
qed simp

section \<open>What the later steps leave alone\<close>

text \<open>The threads, the descriptors and the clock are not touched by the memory subsystem.\<close>

definition same_threads :: "world \<Rightarrow> world \<Rightarrow> bool" where
  "same_threads w v \<longleftrightarrow> g_tcp_running v = g_tcp_running w \<and> g_udp_running v = g_udp_running w \<and>
     g_fault_running v = g_fault_running w \<and> g_udp_socket v = g_udp_socket w \<and>
     g_tcp_listen_fd v = g_tcp_listen_fd w \<and> g_epoll_fd v = g_epoll_fd w \<and> datagrams v = datagrams w"

lemma same_threads_trans: "same_threads u v \<Longrightarrow> same_threads v w \<Longrightarrow> same_threads u w"
  by (simp add: same_threads_def)

text \<open>The context without the fields of the memory subsystem.\<close>

definition other_fields :: "world \<Rightarrow> dsm_context" where
  "other_fields w = (ctx w)\<lparr>regions := [], page_table := None, next_global_addr := 0, local_region := None\<rparr>"

definition memory_only :: "world \<Rightarrow> world \<Rightarrow> bool" where
  "memory_only w v \<longleftrightarrow> same_threads w v \<and> other_fields v = other_fields w"

lemma memory_only_refl: "memory_only w w"
  by (simp add: memory_only_def same_threads_def)

lemma memory_only_trans: "memory_only u v \<Longrightarrow> memory_only v w \<Longrightarrow> memory_only u w"
  by (simp add: memory_only_def same_threads_def)

lemma memory_onlyD:
  assumes "memory_only w v"
  shows "node_table (ctx v) = node_table (ctx w)" "local_role (ctx v) = local_role (ctx w)"
    "local_node_id (ctx v) = local_node_id (ctx w)" "running (ctx v) = running (ctx w)"
    "locks (ctx v) = locks (ctx w)" "barrier (ctx v) = barrier (ctx w)"
    "local_ip (ctx v) = local_ip (ctx w)" "fault_eventfd (ctx v) = fault_eventfd (ctx w)"
    "master_fd (ctx v) = master_fd (ctx w)"
proof -
  have eq: "other_fields v = other_fields w"
    using assms by (simp add: memory_only_def)
  show "node_table (ctx v) = node_table (ctx w)" "local_role (ctx v) = local_role (ctx w)"
    "local_node_id (ctx v) = local_node_id (ctx w)" "running (ctx v) = running (ctx w)"
    "locks (ctx v) = locks (ctx w)" "barrier (ctx v) = barrier (ctx w)"
    "local_ip (ctx v) = local_ip (ctx w)" "fault_eventfd (ctx v) = fault_eventfd (ctx w)"
    "master_fd (ctx v) = master_fd (ctx w)"
    using arg_cong [OF eq, of node_table] arg_cong [OF eq, of local_role] arg_cong [OF eq, of local_node_id]
      arg_cong [OF eq, of running] arg_cong [OF eq, of locks] arg_cong [OF eq, of barrier]
      arg_cong [OF eq, of local_ip] arg_cong [OF eq, of fault_eventfd] arg_cong [OF eq, of master_fd]
    by (simp_all add: other_fields_def)
qed

named_theorems memory_only_simps "operations of the memory subsystem"

lemma memory_only_basic [memory_only_simps]:
  "memory_only u (set_prot a n p w) \<longleftrightarrow> memory_only u w"
  "memory_only u (mmap_none a n w) \<longleftrightarrow> memory_only u w"
  "memory_only u (munmap a n w) \<longleftrightarrow> memory_only u w"
  "memory_only u (add_region r w) \<longleftrightarrow> memory_only u w"
  "memory_only u (put_pages t w) \<longleftrightarrow> memory_only u w"
  "memory_only u (w\<lparr>mem := m\<rparr>) \<longleftrightarrow> memory_only u w"
  "memory_only u (w\<lparr>g_ownership_table := h\<rparr>) \<longleftrightarrow> memory_only u w"
  "memory_only u (w\<lparr>ctx := (ctx w)\<lparr>next_global_addr := x\<rparr>\<rparr>) \<longleftrightarrow> memory_only u w"
  "memory_only u (w\<lparr>ctx := (ctx w)\<lparr>local_region := y\<rparr>\<rparr>) \<longleftrightarrow> memory_only u w"
  "memory_only u (w\<lparr>ctx := (ctx w)\<lparr>page_table := z\<rparr>\<rparr>) \<longleftrightarrow> memory_only u w"
  "memory_only u (w\<lparr>ctx := (ctx w)\<lparr>local_region := y, page_table := z\<rparr>\<rparr>) \<longleftrightarrow> memory_only u w"
  "memory_only u (w\<lparr>g_ownership_table := h, ctx := (ctx w)\<lparr>next_global_addr := x\<rparr>\<rparr>) \<longleftrightarrow> memory_only u w"
  "memory_only u (w\<lparr>ctx := (ctx w)\<lparr>regions := rs, local_region := y\<rparr>\<rparr>) \<longleftrightarrow> memory_only u w"
  "memory_only u (w\<lparr>ctx := (ctx w)\<lparr>regions := rs, local_region := y, page_table := z\<rparr>\<rparr>) \<longleftrightarrow> memory_only u w"
  by (simp_all add: memory_only_def same_threads_def other_fields_def set_prot_def mmap_none_def munmap_def
      add_region_def put_pages_def Let_def)

lemma sys_call_memory_only [memory_only_simps]:
  "memory_only u (snd (sys_call w)) \<longleftrightarrow> memory_only u w"
  by (simp add: memory_only_def same_threads_def other_fields_def)
     (simp add: sys_call_def split: list.splits)

lemma sys_calls_memory_only [memory_only_simps]:
  "memory_only u (snd (sys_calls n w)) \<longleftrightarrow> memory_only u w"
  by (induction n arbitrary: w) (auto simp: case_prod_beta memory_only_simps)

lemma page_register_memory_only [memory_only_simps]:
  "memory_only u (snd (dsm_page_register ga la k w)) \<longleftrightarrow> memory_only u w"
  by (simp add: dsm_page_register_def case_prod_beta Let_def memory_only_simps split: option.splits)

lemma register_pages_memory_only [memory_only_simps]:
  "memory_only u (register_pages g a k n w) \<longleftrightarrow> memory_only u w"
  by (induction n) (simp_all add: register_pages_def memory_only_simps)

lemma mprotect_memory_only [memory_only_simps]:
  "memory_only u (snd (mprotect a n p w)) \<longleftrightarrow> memory_only u w"
  by (simp add: mprotect_def case_prod_beta memory_only_simps)

lemma ownership_register_memory_only [memory_only_simps]:
  "memory_only u (snd (dsm_ownership_register a n k w)) \<longleftrightarrow> memory_only u w"
  by (auto simp: dsm_ownership_register_def case_prod_beta Let_def memory_only_simps)

lemma region_create_memory_only:
  "dsm_region_create n k g a w = Inr (r, v) \<Longrightarrow> memory_only w v"
  by (auto simp: dsm_region_create_def memset_zero_def case_prod_beta Let_def memory_only_simps
      memory_only_refl split: option.splits if_splits)

lemma mem_init_memory_only:
  "dsm_mem_init c a w = Inr (r, v) \<Longrightarrow> memory_only w v"
  by (auto simp: dsm_mem_init_def dsm_page_table_init_def dsm_page_table_destroy_def ownership_table_init_def
      case_prod_beta Let_def memory_only_simps memory_only_refl
      dest!: region_create_memory_only intro: memory_only_trans [rotated]
      split: option.splits if_splits sum.splits)

section \<open>The memory steps\<close>

text \<open>The page table stays within its capacity.\<close>

lemma page_table_ok_frame:
  "page_table (ctx w') = page_table (ctx w) \<Longrightarrow> page_table_ok w' \<longleftrightarrow> page_table_ok w"
  by (simp add: page_table_ok_def)

lemma register_pages_ok:
  assumes "page_table_ok w"
  shows "page_table_ok (register_pages ga la k n w)"
proof -
  have step: "page_table_ok (snd (dsm_page_register x y k v))" if "page_table_ok v" for x y v
    using page_register_effect [OF that, of x y k] by (simp add: case_prod_beta)
  have "page_table_ok (foldl (\<lambda>w i. snd (dsm_page_register (f i) (g i) k w)) v is)" if "page_table_ok v" for f g v "is"
    using that by (induction "is" arbitrary: v) (simp_all add: step)
  with assms show ?thesis
    by (simp add: register_pages_def)
qed

lemma region_create_pages:
  assumes "dsm_region_create n k ga a w = Inr (x, w')" "page_table_ok w"
  shows "page_table_ok w'"
proof -
  have same: "page_table_ok (munmap b m v) \<longleftrightarrow> page_table_ok v" "page_table_ok (mmap_none b m v) \<longleftrightarrow> page_table_ok v"
    "page_table_ok (snd (sys_call v)) \<longleftrightarrow> page_table_ok v" "page_table_ok (snd (mprotect b m q v)) \<longleftrightarrow> page_table_ok v"
    "page_table_ok (add_region r v) \<longleftrightarrow> page_table_ok v" "page_table_ok (v\<lparr>mem := y\<rparr>) \<longleftrightarrow> page_table_ok v"
    for b m v q r y
    by (rule page_table_ok_frame, simp add: munmap_def mmap_none_def add_region_def)+
  have rest: "page_table_ok (register_pages g b o' m (add_region r v))" if "page_table_ok v" for g b o' m r v
    using that by (intro register_pages_ok) (simp add: same)
  show ?thesis
    using assms
    by (auto simp: dsm_region_create_def Let_def case_prod_beta memset_zero_def same
        intro!: rest split: if_splits option.splits)
qed

lemma mem_init_pages:
  assumes "dsm_mem_init c a w = Inr (0, w')"
  shows "page_table_ok w'"
proof -
  let ?u = "ownership_table_init (snd (dsm_page_table_init w))"
  have "fst (dsm_page_table_init w) = 0"
    using assms by (auto simp: dsm_mem_init_def case_prod_beta Let_def split: if_splits)
  then have "page_table_ok ?u"
    by (auto simp: dsm_page_table_init_def ownership_table_init_def case_prod_beta Let_def page_table_ok_def
        put_pages_def split: if_splits)
  then have u: "page_table_ok (?u\<lparr>ctx := (ctx ?u)\<lparr>next_global_addr := g\<rparr>\<rparr>)" for g
    by (simp add: page_table_ok_def)
  obtain n k ga v r x where "dsm_region_create n k ga a v = Inr (Some r, x)" "page_table_ok v"
    "page_table (ctx w') = page_table (ctx x)"
    using assms u \<open>page_table_ok ?u\<close>
    by (auto simp: dsm_mem_init_def case_prod_beta Let_def split: if_splits sum.splits option.splits prod.splits)
  then show ?thesis
    using region_create_pages page_table_ok_frame by blast
qed

text \<open>On the master the memory subsystem starts with one region, at the global address to be given out next.\<close>

lemma mem_init_master:
  assumes "local_role (ctx w) = DSM_ROLE_MASTER" "local_node_id (ctx w) = k" "regions (ctx w) = []"
    and "res_script w = []" "region_size_of c \<noteq> 0"
  shows "\<exists>v r. dsm_mem_init c (Some b) w = Inr (0, v) \<and> memory_only w v \<and> res_script v = [] \<and>
    regions (ctx v) = [r] \<and> base_addr r = b \<and> total_size r = region_size_of c \<and>
    global_base r = next_global_addr (ctx w) \<and> region_owner_id r = k \<and>
    next_global_addr (ctx v) = next_global_addr (ctx w) + region_size_of c"
proof -
  let ?g = "next_global_addr (ctx w)" and ?n = "region_size_of c"
  define u where "u = (let v = ownership_table_init (snd (dsm_page_table_init w))
    in v\<lparr>ctx := (ctx v)\<lparr>next_global_addr := ?g + ?n\<rparr>\<rparr>)"
  have init: "fst (dsm_page_table_init w) = 0"
    using assms(4) by (simp add: dsm_page_table_init_def calls_ok)
  have u: "res_script u = []" "local_node_id (ctx u) = k" "regions (ctx u) = []"
    "next_global_addr (ctx u) = ?g + ?n" "local_role (ctx u) = DSM_ROLE_MASTER"
    using assms by (simp_all add: u_def dsm_page_table_init_def calls_ok ownership_table_init_def put_pages_def Let_def)
  define r where "r = made_region ?n k ?g b u"
  from region_create_aligned [OF u(1) region_size_aligned assms(5) u(2), of ?g b]
  obtain x where x: "dsm_region_create ?n k ?g (Some b) u = Inr (Some r, x)" "regions (ctx x) = [r]"
    "res_script x = []" "next_global_addr (ctx x) = ?g + ?n" "local_role (ctx x) = DSM_ROLE_MASTER"
    "local_node_id (ctx x) = k"
    unfolding r_def u by auto
  let ?x = "x\<lparr>ctx := (ctx x)\<lparr>local_region := Some (region_ptr r)\<rparr>\<rparr>"
  let ?v = "snd (dsm_ownership_register ?g ?n k ?x)"
  have "next_global_addr (ctx (ownership_table_init (snd (dsm_page_table_init w)))) = ?g"
    "local_role (ctx (ownership_table_init (snd (dsm_page_table_init w)))) = DSM_ROLE_MASTER"
    using assms by (simp_all add: dsm_page_table_init_def calls_ok ownership_table_init_def put_pages_def)
  then have run: "dsm_mem_init c (Some b) w = Inr (0, ?v)"
    using init x(1,6) u(2) assms(1)
    by (simp add: dsm_mem_init_def case_prod_beta Let_def u_def)
  moreover have "res_script ?v = []"
    using x(3) by (simp add: dsm_ownership_register_def sys_call_ok Let_def)
  moreover have "regions (ctx ?v) = [r]" "next_global_addr (ctx ?v) = ?g + ?n"
    using x(2,4) by simp_all
  moreover have "base_addr r = b" "total_size r = ?n" "global_base r = ?g" "region_owner_id r = k"
    by (simp_all add: r_def made_region_def region_size_aligned)
  ultimately show ?thesis
    using mem_init_memory_only [OF run] by blast
qed

text \<open>Initialising locks and barrier touches nothing else.\<close>

lemma init_locks_run:
  "res_script w = [] \<Longrightarrow> fst (init_locks is w) \<and> res_script (snd (init_locks is w)) = [] \<and>
     same_threads w (snd (init_locks is w)) \<and>
     ctx (snd (init_locks is w)) = (ctx w)\<lparr>locks := locks (ctx (snd (init_locks is w)))\<rparr>"
proof (induction "is" arbitrary: w)
  case Nil
  then show ?case by (simp add: same_threads_def)
next
  case (Cons i "is")
  let ?w = "w\<lparr>ctx := (ctx w)\<lparr>locks := (locks (ctx w))[i := lock_init i (locks (ctx w) ! i)]\<rparr>\<rparr>"
  have "sys_calls 2 ?w = (True, ?w)"
    using Cons.prems by (simp add: calls_ok)
  then have step: "init_locks (i # is) w = init_locks is ?w"
    by simp
  have "res_script ?w = []"
    using Cons.prems by simp
  from Cons.IH [OF this]
  have IH: "fst (init_locks is ?w)" "res_script (snd (init_locks is ?w)) = []" "same_threads ?w (snd (init_locks is ?w))"
    "ctx (snd (init_locks is ?w)) = (ctx ?w)\<lparr>locks := locks (ctx (snd (init_locks is ?w)))\<rparr>"
    by blast+
  have "same_threads w ?w"
    by (simp add: same_threads_def)
  then show ?case
    unfolding step using IH(1-3) same_threads_trans [of w ?w] by (subst IH(4)) simp
qed

lemma sync_init_run:
  assumes "res_script w = []"
  shows "\<exists>v. dsm_sync_init w = (0, v) \<and> same_threads w v \<and>
    ctx v = (ctx w)\<lparr>locks := locks (ctx v), barrier := barrier (ctx v)\<rparr>"
proof -
  let ?u = "snd (init_locks [0..<DSM_MAX_LOCKS] w)"
  let ?v = "?u\<lparr>ctx := (ctx ?u)\<lparr>barrier := (barrier (ctx ?u))\<lparr>barrier_id := 0, total_nodes := 0, arrived_count := 0\<rparr>\<rparr>\<rparr>"
  note run = init_locks_run [OF assms, of "[0..<DSM_MAX_LOCKS]"]
  have "dsm_sync_init w = (0, ?v)"
    using run by (simp add: dsm_sync_init_def case_prod_beta Let_def calls_ok)
  moreover have "same_threads w ?v"
    using run by (simp add: same_threads_def)
  moreover have "ctx ?v = (ctx w)\<lparr>locks := locks (ctx ?v), barrier := barrier (ctx ?v)\<rparr>"
  proof -
    have "ctx ?u = (ctx w)\<lparr>locks := locks (ctx ?u)\<rparr>"
      using run by blast
    then show ?thesis
      by (subst (1) \<open>ctx ?u = (ctx w)\<lparr>locks := locks (ctx ?u)\<rparr>\<close>) simp
  qed
  ultimately show ?thesis
    by blast
qed

section \<open>Stopping\<close>

text \<open>Sending changes only what is on the connections.\<close>

definition send_only :: "world \<Rightarrow> world \<Rightarrow> bool" where
  "send_only w v \<longleftrightarrow> (\<exists>s r. v = w\<lparr>sent := s, send_script := r\<rparr>)"

lemma send_only_refl: "send_only w w"
  unfolding send_only_def by (intro exI [of _ "sent w"] exI [of _ "send_script w"]) simp

lemma send_only_trans: "send_only u v \<Longrightarrow> send_only v w \<Longrightarrow> send_only u w"
  unfolding send_only_def by (elim exE) (simp, blast)

lemma send_raw_only: "send_only w (snd (dsm_tcp_send_raw fd bs w))"
  by (auto simp: send_only_def dsm_tcp_send_raw_def case_prod_beta)

lemma broadcast_step_only: "send_only (snd s) (snd (broadcast_step hdr p i s))"
  using send_raw_only send_only_trans
  by (fastforce simp: broadcast_step_def case_prod_beta Let_def send_only_refl split: option.splits)

lemma broadcast_only: "send_only w (snd (dsm_tcp_broadcast hdr p w))"
proof -
  have "send_only (snd s) (snd (foldl (\<lambda>s i. broadcast_step hdr p i s) s is))" for s "is"
  proof (induction "is" arbitrary: s)
    case (Cons i "is")
    show ?case
      using send_only_trans [OF broadcast_step_only Cons.IH] by simp
  qed (simp add: send_only_refl)
  from this [of "(0, w)"] show ?thesis
    by (auto simp: dsm_tcp_broadcast_def case_prod_beta Let_def send_only_refl split: option.splits)
qed

text \<open>Shutting the memory subsystem down.\<close>

lemma mem_shutdown_frame:
  "memory_only w (dsm_mem_shutdown w) \<and> closed_fds (dsm_mem_shutdown w) = closed_fds w \<and>
   regions (ctx (dsm_mem_shutdown w)) = [] \<and> page_table (ctx (dsm_mem_shutdown w)) = None"
proof -
  have "memory_only u (foldl unmap_region w rs) = memory_only u w" for u rs
    by (induction rs arbitrary: w) (simp_all add: unmap_region_def memory_only_simps)
  moreover have "closed_fds (foldl unmap_region w rs) = closed_fds w" for rs
    by (induction rs arbitrary: w) (simp_all add: unmap_region_def munmap_def set_prot_def Let_def)
  ultimately show ?thesis
    by (auto simp: dsm_mem_shutdown_def dsm_page_table_destroy_def ownership_table_destroy_def Let_def
        memory_only_simps memory_only_refl)
qed

lemma tcp_shutdown_frame:
  fixes w
  defines "v \<equiv> dsm_tcp_shutdown w"
  shows "g_epoll_fd v < 0" "g_tcp_listen_fd v < 0" "g_tcp_running v = g_tcp_running w"
    "g_udp_running v = g_udp_running w" "g_fault_running v = g_fault_running w" "g_udp_socket v = g_udp_socket w"
    "regions (ctx v) = regions (ctx w)" "page_table (ctx v) = page_table (ctx w)"
    "fault_eventfd (ctx v) = fault_eventfd (ctx w)" "master_fd (ctx v) = master_fd (ctx w)"
    "udp_fd (ctx v) = udp_fd (ctx w)" "tcp_listen_fd (ctx v) = -1" "epoll_fd (ctx v) = -1"
    "set (closed_fds v) = set (closed_fds w) \<union> {fd. 0 \<le> fd \<and> (fd = g_epoll_fd w \<or> fd = g_tcp_listen_fd w)}"
proof -
  define u where "u = (case node_table (ctx w) of None \<Rightarrow> w
     | Some _ \<Rightarrow> (let (hdr, w) = dsm_create_header DSM_MSG_SHUTDOWN 0 0 w in snd (dsm_tcp_broadcast hdr None w)))"
  obtain q s r where u: "u = w\<lparr>ctx := (ctx w)\<lparr>seq_num := q\<rparr>, sent := s, send_script := r\<rparr>"
  proof (cases "node_table (ctx w)")
    case None
    then show ?thesis
      using that [where q = "seq_num (ctx w)" and s = "sent w" and r = "send_script w"] by (simp add: u_def)
  next
    case (Some t)
    obtain s r where "snd (dsm_tcp_broadcast (fst (dsm_create_header DSM_MSG_SHUTDOWN 0 0 w)) None
        (snd (dsm_create_header DSM_MSG_SHUTDOWN 0 0 w))) =
        (snd (dsm_create_header DSM_MSG_SHUTDOWN 0 0 w))\<lparr>sent := s, send_script := r\<rparr>"
      using broadcast_only unfolding send_only_def by blast
    then show ?thesis
      using Some that [where q = "seq_num (ctx w) + 1" and s = s and r = r]
      by (simp add: u_def case_prod_beta dsm_create_header_def dsm_get_next_seq_def)
  qed
  have v: "v = (let x = (if 0 \<le> g_epoll_fd u then (close_fd (g_epoll_fd u) u)\<lparr>g_epoll_fd := -1\<rparr> else u);
      x = (if 0 \<le> g_tcp_listen_fd x then (close_fd (g_tcp_listen_fd x) x)\<lparr>g_tcp_listen_fd := -1\<rparr> else x)
      in x\<lparr>ctx := (ctx x)\<lparr>tcp_listen_fd := -1, epoll_fd := -1\<rparr>\<rparr>)"
    unfolding v_def dsm_tcp_shutdown_def u_def [symmetric] by (simp only: Let_def u_def)
  show "g_epoll_fd v < 0" "g_tcp_listen_fd v < 0" "g_tcp_running v = g_tcp_running w"
    "g_udp_running v = g_udp_running w" "g_fault_running v = g_fault_running w" "g_udp_socket v = g_udp_socket w"
    "regions (ctx v) = regions (ctx w)" "page_table (ctx v) = page_table (ctx w)"
    "fault_eventfd (ctx v) = fault_eventfd (ctx w)" "master_fd (ctx v) = master_fd (ctx w)"
    "udp_fd (ctx v) = udp_fd (ctx w)" "tcp_listen_fd (ctx v) = -1" "epoll_fd (ctx v) = -1"
    "set (closed_fds v) = set (closed_fds w) \<union> {fd. 0 \<le> fd \<and> (fd = g_epoll_fd w \<or> fd = g_tcp_listen_fd w)}"
    unfolding v by (auto simp: u close_fd_def Let_def)
qed

section \<open>The choice of the address, specified\<close>

text \<open>An interface that will do: an IPv4 address, not the loopback.\<close>

definition usable :: "ifaddr \<Rightarrow> bool" where
  "usable i \<longleftrightarrow> (case ifa_addr i of Some (Inet a) \<Rightarrow> ifa_name i \<noteq> ascii ''lo'' \<and> \<not> starts_with ''127.'' a | _ \<Rightarrow> False)"

definition address_of :: "ifaddr \<Rightarrow> u8 list" where
  "address_of i = (case ifa_addr i of Some (Inet a) \<Rightarrow> a | _ \<Rightarrow> [])"

text \<open>The first usable interface with a preferred name, else the first usable one.\<close>

definition chosen_address :: "ifaddr list \<Rightarrow> u8 list option" where
  "chosen_address is = (case List.find (\<lambda>i. usable i \<and> preferred_name (ifa_name i)) is of
     Some i \<Rightarrow> Some (address_of i) | None \<Rightarrow> map_option address_of (List.find usable is))"

lemma walk_step:
  "walk_interfaces (i # is) found buf =
     (if \<not> usable i then walk_interfaces is found buf
      else if preferred_name (ifa_name i) then (True, set_ip buf (address_of i))
      else walk_interfaces is True (if found then buf else set_ip buf (address_of i)))"
  by (auto simp: usable_def address_of_def split: option.split sockaddr.split)

lemma set_ip_twice: "length buf = DSM_MAX_IP_LEN \<Longrightarrow> set_ip (set_ip buf a) b = set_ip buf b"
  using set_ip_cfield [of buf a] by (simp add: set_ip_canonical cfield_def)

lemma walk_found:
  assumes "length buf = DSM_MAX_IP_LEN"
  shows "walk_interfaces is True buf = (True,
    case List.find (\<lambda>i. usable i \<and> preferred_name (ifa_name i)) is of Some i \<Rightarrow> set_ip buf (address_of i) | None \<Rightarrow> buf)"
  by (induction "is") (simp_all add: walk_step del: walk_interfaces.simps(2))

lemma walk_chosen:
  assumes "length buf = DSM_MAX_IP_LEN"
  shows "walk_interfaces is False buf =
    (case chosen_address is of None \<Rightarrow> (False, buf) | Some a \<Rightarrow> (True, set_ip buf a))"
proof (induction "is")
  case Nil
  then show ?case by (simp add: chosen_address_def)
next
  case (Cons i "is")
  have "length (set_ip buf (address_of i)) = DSM_MAX_IP_LEN"
    using set_ip_cfield [OF assms] by (simp add: cfield_def)
  from walk_found [OF this] Cons show ?case
    using set_ip_twice [OF assms]
    by (auto simp: walk_step chosen_address_def simp del: walk_interfaces.simps(2) split: option.splits)
qed

text \<open>A number read from a command line.\<close>

lemma atoi_show_int: "- (2 ^ 63) \<le> i \<Longrightarrow> i < 2 ^ 63 \<Longrightarrow> atoi (show_int i) = word_of_int i"
  using scan_show_int [of i "[]"] by (simp add: atoi_def)

section \<open>Properties\<close>

text \<open>A first node: what the network part leaves, and the role it takes.\<close>

lemma first_network:
  assumes sys: "res_script w = []" "fd_script w = efd # lfd # pfd # ufd # fds"
      "0 \<le> efd" "0 \<le> lfd" "0 \<le> pfd" "0 \<le> ufd"
    and off: "\<not> g_tcp_running w" "\<not> g_udp_running w" "\<not> g_fault_running w"
    and ip: "dsm_net_get_local_ip ifs (replicate DSM_MAX_IP_LEN 0) = (0, a)"
  shows "\<exists>n. init_network p c ifs w = (0, n) \<and> local_role (ctx n) \<noteq> DSM_ROLE_MASTER \<and> running (ctx n) \<and>
    \<not> master_found (ctx n) \<and> res_script n = [] \<and> regions (ctx n) = [] \<and> next_global_addr (ctx n) = 0x1000000 \<and>
    local_ip (ctx n) = a \<and> local_port (ctx n) = p \<and> local_chunks (ctx n) = c \<and>
    node_table (ctx n) = Some \<lparr>nodes = replicate DSM_MAX_NODES zero_node, node_count = 0\<rparr> \<and>
    g_tcp_running n \<and> g_udp_running n \<and> \<not> g_fault_running n \<and> now n = now w \<and>
    datagrams n = datagrams w @ [(None, format_message DISCOVER_MSG a p c)] \<and>
    locks (ctx n) = replicate DSM_MAX_LOCKS zero_lock \<and> barrier (ctx n) = zero_barrier"
  using init_network_up [OF sys off(1,2) ip] sys(1) off(3)
  by (intro exI [of _ "network_up p c a (efd, lfd, pfd, ufd) fds w"])
     (simp add: network_up_def fresh_context_def zero_context_def)

lemma first_role:
  assumes "local_role (ctx n) \<noteq> DSM_ROLE_MASTER" "res_script n = []" "now n = now w"
    and "local_ip (ctx n) = a" "local_port (ctx n) = p" "local_chunks (ctx n) = c"
    and "node_table (ctx n) = Some \<lparr>nodes = replicate DSM_MAX_NODES zero_node, node_count = 0\<rparr>"
  shows "\<exists>t. take_role DSM_ROLE_MASTER n = t \<and> nodes_ok t \<and>
    abs_nodes t = [new_entry a p c DSM_ROLE_MASTER (-1) (now w) 0] \<and>
    ctx t = (ctx n)\<lparr>local_role := DSM_ROLE_MASTER, local_node_id := 1, node_table := node_table (ctx t)\<rparr> \<and>
    same_threads n t \<and> res_script t = []"
proof -
  define m where "m = n\<lparr>ctx := (ctx n)\<lparr>local_role := DSM_ROLE_MASTER, local_node_id := 1\<rparr>\<rparr>"
  define t where "t = take_role DSM_ROLE_MASTER n"
  have t: "t = snd (dsm_node_table_add a p c DSM_ROLE_MASTER (-1) m)"
    using assms by (simp add: t_def take_role_def m_def)
  have m: "nodes_ok m" "abs_nodes m = []"
    using assms(7) by (simp_all add: nodes_ok_def table_ok_def m_def abs_nodes_def live_nodes_def zero_node_def)
  have mt: "node_table (ctx m) \<noteq> None" "sys_call m = (True, m)" "now m = now w"
    using assms by (simp_all add: m_def sys_call_ok)
  have "nodes_ok t" "abs_nodes t = [new_entry a p c DSM_ROLE_MASTER (-1) (now w) 0]"
    unfolding t using add_nodes_ok [OF m(1)] by simp (subst add_refines, simp_all add: m mt spec_add_def)
  moreover have "ctx t = (ctx m)\<lparr>node_table := node_table (ctx t)\<rparr> \<and> same_threads n t \<and> res_script t = []"
    unfolding t using assms(2,7)
    by (simp add: dsm_node_table_add_def m_def sys_call_ok put_table_def Let_def same_threads_def split: option.splits)
  ultimately show ?thesis
    using t_def by (simp add: m_def)
qed

text \<open>The fault handler and the locks of a first node.\<close>

lemma first_faults:
  assumes "res_script x = []" "same_threads n x" "\<not> g_fault_running n"
    and "locks (ctx x) = replicate DSM_MAX_LOCKS zero_lock" "barrier (ctx x) = zero_barrier"
  shows "\<exists>y z. dsm_pagefault_init x = (0, x) \<and> dsm_pagefault_start_handler x = (0, y) \<and> dsm_sync_init y = (0, z) \<and>
    locks_ok z \<and> barrier_ok (barrier (ctx z)) \<and> arrived_count (barrier (ctx z)) = 0 \<and>
    (\<forall>k. unat k < DSM_MAX_LOCKS \<longrightarrow> lock_holder (lock_at k z) = None) \<and>
    ctx z = (ctx x)\<lparr>fault_running := True, locks := locks (ctx z), barrier := barrier (ctx z)\<rparr> \<and>
    same_threads (n\<lparr>g_fault_running := True\<rparr>) z"
proof -
  define y where "y = x\<lparr>g_fault_running := True, ctx := (ctx x)\<lparr>fault_running := True\<rparr>\<rparr>"
  have "\<not> g_fault_running x"
    using assms(2,3) by (simp add: same_threads_def)
  then have pf: "dsm_pagefault_init x = (0, x)" "dsm_pagefault_start_handler x = (0, y)"
    using assms(1) by (simp_all add: dsm_pagefault_init_def dsm_pagefault_start_handler_def sys_call_ok y_def)
  obtain z where z: "dsm_sync_init y = (0, z)" "same_threads y z"
    "ctx z = (ctx y)\<lparr>locks := locks (ctx z), barrier := barrier (ctx z)\<rparr>"
    using sync_init_run [of y] assms(1) by (auto simp: y_def)
  have "locks_ok z" "barrier_ok (barrier (ctx z))" "arrived_count (barrier (ctx z)) = 0"
    "\<forall>k. unat k < DSM_MAX_LOCKS \<longrightarrow> lock_holder (lock_at k z) = None"
    using sync_init_correct [OF z(1)] assms(4,5)
    by (simp_all add: y_def zero_lock_def zero_barrier_def list_all_iff)
  moreover have "same_threads (n\<lparr>g_fault_running := True\<rparr>) z"
    using assms(2) z(2) by (simp add: same_threads_def y_def)
  ultimately show ?thesis
    using pf z(1,3) by (intro exI [of _ y] exI [of _ z]) (simp add: y_def)
qed

text \<open>
  C21. The first node becomes the master: when the system refuses nothing and no reply is heard before
  the wait ends, initialisation returns 0 with the three threads started, this node as the only entry
  of the table with id 1, one region of the requested size at global address \<^verbatim>\<open>0x1000000\<close>, well-formed
  tables, every lock free, nobody at the barrier, and one discovery broadcast sent.
\<close>

theorem init_as_master:
  assumes sys: "res_script w = []" "fd_script w = efd # lfd # pfd # ufd # fds"
      "0 \<le> efd" "0 \<le> lfd" "0 \<le> pfd" "0 \<le> ufd"
    and off: "\<not> g_tcp_running w" "\<not> g_udp_running w" "\<not> g_fault_running w"
    and ip: "dsm_net_get_local_ip ifs (replicate DSM_MAX_IP_LEN 0) = (0, a)"
    and quiet: "\<forall>bs. Datagram bs \<in> set (heard rs) \<longrightarrow> \<not> is_reply bs" "TimedOut es \<in> set rs"
    and size: "region_size_of c \<noteq> 0"
  shows "\<exists>v r. dsm_init_with_params p c ifs rs (Some b) w = Some (Inr (0, v)) \<and>
    initialized (ctx v) \<and> running (ctx v) \<and> g_tcp_running v \<and> g_udp_running v \<and> g_fault_running v \<and>
    local_role (ctx v) = DSM_ROLE_MASTER \<and> local_node_id (ctx v) = 1 \<and>
    abs_nodes v = [new_entry a p c DSM_ROLE_MASTER (-1) (now w) 0] \<and>
    regions (ctx v) = [r] \<and> base_addr r = b \<and> total_size r = region_size_of c \<and> global_base r = 0x1000000 \<and>
    next_global_addr (ctx v) = 0x1000000 + region_size_of c \<and>
    state_ok v \<and> (\<forall>k. unat k < DSM_MAX_LOCKS \<longrightarrow> lock_holder (lock_at k v) = None) \<and>
    arrived_count (barrier (ctx v)) = 0 \<and>
    datagrams v = datagrams w @ [(None, format_message DISCOVER_MSG a p c)]"
proof -
  obtain n where net: "init_network p c ifs w = (0, n)"
    and n: "local_role (ctx n) \<noteq> DSM_ROLE_MASTER" "running (ctx n)" "\<not> master_found (ctx n)" "res_script n = []"
    "regions (ctx n) = []" "next_global_addr (ctx n) = 0x1000000" "local_ip (ctx n) = a" "local_port (ctx n) = p"
    "local_chunks (ctx n) = c" "node_table (ctx n) = Some \<lparr>nodes = replicate DSM_MAX_NODES zero_node, node_count = 0\<rparr>"
    "g_tcp_running n" "g_udp_running n" "\<not> g_fault_running n" "now n = now w"
    "datagrams n = datagrams w @ [(None, format_message DISCOVER_MSG a p c)]"
    "locks (ctx n) = replicate DSM_MAX_LOCKS zero_lock" "barrier (ctx n) = zero_barrier"
    using first_network [OF sys off ip, of p c] by (elim exE conjE) (rule that)
  obtain t where t: "take_role DSM_ROLE_MASTER n = t"
    and nodes: "nodes_ok t" "abs_nodes t = [new_entry a p c DSM_ROLE_MASTER (-1) (now w) 0]"
    and tc: "ctx t = (ctx n)\<lparr>local_role := DSM_ROLE_MASTER, local_node_id := 1, node_table := node_table (ctx t)\<rparr>"
    and add: "same_threads n t" "res_script t = []"
    using first_role [OF n(1,4,14,7-10)] by blast
  have tf: "regions (ctx t) = []" "next_global_addr (ctx t) = 0x1000000" "local_role (ctx t) = DSM_ROLE_MASTER"
    "local_node_id (ctx t) = 1" "running (ctx t)" "locks (ctx t) = replicate DSM_MAX_LOCKS zero_lock"
    "barrier (ctx t) = zero_barrier"
    using n by (subst tc, simp)+
  obtain x r where x: "dsm_mem_init c (Some b) t = Inr (0, x)" "memory_only t x" "res_script x = []"
    "regions (ctx x) = [r]" "base_addr r = b" "total_size r = region_size_of c" "global_base r = 0x1000000"
    "next_global_addr (ctx x) = 0x1000000 + region_size_of c"
    using mem_init_master [OF tf(3,4,1) _ size, of b] add tf(2) by auto
  note xt = memory_onlyD [OF x(2)]
  obtain y z where y: "dsm_pagefault_init x = (0, x)" "dsm_pagefault_start_handler x = (0, y)" "dsm_sync_init y = (0, z)"
    and z: "locks_ok z" "barrier_ok (barrier (ctx z))" "arrived_count (barrier (ctx z)) = 0"
      "\<forall>k. unat k < DSM_MAX_LOCKS \<longrightarrow> lock_holder (lock_at k z) = None"
    and zc: "ctx z = (ctx x)\<lparr>fault_running := True, locks := locks (ctx z), barrier := barrier (ctx z)\<rparr>"
    and th: "same_threads (n\<lparr>g_fault_running := True\<rparr>) z"
    using first_faults [OF x(3) same_threads_trans [OF add(1)]] x(2) xt tf(6,7) n(13)
    by (auto simp: memory_only_def)
  define v where "v = z\<lparr>ctx := (ctx z)\<lparr>initialized := True\<rparr>\<rparr>"
  have run: "dsm_init_with_params p c ifs rs (Some b) w = Some (Inr (0, v))"
    using x(1) y
    by (simp add: dsm_init_with_params_def net wait_silent [OF n(1,2,3) quiet] init_memory_def t v_def)
  have zf: "running (ctx z)" "local_role (ctx z) = DSM_ROLE_MASTER" "local_node_id (ctx z) = 1"
    "node_table (ctx z) = node_table (ctx t)" "regions (ctx z) = [r]"
    "next_global_addr (ctx z) = 0x1000000 + region_size_of c" "page_table (ctx z) = page_table (ctx x)"
    using xt tf(3-5) x(4,8) by (subst zc, simp)+
  have "state_ok z"
    using nodes(1) z(1,2) zf(4,7) mem_init_pages [OF x(1)]
    by (simp add: state_ok_def nodes_ok_def page_table_ok_def)
  then have "state_ok v"
    by (subst state_ok_frame [of _ z]) (simp_all add: v_def)
  then show ?thesis
    using run x(5-7) zf th z(3,4) nodes(2) n(11,12,15)
    by (intro exI [of _ v] exI [of _ r]) (simp add: v_def abs_nodes_def lock_at_def same_threads_def)
qed

theorem init_as_master_witness:
  "\<exists>v. dsm_init_with_params 9000 64 (Some [\<lparr>ifa_name = ascii ''lo'', ifa_addr = Some (Inet (ascii ''127.0.0.1''))\<rparr>,
       \<lparr>ifa_name = ascii ''eth0'', ifa_addr = Some (Inet demo_ip)\<rparr>]) [TimedOut []] (Some 0x10000)
     (boot_world\<lparr>fd_script := [3, 4, 5, 6]\<rparr>) = Some (Inr (0, v)) \<and>
   map node_id (abs_nodes v) = [1]"
proof -
  let ?ifs = "Some [\<lparr>ifa_name = ascii ''lo'', ifa_addr = Some (Inet (ascii ''127.0.0.1''))\<rparr>,
       \<lparr>ifa_name = ascii ''eth0'', ifa_addr = Some (Inet demo_ip)\<rparr>]"
  let ?w = "boot_world\<lparr>fd_script := [3, 4, 5, 6]\<rparr>"
  have ip: "dsm_net_get_local_ip ?ifs (replicate DSM_MAX_IP_LEN 0) = (0, set_ip (replicate DSM_MAX_IP_LEN 0) demo_ip)"
    by code_simp
  have "res_script ?w = []" "fd_script ?w = 3 # 4 # 5 # 6 # []" "\<not> g_tcp_running ?w" "\<not> g_udp_running ?w"
    "\<not> g_fault_running ?w" "region_size_of 64 \<noteq> 0"
    by (simp_all add: boot_world_def region_size_of_def)
  from init_as_master [OF this(1,2) _ _ _ _ this(3-5) ip _ _ this(6), of "[TimedOut []]" "[]" 9000 "0x10000"]
  show ?thesis
    by (auto simp: new_entry_def)
qed

text \<open>
  C26. Stopping: after \<^verbatim>\<open>dsm_finalize\<close> no thread is running, the variables of the UDP socket, the
  listening socket, the epoll instance and the eventfd, those of the files and those of the context, hold
  no descriptor, the tables and regions are gone and the library is not initialised, so that a second call
  does nothing. But these four are the only descriptors closed: a worker's \<^verbatim>\<open>master_fd\<close> keeps its value, and
  neither it nor a connection of the node table is closed.
\<close>

theorem finalize_stops:
  assumes "initialized (ctx w)"
  defines "v \<equiv> dsm_finalize w"
  shows "\<not> g_tcp_running v \<and> \<not> g_udp_running v \<and> \<not> g_fault_running v \<and> \<not> running (ctx v) \<and>
    \<not> initialized (ctx v) \<and> g_udp_socket v < 0 \<and> g_tcp_listen_fd v < 0 \<and> g_epoll_fd v < 0 \<and>
    udp_fd (ctx v) < 0 \<and> tcp_listen_fd (ctx v) < 0 \<and> epoll_fd (ctx v) < 0 \<and> fault_eventfd (ctx v) < 0 \<and>
    master_fd (ctx v) = master_fd (ctx w) \<and> node_table (ctx v) = None \<and> page_table (ctx v) = None \<and> regions (ctx v) = [] \<and>
    dsm_finalize v = v \<and>
    set (closed_fds v) = set (closed_fds w) \<union> {fd. 0 \<le> fd \<and>
      (fd = g_udp_socket w \<or> fd = g_epoll_fd w \<or> fd = g_tcp_listen_fd w \<or> fd = fault_eventfd (ctx w))}"
proof -
  define a where "a = dsm_tcp_stop_server (dsm_udp_stop_listener (dsm_pagefault_stop_handler
    (w\<lparr>ctx := (ctx w)\<lparr>running := False\<rparr>\<rparr>)))"
  have a: "\<not> g_tcp_running a" "\<not> g_udp_running a" "\<not> g_fault_running a" "g_udp_socket a = g_udp_socket w"
    "g_epoll_fd a = g_epoll_fd w" "g_tcp_listen_fd a = g_tcp_listen_fd w" "closed_fds a = closed_fds w"
    "fault_eventfd (ctx a) = fault_eventfd (ctx w)" "master_fd (ctx a) = master_fd (ctx w)"
    by (auto simp: a_def dsm_tcp_stop_server_def dsm_udp_stop_listener_def dsm_pagefault_stop_handler_def
        sys_call_def case_prod_beta Let_def split: list.splits)
  define b where "b = dsm_udp_shutdown (dsm_mem_shutdown a)"
  note m = mem_shutdown_frame [of a]
  have b: "\<not> g_tcp_running b" "\<not> g_udp_running b" "\<not> g_fault_running b" "g_udp_socket b < 0"
    "g_epoll_fd b = g_epoll_fd w" "g_tcp_listen_fd b = g_tcp_listen_fd w"
    "fault_eventfd (ctx b) = fault_eventfd (ctx w)" "master_fd (ctx b) = master_fd (ctx w)" "udp_fd (ctx b) = -1"
    "regions (ctx b) = []" "page_table (ctx b) = None"
    "set (closed_fds b) = set (closed_fds w) \<union> {fd. 0 \<le> fd \<and> fd = g_udp_socket w}"
    using a m memory_onlyD(8,9) [of a "dsm_mem_shutdown a"]
    by (auto simp: b_def dsm_udp_shutdown_def memory_only_def same_threads_def close_fd_def Let_def)
  define c where "c = dsm_tcp_shutdown b"
  note c = tcp_shutdown_frame [of b, folded c_def]
  have v: "v = (let x = dsm_context_destroy (dsm_node_table_destroy c) in x\<lparr>ctx := (ctx x)\<lparr>initialized := False\<rparr>\<rparr>)"
    using assms(1) by (simp add: v_def dsm_finalize_def a_def b_def c_def dsm_sync_shutdown_def
        dsm_pagefault_shutdown_def Let_def)
  have "dsm_finalize v = v"
    by (simp add: dsm_finalize_def v Let_def)
  moreover have "\<not> running (ctx v)" "\<not> initialized (ctx v)" "fault_eventfd (ctx v) < 0" "node_table (ctx v) = None"
    by (auto simp: v dsm_context_destroy_def dsm_node_table_destroy_def close_fd_def Let_def)
  moreover have "\<not> g_tcp_running v" "\<not> g_udp_running v" "\<not> g_fault_running v" "g_udp_socket v < 0"
    "g_tcp_listen_fd v < 0" "g_epoll_fd v < 0" "page_table (ctx v) = None" "regions (ctx v) = []"
    "udp_fd (ctx v) < 0" "tcp_listen_fd (ctx v) < 0" "epoll_fd (ctx v) < 0" "master_fd (ctx v) = master_fd (ctx w)"
    using b c by (auto simp: v dsm_context_destroy_def dsm_node_table_destroy_def close_fd_def Let_def)
  moreover have "set (closed_fds v) = set (closed_fds c) \<union> {fd. 0 \<le> fd \<and> fd = fault_eventfd (ctx c)}"
    by (auto simp: v dsm_context_destroy_def dsm_node_table_destroy_def close_fd_def Let_def)
  then have "set (closed_fds v) = set (closed_fds w) \<union> {fd. 0 \<le> fd \<and>
      (fd = g_udp_socket w \<or> fd = g_epoll_fd w \<or> fd = g_tcp_listen_fd w \<or> fd = fault_eventfd (ctx w))}"
    using b c by auto
  ultimately show ?thesis
    by blast
qed

theorem finalize_stops_witness:
  "let v = dsm_finalize (demo_nodes\<lparr>ctx := (ctx demo_nodes)\<lparr>initialized := True, master_fd := 9\<rparr>,
     closed_fds := [], g_udp_socket := 6, g_epoll_fd := 5, g_tcp_listen_fd := 4\<rparr>)
   in set (closed_fds v) = {0, 4, 5, 6} \<and> master_fd (ctx v) = 9 \<and> udp_fd (ctx v) < 0"
proof -
  let ?w = "demo_nodes\<lparr>ctx := (ctx demo_nodes)\<lparr>initialized := True, master_fd := 9\<rparr>,
     closed_fds := [], g_udp_socket := 6, g_epoll_fd := 5, g_tcp_listen_fd := 4\<rparr>"
  have "fault_eventfd (ctx demo_nodes) = 0"
    by code_simp
  then have fields: "closed_fds ?w = []" "g_udp_socket ?w = 6" "g_epoll_fd ?w = 5" "g_tcp_listen_fd ?w = 4"
    "fault_eventfd (ctx ?w) = 0" "master_fd (ctx ?w) = 9" and "initialized (ctx ?w)"
    by simp_all
  note stops = finalize_stops [OF this(7), unfolded fields]
  have fds: "set [] \<union> {fd :: int. 0 \<le> fd \<and> (fd = 6 \<or> fd = 5 \<or> fd = 4 \<or> fd = 0)} = {0, 4, 5, 6}"
    by auto
  show ?thesis
    using stops unfolding Let_def fds by blast
qed

text \<open>
  A failed start is not undone: when the UDP socket cannot be made, the error path closes the
  sockets and ends the context but never stops the TCP server thread, so \<^verbatim>\<open>g_tcp_running\<close> stays set;
  and while it is set a new attempt to start the server reports success without creating a thread.
\<close>

lemma failed_start_keeps_flag:
  assumes "res_script w = []" "fd_script w = efd # lfd # pfd # ufd # fds"
    and "0 \<le> efd" "0 \<le> lfd" "0 \<le> pfd" "ufd < 0"
    and "dsm_net_get_local_ip ifs (replicate DSM_MAX_IP_LEN 0) = (0, a)"
  shows "\<exists>v. dsm_init_with_params p c ifs rs addr w = Some (Inr (-1, v)) \<and>
    g_tcp_running v \<and> \<not> running (ctx v) \<and> g_tcp_listen_fd v < 0 \<and>
    (\<forall>u. g_tcp_running u \<longrightarrow> dsm_tcp_start_server u = (0, u))"
proof -
  define w3 where "w3 = tcp_up p c a (efd, lfd, pfd) (ufd # fds) w"
  define w4 where "w4 = snd (dsm_tcp_start_server w3)"
  have s4: "dsm_tcp_start_server w3 = (0, w4)" "g_tcp_running w4" "fd_script w4 = ufd # fds"
    using assms(1) by (simp_all add: w4_def dsm_tcp_start_server_def sys_call_ok w3_def tcp_up_def)
  define w5 where "w5 = snd (dsm_udp_init w4)"
  have s5: "dsm_udp_init w4 = (-1, w5)" "g_tcp_running w5"
    using assms(6) s4(2,3) by (simp_all add: w5_def dsm_udp_init_def sys_fd_def)
  have "dsm_init_with_params p c ifs rs addr w = Some (Inr (-1, undo_tcp w5))"
    using init_network_tcp [OF assms(1-5,7), of p c]
    by (simp add: dsm_init_with_params_def server_up_def w3_def [symmetric] s4(1) s5(1))
  moreover have "g_tcp_running (undo_tcp w5)" "\<not> running (ctx (undo_tcp w5))" "g_tcp_listen_fd (undo_tcp w5) < 0"
    using tcp_shutdown_frame(2,3) [of w5] s5(2)
    by (auto simp: undo_tcp_def undo_nodes_def dsm_context_destroy_def dsm_node_table_destroy_def close_fd_def Let_def)
  ultimately show ?thesis
    by (auto simp: dsm_tcp_start_server_def)
qed

text \<open>
  C39. The command line: with fewer than two arguments initialisation fails and changes nothing; with a
  port and a number of chunks in decimal it goes ahead exactly when the port, cut to 16 bits, is at
  least 1024 and the chunks are between 1 and 1024. So 70000, which is no port, is taken as 4464.
\<close>

theorem init_arguments:
  assumes "- (2 ^ 31) \<le> i" "i < 2 ^ 31" "- (2 ^ 31) \<le> j" "j < 2 ^ 31"
  shows "dsm_init [prog, show_int i, show_int j] ifs rs addr w =
      (if 1024 \<le> i mod 65536 \<and> 1 \<le> j \<and> j \<le> int DSM_MAX_CHUNKS
       then dsm_init_with_params (word_of_int i) (word_of_int j) ifs rs addr w else Some (Inr (-1, w))) \<and>
    (length args < 3 \<longrightarrow> dsm_init args ifs rs addr w = Some (Inr (-1, w)))"
proof -
  have at: "atoi (show_int i) = word_of_int i" "atoi (show_int j) = word_of_int j"
    using assms by (simp_all add: atoi_show_int)
  have p: "ucast (word_of_int i :: u32) = (word_of_int i :: u16)"
    by (rule bit_word_eqI) (auto simp: bit_simps)
  have port: "word_of_int i < (1024 :: u16) \<longleftrightarrow> i mod 65536 < 1024"
    by (simp add: word_less_def uint_word_of_int)
  have chunks: "word_of_int j < (1 :: u32) \<or> word_of_nat DSM_MAX_CHUNKS < (word_of_int j :: u32) \<longleftrightarrow>
      \<not> (1 \<le> j \<and> j \<le> int DSM_MAX_CHUNKS)"
  proof (cases "0 \<le> j")
    case True
    with assms(4) show ?thesis
      by (auto simp: word_less_def uint_word_of_int)
  next
    case False
    then have "(j + 4294967296) mod 4294967296 = j + 4294967296"
      using assms(3) by (intro mod_pos_pos_trivial) simp_all
    then have "j mod 4294967296 = j + 4294967296"
      by simp
    with False assms(3) show ?thesis
      by (auto simp: word_less_def uint_word_of_int)
  qed
  show ?thesis
    unfolding dsm_init_def using port chunks by (auto simp: at p Let_def not_less)
qed

theorem init_arguments_witness:
  "dsm_init [[], show_int 70000, show_int 64] None [] None boot_world =
     dsm_init_with_params 4464 64 None [] None boot_world"
proof -
  have port: "(70000 :: u16) = 4464"
    by simp
  show ?thesis
    using init_arguments [of 70000 64 "[]" None "[]" None boot_world "[]"] by (simp add: port)
qed

text \<open>
  C40. The local address is the one of the first usable interface with a name of a network card
  (\<^verbatim>\<open>wl\<close>, \<^verbatim>\<open>wifi\<close>, \<^verbatim>\<open>en\<close>, \<^verbatim>\<open>eth\<close>), else of the first usable one; without one, or when the interfaces
  cannot be listed, the result is -1 and the buffer is left alone.
\<close>

theorem local_ip_choice:
  assumes "length buf = DSM_MAX_IP_LEN"
  shows "dsm_net_get_local_ip ifs buf =
    (case Option.bind ifs chosen_address of None \<Rightarrow> (-1, buf) | Some a \<Rightarrow> (0, set_ip buf a))"
  using walk_chosen [OF assms] by (auto simp: dsm_net_get_local_ip_def split: option.splits)

theorem local_ip_choice_witness:
  "fst (dsm_net_get_local_ip (Some [\<lparr>ifa_name = ascii ''lo'', ifa_addr = Some (Inet demo_ip)\<rparr>]) (replicate 16 0)) = -1"
  using local_ip_choice [of "replicate 16 0" "Some [\<lparr>ifa_name = ascii ''lo'', ifa_addr = Some (Inet demo_ip)\<rparr>]"]
  by (simp add: chosen_address_def usable_def)

end
