(* ===== verification/Spec2Isabelle.thy ===== *)
theory Spec2Isabelle
  imports DsmSystem DsmBarrierSystem DsmInit
begin

text \<open>
  A model of DSM, a C library that lets the processes of several machines share memory, and theorems
  about it. One node is the master, the others are workers. Nodes find each other by UDP broadcast,
  keep a table of all nodes, talk over TCP, map regions of memory at global addresses, fetch a remote
  page when an access to it faults, and share 256 locks and one barrier, which the master serves.

  \<^bold>\<open>The model.\<close> Each C function is a function on \<open>world\<close> with the name it has in the source. A \<open>world\<close>
  is one process: the global context \<^verbatim>\<open>g_dsm_ctx\<close>, the static variables of the source files, and the
  part of the operating system the library uses (the protection and contents of memory, what was put
  on each connection, the descriptors closed, the threads woken). Machine integers are words of their
  width. What C leaves undefined and what kills a process is a value of type \<open>crash\<close> (a null
  dereference, an array index out of range, an access to memory that is not mapped for it); a model of
  one compiled program could go on after an index out of range, this one ends there. \<open>mem\<close> holds the
  mapped memory, the tables of the library are apart from it. Outcomes
  the system decides are lists of results in the state or arguments: what the next fallible calls
  return, what \<^verbatim>\<open>send\<close>, \<^verbatim>\<open>recv\<close>, \<^verbatim>\<open>epoll_wait\<close>, \<^verbatim>\<open>select\<close> and \<^verbatim>\<open>pthread_cond_timedwait\<close> do. A loop that
  only the outside can end runs over such a list, and its result is \<open>None\<close> when the list ends before
  the loop does, so no bound is assumed on the number of retries. Code under a mutex is one step;
  the interleavings that matter for the locks and the barrier are the steps of \<open>DsmCluster\<close>,
  \<open>DsmSystem\<close>, \<open>DsmBarrier\<close> and \<open>DsmBarrierSystem\<close>, and the points where the
  public operations wait cut them into functions (\<open>dsm_lock_call\<close> and \<open>dsm_lock_resume\<close>,
  \<open>dsm_barrier_arrive\<close>, \<open>dsm_barrier_wait\<close> and \<open>dsm_barrier_test\<close>, \<open>sigsegv_handler\<close> and
  \<open>sigsegv_spin\<close>).

  \<^bold>\<open>The theories.\<close>
  \<^item> \<open>DsmPrelude\<close>: array loops, C strings, little-endian numbers; the locale \<open>first_match_table\<close>, the
    contract of a table searched from the front; reachable states, invariants and simulations.
  \<^item> \<open>DsmTypes\<close>, \<open>DsmWire\<close> (\<^verbatim>\<open>include/dsm_types.h\<close>): enumerations and records; the packed messages
    and the locale \<open>codec\<close>, which every message format interprets.
  \<^item> \<open>DsmWorld\<close>, \<open>DsmContext\<close> (\<^verbatim>\<open>include/dsm_internal.h\<close>, \<^verbatim>\<open>src/dsm_init.c\<close>): the state, the system
    calls, virtual memory, the context and the message headers.
  \<^item> \<open>DsmNodeTable\<close> (\<^verbatim>\<open>src/dsm_network.c\<close>): the table of 64 nodes. Lookups by id and by address are
    interpretations of \<open>first_match_table\<close>; additions and removals refine operations on lists.
  \<^item> \<open>DsmTcp\<close> (\<^verbatim>\<open>src/dsm_tcp.c\<close>): the send and receive loops, messages to one node and to all,
    connections, the life of the server.
  \<^item> \<open>DsmSync\<close> (\<^verbatim>\<open>src/dsm_sync.c\<close>): the master's handlers of locks and barrier, the public operations.
    The lock refines the contract \<open>lock_manager\<close>, a holder and a first-come-first-served queue.
  \<^item> \<open>DsmCluster\<close>: the lock protocol, one lock across all machines as a step relation with messages in
    flight; mutual exclusion and progress are invariants of its reachable states.
  \<^item> \<open>DsmBarrier\<close>: the barrier across all machines in the same way, with the phases of \<^verbatim>\<open>dsm_barrier\<close>
    on every node and spurious wake-ups; what it synchronises, and how it stops.
  \<^item> \<open>DsmOwnership\<close>, \<open>DsmPages\<close>, \<open>DsmRegions\<close> (\<^verbatim>\<open>src/dsm_memory.c\<close>): who owns an address; the page
    table and the transfer of a page; regions, address translation and the allocator. The two page
    lookups are interpretations of \<open>first_match_table\<close>.
  \<^item> \<open>DsmPageFault\<close> (\<^verbatim>\<open>src/dsm_pagefault.c\<close>): the signal handler, the loop of the handler thread and
    what it does with a fault.
  \<^item> \<open>DsmDispatch\<close> (\<^verbatim>\<open>src/dsm_tcp.c\<close>): the handler of each message, the cutting of a connection's bytes
    into messages, and the server thread.
  \<^item> \<open>DsmProcess\<close>, \<open>DsmSystem\<close>, \<open>DsmBarrierSystem\<close>: the lock and the barrier across all machines again,
    now with a \<open>world\<close> per node that runs \<^verbatim>\<open>dsm_lock\<close>, \<^verbatim>\<open>dsm_unlock\<close>, \<^verbatim>\<open>dsm_barrier\<close> and the server
    thread, and with bytes in flight. They interpret the locale \<open>forward_simulation\<close> (\<open>DsmPrelude\<close>) over
    the protocols of \<open>DsmCluster\<close> and \<open>DsmBarrier\<close>, so that what holds there holds of the processes.
  \<^item> \<open>DsmInvariant\<close>: what no message, no bytes and no event of the server thread can break, and the
    messages that can crash a process.
  \<^item> \<open>DsmUdp\<close> (\<^verbatim>\<open>src/dsm_udp.c\<close>): the discovery messages as text, the listener, the wait for a master.
  \<^item> \<open>DsmInit\<close> (\<^verbatim>\<open>src/dsm_init.c\<close>): the local address, starting with every error path, stopping.
  \<^item> This theory: properties that need several of them, among them a lock, a page fault and a node that
    joins, each followed from one machine to the other and back.

  \<^bold>\<open>What is shown.\<close> Where the code keeps a promise, the theorem states it for every state in which the
  code can be expected to: the processes implement the lock protocol, which excludes two holders and
  passes on every grant, the barrier lets no node out before all have arrived (unless a worker wakes up
  without reason), a page arrives as it was sent, a stream of messages is cut where it was joined, a node
  that joins gets its id and the table, addresses translate back, tables do what lists do, a message
  leaves them well formed or crashes the process for one of the causes listed, a first node becomes a
  working master. Where it does not, the theorem says what happens instead: ids that repeat after a
  departure, a thread of the master that is not woken, a barrier that stops for ever after a release
  nobody waited for (and only then), messages of two threads that destroy each other, owners that are not
  found, allocations that overlap, a page message that writes behind its page, a write that faults for
  ever, a connection that is never noted. Theorems about sending assume sockets that take what
  they are given where the text says so; \<open>send_raw_correct\<close> covers the others.

  \<^bold>\<open>Bounds.\<close> A wait can end without reason on any node the theorem names; C3, C9 and C10 say what they
  need of it. The cluster theories take one application thread per node, connections that stay up,
  messages of one kind (lock or barrier) that are read whole, any number at a time, and, for
  \<open>lock_no_deadlock\<close> and the barrier, at most 64 nodes, which is what the table holds. A segmentation
  fault is the value \<open>SegFault\<close>; in a region of the library it is what starts \<open>sigsegv_handler\<close>, also
  when the thread it stops is the server thread.

  \<^bold>\<open>Not modelled.\<close> The text of log lines (\<open>log_enabled\<close> says which levels are printed); \<^verbatim>\<open>getifaddrs\<close>,
  \<^verbatim>\<open>inet_ntoa\<close> and the other calls that only read or set the system (their results are arguments or
  entries of a script); socket options; the exact order in which threads take mutexes inside one process,
  beyond the cuts named above; what the server thread does while the main thread waits for a master; the
  test programs. The headers \<^verbatim>\<open>dsm.h\<close>, \<^verbatim>\<open>dsm_memory.h\<close> and \<^verbatim>\<open>dsm_network.h\<close> hold prototypes.
\<close>

section \<open>Properties across components\<close>

text \<open>The three moves of a lock: the worker asks, the master grants it, the grant wakes the worker.\<close>

lemma worker_asks:
  assumes "local_role (ctx v) \<noteq> DSM_ROLE_MASTER" "0 \<le> master_fd (ctx v)"
    "send_script v (master_fd (ctx v)) = []" "\<not> locked (lock_at (word_of_int k) v)" "0 \<le> k" "k < int DSM_MAX_LOCKS"
  shows "\<exists>v1 h. dsm_lock_call k v = (Blocked, v1) \<and> msg_header (local_node_id (ctx v)) DSM_MSG_LOCK_REQUEST 4 h \<and>
    sent v1 (master_fd (ctx v)) = sent v (master_fd (ctx v)) @ put_header h @ put32 (word_of_int k) \<and>
    ctx v1 = (ctx v)\<lparr>seq_num := seq_num (ctx v) + 1\<rparr> \<and> wakes v1 = wakes v"
proof -
  let ?h = "dsm_create_header DSM_MSG_LOCK_REQUEST (master_id (ctx v)) sizeof_lock v"
  let ?v = "(snd ?h)\<lparr>sent := (sent v)(master_fd (ctx v) := sent v (master_fd (ctx v)) @ put_header (fst ?h) @
    put32 (word_of_int k))\<rparr>"
  have "dsm_lock_call k v = (Blocked, ?v)"
    using assms
    by (simp add: dsm_lock_call_def Let_def case_prod_beta master_socket_def send_raw_clear dsm_lock_resume_def
        worker_test_def lock_at_def)
  then show ?thesis
    by (intro exI [of _ ?v] exI [of _ "fst ?h"]) (simp add: msg_header_def)
qed

lemma master_grants_free:
  assumes "local_role (ctx w) = DSM_ROLE_MASTER" "length (locks (ctx w)) = DSM_MAX_LOCKS" "\<not> locked (lock_at lid w)"
    "\<And>fd. send_script w fd = []" "dsm_node_table_get n w = Some i" "0 \<le> tcp_fd (node_at i w)"
    and "unat lid < DSM_MAX_LOCKS" and h: "msg_header n DSM_MSG_LOCK_REQUEST 4 h"
  shows "\<exists>w1 buf'. handle_client_data fd [Received (put_header h @ put32 lid)] buf again w =
      Some (Inr ([], buf', True, w1)) \<and> lock_holder (lock_at lid w1) = Some n \<and>
    sent w1 (tcp_fd (node_at i w)) = sent w (tcp_fd (node_at i w)) @ grant_bytes n lid w"
proof -
  let ?l = "(lock_at lid w)\<lparr>locked := True, holder_id := n\<rparr>"
  define w1 where "w1 = send_grant n lid (put_lock lid ?l w)"
  have hdr: "magic h = DSM_MAGIC" "payload_len h = 4" "msg_type h = msg_code DSM_MSG_LOCK_REQUEST" "src_node h = n"
    using h by (simp_all add: msg_header_def)
  have "snd (dsm_sync_handle_lock_request n lid w) = w1"
    using assms(3,7) by (simp add: dsm_sync_handle_lock_request_def lock_request_def w1_def)
  then have "dsm_handle_message h (Some bs) w = Inr w1" if "get32 bs = lid" for bs
    using dispatch_lock_request [OF hdr(3,2), of bs w] assms(1) that by (simp add: hdr(4))
  moreover have "lock_at lid w1 = ?l"
    using lock_at_put_lock [of lid w lid ?l] assms(2,7)
    by (simp add: w1_def send_grant_def lock_at_def case_prod_beta Let_def)
  moreover have "sent w1 (tcp_fd (node_at i w)) = sent w (tcp_fd (node_at i w)) @ grant_bytes n lid w"
    using send_grant_sent [OF assms(4)] assms(5,6) by (simp add: w1_def grant_sent_def)
  ultimately show ?thesis
    using client_lock_message [OF hdr(1,2), of lid w w1 fd buf again]
    by (intro exI [of _ w1]) (auto simp: lock_holder_def)
qed

lemma grant_wakes_worker:
  assumes "local_role (ctx v) \<noteq> DSM_ROLE_MASTER" "length (locks (ctx v)) = DSM_MAX_LOCKS" "unat lid < DSM_MAX_LOCKS"
  shows "\<exists>v2 buf'. handle_client_data fd [Received (grant_bytes (local_node_id (ctx v)) lid w)] buf again v =
      Some (Inr ([], buf', True, v2)) \<and> wakes v2 = wakes v @ [SignalLock (unat lid)] \<and>
    dsm_lock_resume lid v2 = (Returned, v2) \<and> lock_holder (lock_at lid v2) = Some (local_node_id (ctx v))"
proof -
  let ?g = "lock_granted (local_node_id (ctx v)) (lock_at lid v)"
  define v2 where "v2 = wake (SignalLock (unat lid)) (put_lock lid ?g v)"
  let ?h = "\<lparr>magic = DSM_MAGIC, msg_type = msg_code DSM_MSG_LOCK_GRANT, src_node = local_node_id (ctx w),
    dst_node = local_node_id (ctx v), hdr_seq_num = seq_num (ctx w), payload_len = 4\<rparr>"
  have "dsm_handle_message ?h (Some bs) v = Inr v2" if "get32 bs = lid" for bs
    using dispatch_lock_grant [of ?h bs v] that assms(2,3) by (simp add: handle_lock_grant_def v2_def)
  then have "\<exists>buf'. handle_client_data fd [Received (grant_bytes (local_node_id (ctx v)) lid w)] buf again v =
      Some (Inr ([], buf', True, v2))"
    using client_lock_message [of ?h lid v v2 fd buf again] by (auto simp: grant_bytes_def)
  moreover have at: "lock_at lid v2 = ?g"
    using lock_at_put_lock [of lid v lid ?g] assms(2,3) by (simp add: v2_def lock_at_def)
  moreover have "local_role (ctx v2) = local_role (ctx v)" "local_node_id (ctx v2) = local_node_id (ctx v)"
    "wakes v2 = wakes v @ [SignalLock (unat lid)]"
    by (simp_all add: v2_def put_lock_def)
  ultimately show ?thesis
    using assms(1)
    by (intro exI [of _ v2]) (simp add: dsm_lock_resume_def worker_test_def lock_granted_def lock_holder_def)
qed

text \<open>
  C5. A lock end to end: a worker asks for a lock that is free on the master; the bytes it puts on its
  connection, read by the master's server thread, make it the holder there, and the bytes the master
  answers with, read by the worker's server thread, wake the waiting thread, which then returns with
  the lock.
\<close>

theorem lock_end_to_end:
  fixes v w :: world
  assumes worker: "local_role (ctx v) \<noteq> DSM_ROLE_MASTER" "0 \<le> master_fd (ctx v)"
      "length (locks (ctx v)) = DSM_MAX_LOCKS" "send_script v (master_fd (ctx v)) = []"
      "\<not> locked (lock_at (word_of_int k) v)"
    and master: "local_role (ctx w) = DSM_ROLE_MASTER" "length (locks (ctx w)) = DSM_MAX_LOCKS"
      "\<not> locked (lock_at (word_of_int k) w)" "\<And>fd. send_script w fd = []"
      "dsm_node_table_get (local_node_id (ctx v)) w = Some i" "0 \<le> tcp_fd (node_at i w)"
    and k: "0 \<le> k" "k < int DSM_MAX_LOCKS"
  shows "\<exists>v1 w1 v2 req grant bm bw.
    dsm_lock_call k v = (Blocked, v1) \<and>
    sent v1 (master_fd (ctx v)) = sent v (master_fd (ctx v)) @ req \<and>
    handle_client_data fm [Received req] bufm am w = Some (Inr ([], bm, True, w1)) \<and>
    lock_holder (lock_at (word_of_int k) w1) = Some (local_node_id (ctx v)) \<and>
    sent w1 (tcp_fd (node_at i w)) = sent w (tcp_fd (node_at i w)) @ grant \<and>
    handle_client_data fw [Received grant] bufw aw v1 = Some (Inr ([], bw, True, v2)) \<and>
    wakes v2 = wakes v @ [SignalLock (nat k)] \<and>
    dsm_lock_resume (word_of_int k) v2 = (Returned, v2) \<and>
    lock_holder (lock_at (word_of_int k) v2) = Some (local_node_id (ctx v))"
proof -
  define lid where "lid = (word_of_int k :: u32)"
  have u: "unat lid = nat k" "unat lid < DSM_MAX_LOCKS"
    using k unat_lock_number [of k] by (simp_all add: lid_def)
  obtain v1 h where call: "dsm_lock_call k v = (Blocked, v1)" "msg_header (local_node_id (ctx v)) DSM_MSG_LOCK_REQUEST 4 h"
    "sent v1 (master_fd (ctx v)) = sent v (master_fd (ctx v)) @ put_header h @ put32 lid"
    "ctx v1 = (ctx v)\<lparr>seq_num := seq_num (ctx v) + 1\<rparr>" "wakes v1 = wakes v"
    using worker_asks [OF worker(1,2,4,5) k] unfolding lid_def by blast
  obtain w1 bm where served: "handle_client_data fm [Received (put_header h @ put32 lid)] bufm am w =
      Some (Inr ([], bm, True, w1))" "lock_holder (lock_at lid w1) = Some (local_node_id (ctx v))"
    "sent w1 (tcp_fd (node_at i w)) = sent w (tcp_fd (node_at i w)) @ grant_bytes (local_node_id (ctx v)) lid w"
    using master_grants_free [OF master(1,2) _ master(4-6) u(2) call(2), of fm bufm am] master(3) by (auto simp: lid_def)
  have v1: "local_role (ctx v1) \<noteq> DSM_ROLE_MASTER" "length (locks (ctx v1)) = DSM_MAX_LOCKS"
    "local_node_id (ctx v1) = local_node_id (ctx v)"
    using worker(1,3) by (simp_all add: call(4))
  obtain v2 bw where "handle_client_data fw [Received (grant_bytes (local_node_id (ctx v)) lid w)] bufw aw v1 =
      Some (Inr ([], bw, True, v2))" "wakes v2 = wakes v @ [SignalLock (nat k)]"
    "dsm_lock_resume lid v2 = (Returned, v2)" "lock_holder (lock_at lid v2) = Some (local_node_id (ctx v))"
    using grant_wakes_worker [OF v1(1,2) u(2), of fw w bufw aw] by (auto simp: v1(3) u(1) call(5))
  with call(1,3) served show ?thesis
    unfolding lid_def [symmetric] by blast
qed

text \<open>A worker connected to its master, both with all locks free.\<close>

definition demo_worker :: world where
  "demo_worker = boot_world\<lparr>ctx := (ctx boot_world)\<lparr>local_role := DSM_ROLE_WORKER, local_node_id := 2, master_fd := 5\<rparr>\<rparr>"

definition demo_server :: world where
  "demo_server = demo_nodes\<lparr>ctx := (ctx demo_nodes)\<lparr>local_role := DSM_ROLE_MASTER, local_node_id := 1\<rparr>\<rparr>"

theorem lock_end_to_end_witness:
  "\<exists>v1 w1 v2 req grant bm bw. dsm_lock_call 3 demo_worker = (Blocked, v1) \<and>
    handle_client_data 7 [Received req] [] False demo_server = Some (Inr ([], bm, True, w1)) \<and>
    lock_holder (lock_at 3 w1) = Some 2 \<and>
    handle_client_data 5 [Received grant] [] False v1 = Some (Inr ([], bw, True, v2)) \<and>
    dsm_lock_resume 3 v2 = (Returned, v2)"
proof -
  have worker: "local_role (ctx demo_worker) \<noteq> DSM_ROLE_MASTER" "0 \<le> master_fd (ctx demo_worker)"
    "length (locks (ctx demo_worker)) = DSM_MAX_LOCKS" "send_script demo_worker (master_fd (ctx demo_worker)) = []"
    "\<not> locked (lock_at (word_of_int 3) demo_worker)" "local_node_id (ctx demo_worker) = 2"
    by (simp_all add: demo_worker_def boot_world_def zero_context_def lock_at_def zero_lock_def)
  have master: "local_role (ctx demo_server) = DSM_ROLE_MASTER" "length (locks (ctx demo_server)) = DSM_MAX_LOCKS"
    "\<not> locked (lock_at (word_of_int 3) demo_server)" "send_script demo_server fd = []" for fd
    by (simp_all add: demo_server_def lock_at_def zero_lock_def)
  have same: "node_table (ctx demo_server) = node_table (ctx demo_nodes)"
    by (simp add: demo_server_def)
  have "dsm_node_table_get 2 demo_nodes = Some 1" "tcp_fd (node_at 1 demo_nodes) = 7"
    by code_simp+
  then have node: "dsm_node_table_get (local_node_id (ctx demo_worker)) demo_server = Some 1"
    "0 \<le> tcp_fd (node_at 1 demo_server)"
    using node_get_frame [OF same] worker(6) by simp_all
  show ?thesis
    using lock_end_to_end [OF worker(1-5) master(1-4) node, of 7 "[]" False 5 "[]" False]
    unfolding worker(6) word_of_int_numeral by (simp, blast)
qed

text \<open>The owner of a page answers the request for it, when its connection to the asker is clear.\<close>

lemma page_request_served:
  fixes w :: world and n :: u32 and ga :: u64 and acc :: u32
  defines "h \<equiv> dsm_create_header DSM_MSG_PAGE_DATA n (sizeof_page_data + DSM_PAGE_SIZE) w"
    and "r \<equiv> put_page_request \<lparr>pr_global_addr = ga, pr_access_type = acc\<rparr>"
  assumes owner: "dsm_page_lookup ga w = Some j" "local_addr (page_at j w) \<noteq> 0"
      "readable (local_addr (page_at j w)) DSM_PAGE_SIZE w" "res_script w = []"
      "dsm_node_table_get n w = Some k" "0 \<le> tcp_fd (node_at k w)" "send_script w (tcp_fd (node_at k w)) = []"
    and q: "magic q = DSM_MAGIC" "msg_type q = msg_code DSM_MSG_PAGE_REQUEST" "src_node q = n" "payload_len q = 12"
  shows "handle_client_data fw [Received (put_header q @ r)] buf a w =
    Some (Inr ([], r @ drop (length r) buf, True, (snd h)\<lparr>sent := (sent w)(tcp_fd (node_at k w) :=
      sent w (tcp_fd (node_at k w)) @ put_header (fst h) @ page_answer j ga w)\<rparr>))"
proof -
  have len: "length r = 12"
    using page_request_codec.length_put by (simp add: r_def)
  have "dsm_handle_message q (Some (r @ rest)) w = Inr ((snd h)\<lparr>sent := (sent w)(tcp_fd (node_at k w) :=
      sent w (tcp_fd (node_at k w)) @ put_header (fst h) @ page_answer j ga w)\<rparr>)" for rest
    using page_send_clear [OF owner] q
    by (subst dispatch_page_request) (simp_all add: page_request_codec.get_put drop_result_def r_def h_def)
  then show ?thesis
    using len q by (intro client_message) auto
qed

text \<open>
  C6. A page fault end to end: an access to a page of another node that is not valid puts a request on
  the owner's connection; the bytes, read by the owner's server thread, make it answer with the page,
  and the answer, read by the server thread of the faulting node, ends the wait with success: the page
  is readable and holds the owner's 4096 bytes, and nothing else in memory has changed. The owner's own
  page, its protection and its state stay as they were, so what it writes afterwards is not seen.
\<close>

theorem page_fault_end_to_end:
  fixes v w :: world and i :: nat
  defines "fd \<equiv> owner_socket (fetch_owner i v) v" and "ga \<equiv> global_addr (page_at i v)"
    and "n \<equiv> local_node_id (ctx v)"
  assumes reader: "fault_page a i v" "owner_id (page_at i v) \<noteq> n" "pstate (page_at i v) = DSM_PAGE_INVALID"
      "install_target ga i v" "res_script v = []" "running (ctx v)" "0 \<le> fd" "send_script v fd = []"
    and owner: "dsm_page_lookup ga w = Some j" "local_addr (page_at j w) \<noteq> 0"
      "readable (local_addr (page_at j w)) DSM_PAGE_SIZE w" "res_script w = []"
      "dsm_node_table_get n w = Some k" "0 \<le> tcp_fd (node_at k w)" "send_script w (tcp_fd (node_at k w)) = []"
  shows "\<exists>v1 w1 v2 req answer bv bw.
    dsm_page_fault_handle a es v = fault_wait i es v1 \<and> sent v1 fd = sent v fd @ req \<and>
    handle_client_data fw [Received req] bufw aw w = Some (Inr ([], bw, True, w1)) \<and>
    sent w1 (tcp_fd (node_at k w)) = sent w (tcp_fd (node_at k w)) @ answer \<and>
    handle_client_data fv [Received answer] bufv av v1 = Some (Inr ([], bv, True, v2)) \<and>
    dsm_page_fault_handle a (Some v2 # es') v = Some (0, v2) \<and>
    vm v2 = (vm v)(page_base a := ProtRead) \<and> pstate (page_at i v2) = DSM_PAGE_SHARED \<and>
    (\<forall>x < DSM_PAGE_SIZE. mem v2 (page_base a + word_of_nat x) = mem w (local_addr (page_at j w) + word_of_nat x)) \<and>
    (\<forall>x. DSM_PAGE_SIZE \<le> unat (x - page_base a) \<longrightarrow> mem v2 x = mem v x) \<and>
    page_list w1 = page_list w \<and> vm w1 = vm w \<and> mem w1 = mem w"
proof -
  let ?r = "put_page_request \<lparr>pr_global_addr = ga, pr_access_type = 0\<rparr>"
  let ?q = "\<lparr>magic = DSM_MAGIC, msg_type = msg_code DSM_MSG_PAGE_REQUEST, src_node = n,
    dst_node = word_of_int (fetch_owner i v), hdr_seq_num = seq_num (ctx v), payload_len = 12\<rparr>"
  let ?v1 = "page_requested i v"
  have fault: "dsm_page_fault_handle a es v = fault_wait i es ?v1" for es
    using reader by (intro fault_sends_request(1)) (simp_all add: fd_def n_def)
  have pending: "pstate (page_at i ?v1) = DSM_PAGE_PENDING"
    and sent1: "sent ?v1 fd = sent v fd @ put_header ?q @ ?r"
    using fault_sends_request(2,3) [OF reader(1) _ disjI1 [OF reader(3)] fd_def [THEN meta_eq_to_obj_eq] reader(7,8)]
      reader(2) by (simp_all add: n_def ga_def)
  define h where "h = dsm_create_header DSM_MSG_PAGE_DATA n (sizeof_page_data + DSM_PAGE_SIZE) w"
  let ?p = "page_answer j ga w"
  let ?answer = "put_header (fst h) @ ?p"
  define w1 where "w1 = (snd h)\<lparr>sent := (sent w)(tcp_fd (node_at k w) := sent w (tcp_fd (node_at k w)) @ ?answer)\<rparr>"
  have served: "handle_client_data fw [Received (put_header ?q @ ?r)] bufw aw w =
      Some (Inr ([], ?r @ drop (length ?r) bufw, True, w1))"
    unfolding w1_def h_def by (rule page_request_served [OF owner]) simp_all
  obtain v2 where install: "drop_result (dsm_page_install (pd_global_addr (get_page_data (?p @ drop 4116 bufv)))
      (drop sizeof_page_data (?p @ drop 4116 bufv)) (unat (pd_size (get_page_data (?p @ drop 4116 bufv))))
      (pd_version (get_page_data (?p @ drop 4116 bufv))) ?v1) = Inr v2"
    and v2: "\<forall>x < DSM_PAGE_SIZE. mem v2 (local_addr (page_at i ?v1) + word_of_nat x) =
        mem w (local_addr (page_at j w) + word_of_nat x)"
      "\<forall>x. DSM_PAGE_SIZE \<le> unat (x - local_addr (page_at i ?v1)) \<longrightarrow> mem v2 x = mem ?v1 x"
      "vm v2 = (vm ?v1)(local_addr (page_at i ?v1) := ProtRead)"
      "pstate (page_at i v2) = DSM_PAGE_SHARED"
    using page_answer_installs [OF page_requested_target(1) [OF reader(1,4)], of j w "drop 4116 bufv"] reader(5)
    by (auto simp: page_requested_frame drop_result_def)
  have la: "local_addr (page_at i ?v1) = page_base a"
    using fault_page_addr [OF reader(1)] page_requested_target(2) [OF reader(1,4)] by simp
  have data: "dsm_handle_message (fst h) (Some (?p @ drop 4116 bufv)) ?v1 = Inr v2"
    using install by (subst dispatch_page_data) (simp_all add: h_def)
  have nonempty: "?p \<noteq> []"
    by (metis page_answer_read(1) list.size(3) zero_neq_numeral)
  have "handle_client_data fv [Received ?answer] bufv av ?v1 = Some (Inr ([], ?p @ drop (length ?p) bufv, True, v2))"
    by (rule client_message) (simp_all add: data nonempty, simp_all add: h_def)
  moreover have "dsm_page_fault_handle a (Some v2 # es') v = Some (0, v2)"
    using fault fault_wait_arrived [OF pending, of v2 es'] reader(6) v2(4) by (simp add: page_requested_frame)
  ultimately show ?thesis
    using fault sent1 served v2 unfolding la
    by (intro exI [of _ ?v1] exI [of _ w1] exI [of _ v2] exI [of _ "put_header ?q @ ?r"] exI [of _ ?answer]
        exI [of _ "?p @ drop (length ?p) bufv"] exI [of _ "?r @ drop (length ?r) bufw"])
       (simp add: w1_def page_requested_frame h_def)
qed

text \<open>A worker with the page of \<open>demo_owner\<close> at another address, and without its contents.\<close>

definition demo_faulting :: world where
  "demo_faulting = put_pages \<lparr>pages = [demo_page 0x9000000 1 DSM_PAGE_INVALID], capacity = 1024\<rparr>
     (boot_world\<lparr>ctx := (ctx boot_world)\<lparr>local_role := DSM_ROLE_WORKER, local_node_id := 2, master_fd := 5,
        running := True\<rparr>, vm := (\<lambda>a. if a = 0x9000000 then ProtNone else Unmapped)\<rparr>)"

lemma demo_faulting_facts:
  "fault_page 0x9000010 0 demo_faulting" "install_target 0x2000000 0 demo_faulting"
  "page_at 0 demo_faulting = demo_page 0x9000000 1 DSM_PAGE_INVALID"
  "owner_socket (fetch_owner 0 demo_faulting) demo_faulting = 5" "local_node_id (ctx demo_faulting) = 2"
  "running (ctx demo_faulting)" "res_script demo_faulting = []" "send_script demo_faulting fd = []"
proof -
  have base: "page_base 0x9000010 = 0x9000000" "page_base 0x2000000 = 0x2000000"
    by code_simp+
  have pl: "page_list demo_faulting = [demo_page 0x9000000 1 DSM_PAGE_INVALID]" "has_pages demo_faulting"
    by (simp_all add: demo_faulting_def)
  then show at: "page_at 0 demo_faulting = demo_page 0x9000000 1 DSM_PAGE_INVALID"
    by (simp add: page_at_def)
  have "dsm_page_lookup_local 0x9000010 demo_faulting = Some 0" "dsm_page_lookup 0x2000000 demo_faulting = Some 0"
    using base pl by (simp_all add: by_local.lookup_Some_iff by_global.lookup_Some_iff demo_page_def)
  then show "fault_page 0x9000010 0 demo_faulting" "install_target 0x2000000 0 demo_faulting"
    by (simp_all add: fault_page_def install_target_def at demo_page_def) (simp_all add: demo_faulting_def)
  show "owner_socket (fetch_owner 0 demo_faulting) demo_faulting = 5" "local_node_id (ctx demo_faulting) = 2"
    "running (ctx demo_faulting)" "res_script demo_faulting = []" "send_script demo_faulting fd = []"
    by (simp_all add: owner_socket_def fetch_owner_def at demo_page_def)
       (simp_all add: demo_faulting_def put_pages_def boot_world_def)
qed

theorem page_fault_end_to_end_witness:
  "\<exists>v1 w1 v2 req answer bv bw. dsm_page_fault_handle 0x9000010 [] demo_faulting = fault_wait 0 [] v1 \<and>
    handle_client_data 7 [Received req] [] False demo_owner = Some (Inr ([], bw, True, w1)) \<and>
    handle_client_data 5 [Received answer] [] False v1 = Some (Inr ([], bv, True, v2)) \<and>
    dsm_page_fault_handle 0x9000010 [Some v2] demo_faulting = Some (0, v2) \<and> mem v2 0x9000002 = 42"
proof -
  note f = demo_faulting_facts
  have reader: "owner_id (page_at 0 demo_faulting) \<noteq> local_node_id (ctx demo_faulting)"
    "pstate (page_at 0 demo_faulting) = DSM_PAGE_INVALID"
    "install_target (global_addr (page_at 0 demo_faulting)) 0 demo_faulting"
    "0 \<le> owner_socket (fetch_owner 0 demo_faulting) demo_faulting"
    using f(2) by (simp_all add: f demo_page_def)
  have owner: "dsm_page_lookup (global_addr (page_at 0 demo_faulting)) demo_owner = Some 0"
    "local_addr (page_at 0 demo_owner) \<noteq> 0" "readable (local_addr (page_at 0 demo_owner)) DSM_PAGE_SIZE demo_owner"
    by (simp_all add: f(3), simp_all add: demo_page_def readable_def pages_spanned_within)
  have node: "dsm_node_table_get (local_node_id (ctx demo_faulting)) demo_owner = Some 1"
    using demo_owner_node(1) by (simp add: f)
  have base: "page_base 0x9000010 = 0x9000000"
    by code_simp
  from page_fault_end_to_end [OF f(1) reader(1-3) f(7,6) reader(4) f(8) owner demo_page_facts(7) node
      demo_owner_node(2) demo_page_facts(8), of "[]" 7 "[]" False 5 "[]" False "[]"]
  obtain v1 w1 v2 req answer bv bw where
    c: "dsm_page_fault_handle 0x9000010 [] demo_faulting = fault_wait 0 [] v1"
      "handle_client_data 7 [Received req] [] False demo_owner = Some (Inr ([], bw, True, w1))"
      "handle_client_data 5 [Received answer] [] False v1 = Some (Inr ([], bv, True, v2))"
      "dsm_page_fault_handle 0x9000010 [Some v2] demo_faulting = Some (0, v2)"
    and m: "\<forall>x < DSM_PAGE_SIZE. mem v2 (page_base 0x9000010 + word_of_nat x) =
      mem demo_owner (local_addr (page_at 0 demo_owner) + word_of_nat x)"
    by blast
  have "mem v2 0x9000002 = 42"
    using m [rule_format, of 2] by (simp add: base demo_page_def)
  with c show ?thesis by blast
qed

text \<open>A node that waits in the discovery becomes a worker when the reply of a master reaches its listener.\<close>

lemma waiting_hears_master:
  assumes "address_ok a" "running (ctx v)" "g_udp_running v" "\<not> master_found (ctx v)"
  shows "dsm_udp_wait_discovery [Woken [Datagram (format_message DISCOVER_REPLY a p c)]] v =
    Some (DSM_ROLE_WORKER, handle_discover_reply (cstr a) (ucast p) v)"
proof -
  let ?v1 = "handle_discover_reply (cstr a) (ucast p) v"
  have heard: "udp_listener_thread_func [Datagram (format_message DISCOVER_REPLY a p c)] v = ?v1"
    using assms by (simp add: datagram_reply)
  have "dsm_udp_wait_discovery rs ?v1 = Some (DSM_ROLE_WORKER, ?v1)" for rs
    by (subst dsm_udp_wait_discovery.simps) (simp add: handle_discover_reply_def)
  then show ?thesis
    using assms by (subst dsm_udp_wait_discovery.simps) (simp add: heard del: udp_listener_thread_func.simps)
qed

text \<open>
  C7. A node joins: its discovery, heard by the master, is answered by a datagram, which ends the wait
  of the new node as a worker, and by a connection to its address and port; what the master puts there,
  read by the new node's server thread, gives it the next free id and copies of all nodes, itself
  included. The connection is noted as the master's if it is accepted after the role has been taken, and is
  lost if before.
\<close>

theorem join_end_to_end:
  fixes v w :: world and fd fv :: int
  assumes new: "local_role (ctx v) = DSM_ROLE_UNKNOWN" "running (ctx v)" "g_udp_running v" "\<not> master_found (ctx v)"
      "master_fd (ctx v) = -1" "0 \<le> g_udp_socket v" "res_script v = []" "address_ok (local_ip (ctx v))"
      "nodes_ok v" "node_table (ctx v) \<noteq> None" "abs_nodes v = []"
    and master: "nodes_ok w" "node_table (ctx w) \<noteq> None" "length (abs_nodes w) < DSM_MAX_NODES"
      "local_role (ctx w) = DSM_ROLE_MASTER" "ids_in_order (abs_nodes w)"
      "local_node_id (ctx w) \<in> node_id ` set (abs_nodes w)" "address_ok (local_ip (ctx w))"
    and unknown: "cstr (local_ip (ctx v)) \<noteq> cstr (local_ip (ctx w)) \<or> local_port (ctx v) \<noteq> local_port (ctx w)"
      "\<forall>n \<in> set (abs_nodes w). \<not> same_endpoint (local_ip (ctx v)) (local_port (ctx v)) n"
    and sys: "res_script w = []" "fd_script w = fd # fds" "0 \<le> fd" "fd \<notin> tcp_fd ` set (abs_nodes w)"
      "\<And>f. send_script w f = []"
  shows "\<exists>v0 v1 v2 msg reply bytes w' buf'.
    dsm_udp_broadcast_discover (local_ip (ctx v)) (local_port (ctx v)) (local_chunks (ctx v)) v = (0, v0) \<and>
    datagrams v0 = datagrams v @ [(None, msg)] \<and> handle_datagram msg w = w' \<and>
    datagrams w' = datagrams w @ [(Some (cstr (local_ip (ctx v))), reply)] \<and>
    connects w' = connects w @ [(fd, cstr (local_ip (ctx v)), local_port (ctx v))] \<and> sent w' fd = sent w fd @ bytes \<and>
    (\<exists>n. abs_nodes w' = abs_nodes w @ [n] \<and> node_id n = word_of_nat (Suc (length (abs_nodes w))) \<and> tcp_fd n = fd) \<and>
    dsm_udp_wait_discovery [Woken [Datagram reply]] v0 = Some (DSM_ROLE_WORKER, v1) \<and>
    handle_client_data fv [Received bytes] buf again (handle_new_connection fv (take_role DSM_ROLE_WORKER v1)) =
      Some (Inr ([], buf', True, v2)) \<and>
    local_role (ctx v2) = DSM_ROLE_WORKER \<and> local_node_id (ctx v2) = word_of_nat (Suc (length (abs_nodes w))) \<and>
    list_all2 copy_of (abs_nodes v2) (abs_nodes w') \<and> master_fd (ctx v2) = fv \<and>
    master_fd (ctx (take_role DSM_ROLE_WORKER (handle_new_connection fv v1))) = -1"
proof -
  let ?a = "local_ip (ctx v)" and ?p = "local_port (ctx v)" and ?c = "local_chunks (ctx v)"
  let ?msg = "format_message DISCOVER_MSG ?a ?p ?c"
  let ?reply = "format_message DISCOVER_REPLY (local_ip (ctx w)) (local_port (ctx w)) (local_chunks (ctx w))"
  let ?id = "word_of_nat (Suc (length (abs_nodes w))) :: u32"
  define v0 where "v0 = v\<lparr>datagrams := datagrams v @ [(None, ?msg)]\<rparr>"
  have cast: "dsm_udp_broadcast_discover ?a ?p ?c v = (0, v0)"
    using new(6,7) by (simp add: dsm_udp_broadcast_discover_def sendto_def sys_call_ok v0_def)
  obtain w' h h' bs where w': "handle_datagram ?msg w = w'" "nodes_ok w'"
    and nodes: "abs_nodes w' = abs_nodes w @ [new_entry (cstr ?a) ?p ?c DSM_ROLE_WORKER fd (now w) (length (abs_nodes w))]"
    and out: "datagrams w' = datagrams w @ [(Some (cstr ?a), ?reply)]" "connects w' = connects w @ [(fd, cstr ?a, ?p)]"
      "sent w' fd = sent w fd @ encode_message (h, put32 ?id) @ encode_message (h', bs)"
    and hs: "join_header h" "table_header bs h'" "dsm_node_table_serialize DSM_MAX_MESSAGE_SIZE w' = Some bs"
    using discovery_join [OF master(1-6) new(8) unknown sys, of ?c] by blast
  let ?n = "new_entry (cstr ?a) ?p ?c DSM_ROLE_WORKER fd (now w) (length (abs_nodes w))"
  have n: "node_id ?n = ?id" "tcp_fd ?n = fd"
    by (simp_all add: new_entry_def add.commute)
  have "distinct (map node_id (abs_nodes w'))"
    using master(3,5) n(1) unfolding nodes by (intro ids_in_order_distinct) (simp_all add: ids_in_order_append)
  note joined = joined [OF hs(1,2) w'(2) this hs(3)]
  define v1 where "v1 = handle_discover_reply (cstr (local_ip (ctx w))) (ucast (local_port (ctx w))) v0"
  have wait: "dsm_udp_wait_discovery [Woken [Datagram ?reply]] v0 = Some (DSM_ROLE_WORKER, v1)"
    unfolding v1_def using new(2-4) by (intro waiting_hears_master master(7)) (simp_all add: v0_def)
  have v1: "local_role (ctx v1) = DSM_ROLE_UNKNOWN" "master_fd (ctx v1) = -1" "res_script v1 = []"
    "node_table (ctx v1) = node_table (ctx v)"
    using new(1,5,7) by (simp_all add: v1_def handle_discover_reply_def v0_def wake_def)
  let ?u = "handle_new_connection fv (take_role DSM_ROLE_WORKER v1)"
  have u: "local_role (ctx ?u) = DSM_ROLE_WORKER" "master_fd (ctx ?u) = fv" "node_table (ctx ?u) = node_table (ctx v)"
    using v1 by (simp_all add: handle_new_connection_def take_role_def sys_call_ok)
  have empty: "node_table (ctx ?u) \<noteq> None" "nodes_ok ?u" "abs_nodes ?u = []"
    using new(9-11) u(3) by (simp_all add: nodes_ok_def abs_nodes_def)
  obtain buf' t where run: "handle_client_data fv [Received (encode_message (h, put32 ?id) @ encode_message (h', bs))]
      buf again ?u = Some (Inr ([], buf', True, put_table t (?u\<lparr>ctx := (ctx ?u)\<lparr>local_node_id := ?id\<rparr>\<rparr>)))"
    and copies: "list_all2 copy_of (live_nodes t) (abs_nodes w')"
    using joined [OF empty, of fv ?id buf again] by blast
  define v2 where "v2 = put_table t (?u\<lparr>ctx := (ctx ?u)\<lparr>local_node_id := ?id\<rparr>\<rparr>)"
  have v2: "local_role (ctx v2) = DSM_ROLE_WORKER" "local_node_id (ctx v2) = ?id" "master_fd (ctx v2) = fv"
    "list_all2 copy_of (abs_nodes v2) (abs_nodes w')"
    using u copies unfolding v2_def by (simp_all add: put_table_def abs_nodes_def)
  have early: "master_fd (ctx (take_role DSM_ROLE_WORKER (handle_new_connection fv v1))) = -1"
    using v1 by (simp add: handle_new_connection_def take_role_def sys_call_ok)
  have sent0: "datagrams v0 = datagrams v @ [(None, ?msg)]"
    by (simp add: v0_def)
  show ?thesis
    by (intro exI conjI, rule cast, rule sent0, rule w'(1), rule out(1), rule out(2), rule out(3), rule nodes, rule n(1), rule n(2),
        rule wait, rule run [folded v2_def], rule v2(1), rule v2(2), rule v2(4), rule v2(3), rule early)
qed

text \<open>A node that has just been started, and the master with three nodes of \<open>demo_listener\<close>.\<close>

definition demo_newcomer :: world where
  "demo_newcomer = snd (dsm_node_table_init (boot_world\<lparr>g_udp_running := True, g_udp_socket := 3,
     ctx := fresh_context\<lparr>running := True, local_ip := demo_ip, local_port := 9003, local_chunks := 5\<rparr>\<rparr>))"

theorem join_end_to_end_witness:
  "\<exists>v0 v1 v2 msg reply bytes w' buf'. datagrams v0 = [(None, msg)] \<and> handle_datagram msg demo_listener = w' \<and>
    sent w' 9 = bytes \<and> dsm_udp_wait_discovery [Woken [Datagram reply]] v0 = Some (DSM_ROLE_WORKER, v1) \<and>
    handle_client_data 6 [Received bytes] [] False (handle_new_connection 6 (take_role DSM_ROLE_WORKER v1)) =
      Some (Inr ([], buf', True, v2)) \<and>
    local_node_id (ctx v2) = 4 \<and> list_all2 copy_of (abs_nodes v2) (abs_nodes w') \<and> master_fd (ctx v2) = 6"
proof -
  let ?v = demo_newcomer and ?w = demo_listener
  have ctx: "local_role (ctx ?v) = DSM_ROLE_UNKNOWN" "running (ctx ?v)" "g_udp_running ?v" "\<not> master_found (ctx ?v)"
    "master_fd (ctx ?v) = -1" "0 \<le> g_udp_socket ?v" "res_script ?v = []" "node_table (ctx ?v) \<noteq> None"
    "abs_nodes ?v = []" "local_ip (ctx ?v) = demo_ip" "local_port (ctx ?v) = 9003" "datagrams ?v = []"
    by (simp_all add: demo_newcomer_def dsm_node_table_init_def boot_world_def fresh_context_def zero_context_def
        sys_call_def put_table_def abs_nodes_def live_nodes_def)
  have v: "nodes_ok ?v"
    unfolding demo_newcomer_def by (rule init_nodes_ok)
  have abs: "abs_nodes ?w = abs_nodes demo_nodes"
    by (simp add: abs_nodes_def demo_listener_def)
  have same: "node_table (ctx ?w) = node_table (ctx demo_nodes)"
    by (simp add: demo_listener_def)
  have len: "length (abs_nodes ?w) = 3" and addr: "address_ok demo_ip" and fresh: "9 \<notin> tcp_fd ` set (abs_nodes ?w)"
    and new: "\<forall>n \<in> set (abs_nodes ?w). \<not> same_endpoint demo_ip 9003 n" and own: "1 \<in> node_id ` set (abs_nodes ?w)"
    and sys: "res_script demo_nodes = []" "sent demo_nodes 9 = []"
    unfolding abs by code_simp+
  have ok: "nodes_ok ?w" "node_table (ctx ?w) \<noteq> None" "ids_in_order (abs_nodes ?w)"
    using demo_nodes_ok demo_nodes_table by (simp_all only: abs nodes_ok_def same demo_nodes_in_order not_False_eq_True)
  have w: "local_role (ctx ?w) = DSM_ROLE_MASTER" "local_node_id (ctx ?w) = 1" "local_ip (ctx ?w) = demo_ip"
    "local_port (ctx ?w) = 9000" "res_script ?w = []" "fd_script ?w = 9 # []" "sent ?w 9 = []"
    "send_script ?w f = []" for f
    using sys by (simp_all add: demo_listener_def)
  from join_end_to_end [OF ctx(1-7) _ v ctx(8,9) ok(1,2) _ w(1) ok(3) _ _ _ _ w(5,6) _ fresh w(8), of 6 "[]" False]
  show ?thesis
    using len addr new own w ctx by simp blast
qed

text \<open>
  C25. A master that connects too early is never known: it connects as soon as it has answered the
  discovery, when the new node is still waiting for its role, and only a worker notes the connection.
  Then, with no other connection in its table, every \<^verbatim>\<open>dsm_lock\<close> of the worker returns at once, with no
  message sent and without the lock.
\<close>

theorem early_master_connection:
  fixes w :: world and fd k :: int
  assumes "local_role (ctx w) = DSM_ROLE_UNKNOWN" "master_fd (ctx w) = -1" "fst (sys_call w)"
    and "node_table (ctx w) = Some t" "table_ok t" "\<forall>n \<in> set (live_nodes t). tcp_fd n < 0"
  defines "v \<equiv> take_role DSM_ROLE_WORKER (handle_new_connection fd w)"
  shows "master_fd (ctx v) = -1 \<and> fst (dsm_lock_call k v) = Returned \<and>
    sent (snd (dsm_lock_call k v)) = sent w \<and> locks (ctx (snd (dsm_lock_call k v))) = locks (ctx w)"
proof -
  have v: "v = (snd (sys_call w))\<lparr>ctx := (ctx w)\<lparr>local_role := DSM_ROLE_WORKER\<rparr>\<rparr>"
    using assms(1,3) by (simp add: v_def handle_new_connection_def take_role_def case_prod_beta)
  have tab: "node_table (ctx v) = Some t" "node_table (ctx (snd (dsm_create_header ty d n v))) = Some t" for ty d n
    using assms(4) by (simp_all add: v)
  have "tcp_fd (node_at i (snd (dsm_create_header ty d n v))) < 0"
    if "dsm_node_table_get m (snd (dsm_create_header ty d n v)) = Some i" for m i ty d n
  proof -
    have "first_index (\<lambda>n. node_id n = m) (nodes t) 0 (unat (node_count t)) = Some i"
      using that by (simp add: dsm_node_table_get_def tab)
    then have "i < unat (node_count t)"
      by (rule first_index_bound)
    then have "nodes t ! i \<in> set (live_nodes t)"
      using assms(5) by (simp add: live_nodes_def table_ok_def nth_take_iff_first)
    with assms(6) show ?thesis
      by (simp add: node_at_def tab)
  qed
  then have none: "\<not> is_master_at (snd (dsm_create_header ty d n v)) i" for i ty d n
    unfolding is_master_at_def by (auto split: option.splits simp: not_le)
  have fd: "master_fd (ctx v) = -1"
    using assms(2) by (simp add: v)
  then have "master_socket (snd (dsm_create_header ty d n v)) = -1" for ty d n
  proof -
    have "List.find (is_master_at (snd (dsm_create_header ty d n v))) xs = None" for xs
      using none by (simp add: find_None_iff)
    then show ?thesis
      using fd by (simp add: master_socket_def)
  qed
  then show ?thesis
    using fd by (simp add: dsm_lock_call_def case_prod_beta Let_def) (simp add: v)
qed

theorem early_master_connection_witness:
  "fst (dsm_lock_call 3 (take_role DSM_ROLE_WORKER (handle_new_connection 9
     (snd (dsm_node_table_init (boot_world\<lparr>ctx := fresh_context\<rparr>)))))) = Returned"
proof -
  let ?w = "snd (dsm_node_table_init (boot_world\<lparr>ctx := fresh_context\<rparr>))"
  let ?t = "\<lparr>nodes = replicate DSM_MAX_NODES zero_node, node_count = 0\<rparr>"
  have "local_role (ctx ?w) = DSM_ROLE_UNKNOWN" "master_fd (ctx ?w) = -1" "fst (sys_call ?w)"
    "node_table (ctx ?w) = Some ?t"
    by (simp_all add: dsm_node_table_init_def boot_world_def fresh_context_def zero_context_def sys_call_def
        put_table_def)
  moreover have "table_ok ?t" "\<forall>n \<in> set (live_nodes ?t). tcp_fd n < 0"
    by (simp_all add: table_ok_def zero_node_def live_nodes_def)
  ultimately show ?thesis
    using early_master_connection [of ?w ?t 9 3] by blast
qed

end
